(* ===== verification/Go_Prelude.thy ===== *)
theory Go_Prelude
  imports Main "HOL-Library.AList" "HOL-Library.Sublist" "HOL-Library.Monad_Syntax"
begin

text \<open>
  The part of Go and of its standard library that the agent's sources use, as HOL functions, with
  the lemmas every component shares.

  A Go \<open>string\<close> is a byte sequence, here \<^typ>\<open>string\<close> (a list of 8-bit \<^typ>\<open>char\<close>s). The functions of
  package \<open>strings\<close> are written byte for byte: white space is recognised by the UTF-8 encodings of the
  code points \<open>unicode.IsSpace\<close> accepts, case folding by the orbits that reach an ASCII letter.
  A run-time panic is the value \<^const>\<open>None\<close> of the type \<open>'a go\<close>; a result paired with an \<open>error\<close> is a
  sum whose left side is the error text, or an explicit pair where the code uses both.
  A Go map is an association list with distinct keys, whose order is the iteration order of a
  \<open>range\<close> loop; \<open>None\<close> is the nil map.
\<close>

named_theorems go_defs \<open>definitions of the Go library model, unfolded to evaluate a term\<close>
named_theorems go_map_simps \<open>lookups after updates of a Go map\<close>

type_synonym 'a go = "'a option"
type_synonym gomap = "(string \<times> string) list option"

section \<open>Maps\<close>

text \<open>\<open>m[k]\<close> on a \<open>map[string]string\<close>: the zero value where the key, or the map, is missing.\<close>

definition gget :: "gomap \<Rightarrow> string \<Rightarrow> string" where
  "gget m k = (case m of None \<Rightarrow> [] | Some al \<Rightarrow> (case map_of al k of None \<Rightarrow> [] | Some v \<Rightarrow> v))"

text \<open>\<open>v, ok := m[k]\<close>.\<close>

definition gfind :: "gomap \<Rightarrow> string \<Rightarrow> string option" where
  "gfind m k = (case m of None \<Rightarrow> None | Some al \<Rightarrow> map_of al k)"

text \<open>\<open>m[k] = v\<close>: a panic on the nil map.\<close>

definition gset :: "string \<Rightarrow> string \<Rightarrow> gomap \<Rightarrow> gomap go" where
  "gset k v m = (case m of None \<Rightarrow> None | Some al \<Rightarrow> Some (Some (AList.update k v al)))"

definition gomap_ok :: "gomap \<Rightarrow> bool" where
  "gomap_ok m = (case m of None \<Rightarrow> True | Some al \<Rightarrow> distinct (map fst al))"

lemma gget_Some [go_map_simps]: "gget (Some al) k = (case map_of al k of None \<Rightarrow> [] | Some v \<Rightarrow> v)"
  by (simp add: gget_def)

lemma gget_None [simp]: "gget None k = []"
  by (simp add: gget_def)

lemma gget_update [simp]: "gget (Some (AList.update k v al)) k' = (if k = k' then v else gget (Some al) k')"
  by (simp add: gget_def update_conv')

lemma gfind_update [simp]:
  "gfind (Some (AList.update k v al)) k' = (if k = k' then Some v else gfind (Some al) k')"
  by (simp add: gfind_def update_conv')

lemma gomap_ok_update [simp]: "gomap_ok (Some al) \<Longrightarrow> gomap_ok (Some (AList.update k v al))"
  by (simp add: gomap_ok_def distinct_update)

section \<open>Splitting and joining\<close>

text \<open>\<open>strings.Split(s, sep)\<close> for a one-byte separator.\<close>

fun Split :: "char \<Rightarrow> string \<Rightarrow> string list" where
  "Split c [] = [[]]"
| "Split c (x # xs) =
     (if x = c then [] # Split c xs
      else (case Split c xs of [] \<Rightarrow> [[x]] | y # ys \<Rightarrow> (x # y) # ys))"

text \<open>\<open>strings.SplitN(s, sep, 2)\<close> for a one-byte separator.\<close>

fun SplitN2 :: "char \<Rightarrow> string \<Rightarrow> string list" where
  "SplitN2 c [] = [[]]"
| "SplitN2 c (x # xs) =
     (if x = c then [[], xs]
      else (case SplitN2 c xs of [] \<Rightarrow> [[x]] | y # ys \<Rightarrow> (x # y) # ys))"

text \<open>\<open>strings.Join(xs, sep)\<close>.\<close>

fun Join :: "string \<Rightarrow> string list \<Rightarrow> string" where
  "Join sep [] = []"
| "Join sep [x] = x"
| "Join sep (x # y # zs) = x @ sep @ Join sep (y # zs)"

lemma Split_not_Nil [simp]: "Split c s \<noteq> []"
  by (induction s) (auto split: list.splits)

lemma Split_parts_no_sep: "p \<in> set (Split c s) \<Longrightarrow> c \<notin> set p"
proof (induction s arbitrary: p)
  case Nil
  then show ?case by simp
next
  case (Cons x xs)
  obtain y ys where eq: "Split c xs = y # ys" by (cases "Split c xs") auto
  have "c \<notin> set y" "\<And>q. q \<in> set ys \<Longrightarrow> c \<notin> set q"
    using Cons.IH eq by auto
  with Cons.prems eq show ?case by (auto split: if_splits)
qed

lemma Split_no_sep: "c \<notin> set s \<Longrightarrow> Split c s = [s]"
  by (induction s) auto

lemma Split_append_sep: "c \<notin> set a \<Longrightarrow> Split c (a @ c # b) = a # Split c b"
  by (induction a) auto

lemma Join_Cons: "xs \<noteq> [] \<Longrightarrow> Join sep (x # xs) = x @ sep @ Join sep xs"
  by (cases xs) auto

lemma Join_Split: "Join [c] (Split c s) = s"
proof (induction s)
  case Nil
  then show ?case by simp
next
  case (Cons x xs)
  obtain y ys where eq: "Split c xs = y # ys" by (cases "Split c xs") auto
  with Cons show ?case by (cases ys) (auto simp: Join_Cons)
qed

lemma Split_Join:
  "xs \<noteq> [] \<Longrightarrow> (\<And>x. x \<in> set xs \<Longrightarrow> c \<notin> set x) \<Longrightarrow> Split c (Join [c] xs) = xs"
proof (induction xs)
  case (Cons x xs)
  then show ?case
    by (cases "xs = []") (auto simp: Join_Cons Split_no_sep Split_append_sep)
qed simp

lemma Split_length: "length (Split c s) = Suc (count_list s c)"
proof (induction s)
  case (Cons x xs)
  then show ?case by (cases "Split c xs") auto
qed simp

lemma SplitN2_no_sep: "c \<notin> set s \<Longrightarrow> SplitN2 c s = [s]"
  by (induction s) auto

lemma SplitN2_append_sep: "c \<notin> set a \<Longrightarrow> SplitN2 c (a @ c # b) = [a, b]"
  by (induction a) auto

section \<open>White space\<close>

text \<open>The UTF-8 encodings of the code points for which \<open>unicode.IsSpace\<close> holds.\<close>

definition space_runes :: "string list" where
  "space_runes =
     [[CHR 0x09], [CHR 0x0A], [CHR 0x0B], [CHR 0x0C], [CHR 0x0D], [CHR 0x20],
      [CHR 0xC2, CHR 0x85], [CHR 0xC2, CHR 0xA0], [CHR 0xE1, CHR 0x9A, CHR 0x80],
      [CHR 0xE2, CHR 0x80, CHR 0x80], [CHR 0xE2, CHR 0x80, CHR 0x81], [CHR 0xE2, CHR 0x80, CHR 0x82],
      [CHR 0xE2, CHR 0x80, CHR 0x83], [CHR 0xE2, CHR 0x80, CHR 0x84], [CHR 0xE2, CHR 0x80, CHR 0x85],
      [CHR 0xE2, CHR 0x80, CHR 0x86], [CHR 0xE2, CHR 0x80, CHR 0x87], [CHR 0xE2, CHR 0x80, CHR 0x88],
      [CHR 0xE2, CHR 0x80, CHR 0x89], [CHR 0xE2, CHR 0x80, CHR 0x8A], [CHR 0xE2, CHR 0x80, CHR 0xA8],
      [CHR 0xE2, CHR 0x80, CHR 0xA9], [CHR 0xE2, CHR 0x80, CHR 0xAF], [CHR 0xE2, CHR 0x81, CHR 0x9F],
      [CHR 0xE3, CHR 0x80, CHR 0x80]]"

text \<open>What is left of \<open>s\<close> after one leading element of \<open>us\<close>, if it starts with one.\<close>

fun strip_one :: "string list \<Rightarrow> string \<Rightarrow> string option" where
  "strip_one [] s = None"
| "strip_one (u # us) s =
     (if u \<noteq> [] \<and> prefix u s then Some (drop (length u) s) else strip_one us s)"

lemma strip_one_shorter: "strip_one us s = Some r \<Longrightarrow> length r < length s"
proof (induction us)
  case (Cons u us)
  then show ?case
  proof (cases "u \<noteq> [] \<and> prefix u s")
    case True
    then have "0 < length u" "length u \<le> length s" by (auto dest: prefix_length_le)
    moreover have "length r = length s - length u" using Cons.prems True by auto
    ultimately show ?thesis by linarith
  qed auto
qed simp

lemma strip_one_Nil [simp]: "strip_one us [] = None"
  by (induction us) auto

function strip_all :: "string list \<Rightarrow> string \<Rightarrow> string" where
  "strip_all us s = (case strip_one us s of None \<Rightarrow> s | Some r \<Rightarrow> strip_all us r)"
  by pat_completeness auto
termination
  by (relation "measure (\<lambda>(us, s). length s)") (auto dest: strip_one_shorter)

declare strip_all.simps [simp del]

text \<open>\<open>strings.TrimSpace\<close>.\<close>

definition TrimSpace :: "string \<Rightarrow> string" where
  "TrimSpace s = rev (strip_all (map rev space_runes) (rev (strip_all space_runes s)))"

text \<open>\<open>strings.Fields\<close>: the maximal runs of bytes that start no white-space rune.\<close>

function fields_from :: "string \<Rightarrow> string \<Rightarrow> string list" where
  "fields_from cur [] = (if cur = [] then [] else [rev cur])"
| "fields_from cur (c # cs) =
     (case strip_one space_runes (c # cs) of
        Some r \<Rightarrow> (if cur = [] then fields_from [] r else rev cur # fields_from [] r)
      | None \<Rightarrow> fields_from (c # cur) cs)"
  by pat_completeness auto
termination
  by (relation "measure (\<lambda>(cur, s). length s)") (auto dest: strip_one_shorter)

definition Fields :: "string \<Rightarrow> string list" where
  "Fields s = fields_from [] s"

definition ascii_space :: "char \<Rightarrow> bool" where
  "ascii_space c \<longleftrightarrow> c \<in> {CHR 0x09, CHR 0x0A, CHR 0x0B, CHR 0x0C, CHR 0x0D, CHR 0x20}"

lemma strip_one_mem: "u \<in> set us \<Longrightarrow> u \<noteq> [] \<Longrightarrow> prefix u s \<Longrightarrow> \<exists>r. strip_one us s = Some r"
  by (induction us) auto

lemma strip_one_ascii: "ascii_space c \<Longrightarrow> \<exists>r. strip_one space_runes (c # cs) = Some r"
proof -
  assume "ascii_space c"
  then have "[c] \<in> set space_runes" by (auto simp: ascii_space_def space_runes_def)
  then show ?thesis by (rule strip_one_mem) auto
qed

lemma fields_from_words:
  "f \<in> set (fields_from cur s) \<Longrightarrow> (\<forall>c \<in> set cur. \<not> ascii_space c) \<Longrightarrow>
     f \<noteq> [] \<and> (\<forall>c \<in> set f. \<not> ascii_space c)"
proof (induction cur s arbitrary: f rule: fields_from.induct)
  case (1 cur)
  then show ?case by (auto split: if_splits)
next
  case (2 cur c cs)
  show ?case
  proof (cases "strip_one space_runes (c # cs)")
    case None
    then have "\<not> ascii_space c" using strip_one_ascii [of c cs] by auto
    then have "\<forall>d \<in> set (c # cur). \<not> ascii_space d" using "2.prems"(2) by simp
    moreover have "f \<in> set (fields_from (c # cur) cs)" using "2.prems"(1) None by simp
    ultimately show ?thesis using "2.IH"(1) [OF None] by blast
  next
    case (Some r)
    show ?thesis
    proof (cases "cur = []")
      case True
      then have "f \<in> set (fields_from [] r)" using "2.prems"(1) Some by simp
      then show ?thesis using "2.IH"(2) [OF Some True] by simp
    next
      case False
      then have "f = rev cur \<or> f \<in> set (fields_from [] r)" using "2.prems"(1) Some by simp
      then show ?thesis
      proof
        assume "f = rev cur"
        then show ?thesis using False "2.prems"(2) by simp
      next
        assume "f \<in> set (fields_from [] r)"
        then show ?thesis using "2.IH"(3) [OF Some False] by simp
      qed
    qed
  qed
qed

text \<open>A field is never empty and holds no ASCII white space.\<close>

lemma Fields_words: "f \<in> set (Fields s) \<Longrightarrow> f \<noteq> [] \<and> (\<forall>c \<in> set f. \<not> ascii_space c)"
  unfolding Fields_def by (rule fields_from_words) auto

section \<open>Searching and case\<close>

text \<open>
  \<open>s[strings.Index(s, c):]\<close> for a one-byte pattern: the suffix from the first occurrence, or
  \<^const>\<open>None\<close> where \<open>Index\<close> returns \<open>-1\<close>.
\<close>

fun from_index :: "char \<Rightarrow> string \<Rightarrow> string option" where
  "from_index c [] = None"
| "from_index c (x # xs) = (if x = c then Some (x # xs) else from_index c xs)"

lemma from_index_None: "from_index c s = None \<longleftrightarrow> c \<notin> set s"
  by (induction s) auto

lemma from_index_Some: "from_index c s = Some r \<Longrightarrow> \<exists>a. s = a @ r \<and> c \<notin> set a \<and> (\<exists>r'. r = c # r')"
proof (induction s)
  case (Cons x xs)
  show ?case
  proof (cases "x = c")
    case True
    then show ?thesis using Cons.prems by auto
  next
    case False
    then obtain a r' where "xs = a @ r" "c \<notin> set a" "r = c # r'" using Cons by auto
    then show ?thesis using False by (intro exI [of _ "x # a"]) auto
  qed
qed simp

lemma from_index_append: "c \<notin> set a \<Longrightarrow> from_index c (a @ c # b) = Some (c # b)"
  by (induction a) auto

text \<open>\<open>strings.Contains\<close>.\<close>

fun Contains :: "string \<Rightarrow> string \<Rightarrow> bool" where
  "Contains [] p \<longleftrightarrow> p = []"
| "Contains (x # xs) p \<longleftrightarrow> prefix p (x # xs) \<or> Contains xs p"

definition ascii_lower :: "char \<Rightarrow> char" where
  "ascii_lower c =
     (if 65 \<le> (of_char c :: nat) \<and> (of_char c :: nat) \<le> 90
      then char_of ((of_char c :: nat) + 32) else c)"

text \<open>
  \<open>strings.ToLower\<close>, up to the non-ASCII letters whose lower case is not ASCII, which stay as they
  are: U+0130 goes to \<open>i\<close> and U+212A to \<open>k\<close>, so a comparison of the result with ASCII text is exact.
\<close>

fun ToLower :: "string \<Rightarrow> string" where
  "ToLower [] = []"
| "ToLower (c # cs) =
     (if c = CHR 0xC4 \<and> take 1 cs = [CHR 0xB0] then CHR ''i'' # ToLower (drop 1 cs)
      else if c = CHR 0xE2 \<and> take 2 cs = [CHR 0x84, CHR 0xAA] then CHR ''k'' # ToLower (drop 2 cs)
      else ascii_lower c # ToLower cs)"

text \<open>
  The simple case folding of \<open>strings.EqualFold\<close>, exact where one argument is ASCII (as in every
  call of the agent): \<open>k\<close> also matches U+212A and \<open>s\<close> also matches U+017F.
\<close>

fun fold_case :: "string \<Rightarrow> string" where
  "fold_case [] = []"
| "fold_case (c # cs) =
     (if c = CHR 0xE2 \<and> take 2 cs = [CHR 0x84, CHR 0xAA] then CHR ''k'' # fold_case (drop 2 cs)
      else if c = CHR 0xC5 \<and> take 1 cs = [CHR 0xBF] then CHR ''s'' # fold_case (drop 1 cs)
      else ascii_lower c # fold_case cs)"

definition EqualFold :: "string \<Rightarrow> string \<Rightarrow> bool" where
  "EqualFold s t \<longleftrightarrow> fold_case s = fold_case t"

lemma EqualFold_refl [simp]: "EqualFold s s"
  by (simp add: EqualFold_def)

section \<open>Decimal numbers\<close>

text \<open>The truncating division of Go's integers.\<close>

definition go_quot :: "int \<Rightarrow> int \<Rightarrow> int" where
  "go_quot a b = sgn a * sgn b * (\<bar>a\<bar> div \<bar>b\<bar>)"

lemma go_quot_nonneg: "0 \<le> a \<Longrightarrow> 0 < b \<Longrightarrow> go_quot a b = a div b"
  by (auto simp: go_quot_def sgn_if)

lemma go_quot_bound: "0 < b \<Longrightarrow> \<bar>go_quot a b\<bar> \<le> \<bar>a\<bar>"
proof -
  assume b: "0 < b"
  have "\<bar>a\<bar> div b \<le> \<bar>a\<bar>" using zdiv_mono2 [of "\<bar>a\<bar>" 1 b] b by simp
  moreover have "0 \<le> \<bar>a\<bar> div b" using b by (simp add: pos_imp_zdiv_nonneg_iff)
  moreover have "go_quot a b = \<bar>a\<bar> div b \<or> go_quot a b = - (\<bar>a\<bar> div b)"
    using b by (auto simp: go_quot_def sgn_if)
  ultimately show ?thesis by linarith
qed

definition digit :: "nat \<Rightarrow> char" where
  "digit d = char_of (48 + d)"

definition is_digit :: "char \<Rightarrow> bool" where
  "is_digit c \<longleftrightarrow> 48 \<le> (of_char c :: nat) \<and> (of_char c :: nat) \<le> 57"

definition digit_val :: "char \<Rightarrow> nat" where
  "digit_val c = of_char c - 48"

fun nat_str :: "nat \<Rightarrow> string" where
  "nat_str n = (if n < 10 then [digit n] else nat_str (n div 10) @ [digit (n mod 10)])"

declare nat_str.simps [simp del]

text \<open>\<open>strconv.Itoa\<close>, \<open>strconv.FormatInt(n, 10)\<close> and the verb \<open>%d\<close>.\<close>

definition Itoa :: "int \<Rightarrow> string" where
  "Itoa n = (if n < 0 then CHR ''-'' # nat_str (nat (- n)) else nat_str (nat n))"

datatype num_error = ErrSyntax | ErrRange

text \<open>The digit loop of \<open>strconv.ParseUint(s, 10, 64)\<close>: the first bad byte or overflow ends it.\<close>

fun parse_digits :: "nat \<Rightarrow> string \<Rightarrow> num_error + nat" where
  "parse_digits n [] = Inr n"
| "parse_digits n (c # cs) =
     (if \<not> is_digit c then Inl ErrSyntax
      else if 2 ^ 64 \<le> n * 10 + digit_val c then Inl ErrRange
      else parse_digits (n * 10 + digit_val c) cs)"

text \<open>
  \<open>strconv.ParseInt(s, 10, 64)\<close>, which is \<open>strconv.Atoi\<close> where \<open>int\<close> has 64 bits: the value, which a
  caller that drops the error still uses (0 on a syntax error, the nearest bound on overflow), and
  the error.
\<close>

definition ParseInt :: "string \<Rightarrow> int \<times> num_error option" where
  "ParseInt s =
     (let neg = (s \<noteq> [] \<and> hd s = CHR ''-'');
          body = (if s \<noteq> [] \<and> (hd s = CHR ''-'' \<or> hd s = CHR ''+'') then tl s else s)
      in if body = [] then (0, Some ErrSyntax)
         else (case parse_digits 0 body of
                 Inl ErrSyntax \<Rightarrow> (0, Some ErrSyntax)
               | Inl ErrRange \<Rightarrow> (if neg then (- (2 ^ 63), Some ErrRange) else (2 ^ 63 - 1, Some ErrRange))
               | Inr u \<Rightarrow>
                   if \<not> neg \<and> 2 ^ 63 \<le> u then (2 ^ 63 - 1, Some ErrRange)
                   else if neg \<and> 2 ^ 63 < u then (- (2 ^ 63), Some ErrRange)
                   else ((if neg then - int u else int u), None)))"

lemma digit_props:
  assumes "d < 10"
  shows "is_digit (digit d)" "digit_val (digit d) = d"
  using assms by (simp_all add: is_digit_def digit_def digit_val_def)

lemma nat_str_not_Nil [simp]: "nat_str n \<noteq> []"
  by (subst nat_str.simps) simp

lemma nat_str_digits: "c \<in> set (nat_str n) \<Longrightarrow> is_digit c"
proof (induction n rule: nat_str.induct)
  case (1 n)
  then show ?case
    by (subst (asm) nat_str.simps) (auto split: if_splits simp: digit_props)
qed

lemma parse_digits_append:
  "parse_digits n (a @ b) = (case parse_digits n a of Inl e \<Rightarrow> Inl e | Inr m \<Rightarrow> parse_digits m b)"
  by (induction a arbitrary: n) auto

lemma parse_digits_nat_str: "n < 2 ^ 64 \<Longrightarrow> parse_digits 0 (nat_str n) = Inr n"
proof (induction n rule: nat_str.induct)
  case (1 n)
  show ?case
  proof (cases "n < 10")
    case True
    then show ?thesis using 1 by (subst nat_str.simps) (simp add: digit_props)
  next
    case False
    have "n div 10 * 10 + n mod 10 = n" by simp
    moreover have "parse_digits 0 (nat_str (n div 10)) = Inr (n div 10)"
      using 1 False by simp
    ultimately show ?thesis
      using False 1 by (subst nat_str.simps) (simp add: parse_digits_append digit_props)
  qed
qed

text \<open>Reading back a printed number gives the number, over the whole range of \<open>int64\<close>.\<close>

lemma ParseInt_Itoa:
  assumes "- (2 ^ 63) \<le> n" "n < 2 ^ 63"
  shows "ParseInt (Itoa n) = (n, None)"
proof (cases "n < 0")
  case True
  have le: "nat (- n) \<le> 2 ^ 63" using assms by simp
  then have "nat (- n) < 2 ^ 64" by (rule le_less_trans) simp
  then have "parse_digits 0 (nat_str (nat (- n))) = Inr (nat (- n))"
    by (rule parse_digits_nat_str)
  moreover have "\<not> 2 ^ 63 < nat (- n)" using le by simp
  ultimately show ?thesis using True by (simp add: Itoa_def ParseInt_def)
next
  case False
  have lt: "nat n < 2 ^ 63" using assms False by simp
  then have "nat n < 2 ^ 64" by (rule less_trans) simp
  then have p: "parse_digits 0 (nat_str (nat n)) = Inr (nat n)"
    by (rule parse_digits_nat_str)
  have "is_digit (hd (nat_str (nat n)))" by (rule nat_str_digits [of _ "nat n"]) simp
  then have h: "hd (nat_str (nat n)) \<noteq> CHR ''-''" "hd (nat_str (nat n)) \<noteq> CHR ''+''"
    by (auto simp: is_digit_def)
  have "\<not> 2 ^ 63 \<le> nat n" using lt by simp
  with False p h show ?thesis by (simp add: Itoa_def ParseInt_def)
qed

text \<open>What \<open>ParseInt\<close> returns always fits in an \<open>int64\<close>.\<close>

lemma ParseInt_bounds: "- (2 ^ 63) \<le> fst (ParseInt s) \<and> fst (ParseInt s) < 2 ^ 63"
  by (auto simp: ParseInt_def Let_def split: sum.splits num_error.splits)

lemma Itoa_not_Nil [simp]: "Itoa n \<noteq> []"
  by (simp add: Itoa_def)

end
