(* ===== verification/Go_Json.thy ===== *)
theory Go_Json
  imports Go_Prelude "HOL-Library.Char_ord" "HOL-Library.List_Lexorder"
begin

text \<open>
  The JSON codec of package \<open>encoding/json\<close>, as the agent uses it: the encoder of strings, maps and
  structs (\<open>json.Marshal\<close>, with HTML escaping), and the decoder (\<open>json.Unmarshal\<close>) as a lexer and a
  machine with a stack of open arrays and objects, the way the library's scanner keeps its parse
  state. The main lemma is the round trip \<open>json_parse (json_print v) = Some v\<close>.
\<close>

section \<open>UTF-8\<close>

abbreviation byte :: "char \<Rightarrow> nat" where
  "byte c \<equiv> of_char c"

definition cont :: "nat \<Rightarrow> nat \<Rightarrow> char \<Rightarrow> bool" where
  "cont lo hi c \<longleftrightarrow> lo \<le> byte c \<and> byte c \<le> hi"

text \<open>The well-formed UTF-8 encodings of one code point (surrogates and overlong forms excluded).\<close>

definition utf8_form :: "string \<Rightarrow> bool" where
  "utf8_form u =
     (case u of
        [a] \<Rightarrow> byte a < 128
      | [a, b] \<Rightarrow> cont 194 223 a \<and> cont 128 191 b
      | [a, b, c] \<Rightarrow>
          cont 224 239 a \<and> cont (if byte a = 224 then 160 else 128) (if byte a = 237 then 159 else 191) b
          \<and> cont 128 191 c
      | [a, b, c, d] \<Rightarrow>
          cont 240 244 a \<and> cont (if byte a = 240 then 144 else 128) (if byte a = 244 then 143 else 191) b
          \<and> cont 128 191 c \<and> cont 128 191 d
      | _ \<Rightarrow> False)"

text \<open>
  The length of the well-formed sequence at the head of \<open>s\<close>, 0 where there is none
  (\<open>utf8.DecodeRune\<close> then consumes one byte).
\<close>

definition utf8_len :: "string \<Rightarrow> nat" where
  "utf8_len s =
     (if utf8_form (take 1 s) then 1 else if utf8_form (take 2 s) then 2
      else if utf8_form (take 3 s) then 3 else if utf8_form (take 4 s) then 4 else 0)"

lemma utf8_form_length: "utf8_form u \<Longrightarrow> 0 < length u \<and> length u \<le> 4"
  by (auto simp: utf8_form_def split: list.splits)

text \<open>No encoding is a proper prefix of another: the first byte gives the length.\<close>

definition utf8_lead :: "char \<Rightarrow> nat" where
  "utf8_lead a = (if byte a < 128 then 1 else if byte a < 224 then 2 else if byte a < 240 then 3 else 4)"

lemma utf8_form_lead: "utf8_form (a # s) \<Longrightarrow> length (a # s) = utf8_lead a"
  by (auto simp: utf8_form_def utf8_lead_def cont_def split: list.splits)

lemma utf8_form_take: "utf8_form (take k (a # s)) \<Longrightarrow> k \<noteq> utf8_lead a \<Longrightarrow> k \<le> length (a # s) \<Longrightarrow> False"
  by (cases k) (auto dest!: utf8_form_lead, auto simp: utf8_form_def)

lemma utf8_len_form:
  assumes "utf8_form u"
  shows "utf8_len (u @ t) = length u"
proof -
  obtain a v where u: "u = a # v" using assms by (cases u) (auto simp: utf8_form_def)
  have n: "length u = utf8_lead a" using assms u utf8_form_lead by blast
  have lt: "utf8_form (take k (u @ t)) \<Longrightarrow> k \<le> length u \<Longrightarrow> k = length u" for k
    using utf8_form_take [of k a "v @ t"] n u by auto
  have "utf8_form (take (length u) (u @ t))" using assms by simp
  moreover have "length u = 1 \<or> length u = 2 \<or> length u = 3 \<or> length u = 4"
    using utf8_form_length [OF assms] by linarith
  ultimately show ?thesis using lt [of 1] lt [of 2] lt [of 3] unfolding utf8_len_def by auto
qed

lemma utf8_len_pos:
  assumes "0 < utf8_len s"
  shows "utf8_form (take (utf8_len s) s)" "utf8_len s \<le> length s"
proof -
  show f: "utf8_form (take (utf8_len s) s)"
    using assms unfolding utf8_len_def by (auto split: if_splits)
  have "s = take (utf8_len s) s @ drop (utf8_len s) s" by simp
  then have "utf8_len s = length (take (utf8_len s) s)" using utf8_len_form [OF f] by metis
  then show "utf8_len s \<le> length s" by (metis length_take min.cobounded1)
qed

lemma utf8_len_ascii [simp]: "byte c < 128 \<Longrightarrow> utf8_len (c # s) = 1"
  by (simp add: utf8_len_def utf8_form_def)

text \<open>Well-formed text: a sequence of encodings.\<close>

function valid_utf8 :: "string \<Rightarrow> bool" where
  "valid_utf8 [] = True"
| "valid_utf8 (c # s) = (0 < utf8_len (c # s) \<and> valid_utf8 (drop (utf8_len (c # s) - 1) s))"
  by pat_completeness auto
termination
  by (relation "measure length") auto

lemma valid_utf8_split:
  assumes "valid_utf8 (c # s)"
  obtains u t where "c # s = u @ t" "utf8_form u" "valid_utf8 t" "length t < length (c # s)"
proof -
  let ?n = "utf8_len (c # s)"
  have pos: "0 < ?n" using assms by simp
  have "c # s = take ?n (c # s) @ drop ?n (c # s)" by simp
  moreover have "utf8_form (take ?n (c # s))" using utf8_len_pos pos by blast
  moreover have "valid_utf8 (drop ?n (c # s))" using assms pos by (cases ?n) auto
  moreover have "length (drop ?n (c # s)) < length (c # s)" using pos by simp
  ultimately show thesis by (rule that)
qed

lemma valid_utf8_induct [consumes 1, case_names Nil Rune]:
  assumes "valid_utf8 s"
    and "P []"
    and "\<And>u t. utf8_form u \<Longrightarrow> valid_utf8 t \<Longrightarrow> P t \<Longrightarrow> P (u @ t)"
  shows "P s"
  using assms(1)
proof (induction s rule: length_induct)
  case (1 s)
  show ?case
  proof (cases s)
    case Nil
    then show ?thesis using assms(2) by simp
  next
    case (Cons c s')
    with 1 obtain u t where "s = u @ t" "utf8_form u" "valid_utf8 t" "length t < length s"
      using valid_utf8_split by metis
    then show ?thesis using 1 assms(3) by blast
  qed
qed

lemma valid_utf8_ascii: "(\<And>c. c \<in> set s \<Longrightarrow> byte c < 128) \<Longrightarrow> valid_utf8 s"
  by (induction s) auto

text \<open>The encoding of a code point, as \<open>utf8.EncodeRune\<close> writes it.\<close>

definition utf8_enc :: "nat \<Rightarrow> string" where
  "utf8_enc r =
     (if r < 128 then [char_of r]
      else if r < 2048 then [char_of (192 + r div 64), char_of (128 + r mod 64)]
      else if r < 65536 then
        [char_of (224 + r div 4096), char_of (128 + r div 64 mod 64), char_of (128 + r mod 64)]
      else [char_of (240 + r div 262144), char_of (128 + r div 4096 mod 64),
            char_of (128 + r div 64 mod 64), char_of (128 + r mod 64)])"

definition replacement :: string where
  "replacement = [CHR 0xEF, CHR 0xBF, CHR 0xBD]"

text \<open>
  The runes of a text, as \<open>[]rune(s)\<close> or a \<open>range\<close> loop gives them, each as its encoding; a byte that starts no
  encoding gives U+FFFD.
\<close>

function runes :: "string \<Rightarrow> string list" where
  "runes [] = []"
| "runes (c # s) =
     (if utf8_len (c # s) = 0 then replacement # runes s
      else take (utf8_len (c # s)) (c # s) # runes (drop (utf8_len (c # s) - 1) s))"
  by pat_completeness auto
termination
  by (relation "measure length") auto

lemma runes_form: "utf8_form u \<Longrightarrow> runes (u @ r) = u # runes r"
proof -
  assume f: "utf8_form u"
  then obtain a x where u: "u = a # x" by (cases u) (auto simp: utf8_form_def)
  have n: "utf8_len (a # (x @ r)) = Suc (length x)" using utf8_len_form [OF f, of r] u by simp
  then show "runes (u @ r) = u # runes r" by (simp add: u)
qed

lemma runes_append: "valid_utf8 s \<Longrightarrow> runes (s @ t) = runes s @ runes t"
  by (induction s rule: valid_utf8_induct) (auto simp: runes_form)

lemma runes_concat: "valid_utf8 s \<Longrightarrow> concat (runes s) = s"
  by (induction s rule: valid_utf8_induct) (auto simp: runes_form)

lemma runes_length: "length (runes s) \<le> length s"
  by (induction s rule: runes.induct) auto

lemma runes_ascii: "list_all (\<lambda>c. byte c < 128) s \<Longrightarrow> runes s = map (\<lambda>c. [c]) s"
  by (induction s) auto

lemma runes_length_eq: "valid_utf8 s \<Longrightarrow> length (runes s) = length s \<Longrightarrow> list_all (\<lambda>c. byte c < 128) s"
proof (induction s rule: valid_utf8_induct)
  case (Rune u t)
  have "length (runes t) \<le> length t" by (rule runes_length)
  moreover have "1 + length (runes t) = length u + length t" using Rune by (simp add: runes_form)
  moreover have "0 < length u" using utf8_form_length [OF Rune(1)] by blast
  ultimately have l: "length u = 1" "length (runes t) = length t" by linarith+
  then obtain c where "u = [c]" by (auto simp: length_Suc_conv)
  with Rune l show ?case by (auto simp: utf8_form_def)
qed simp

section \<open>Strings\<close>

definition hex_digit :: "nat \<Rightarrow> char" where
  "hex_digit n = (if n < 10 then char_of (48 + n) else char_of (87 + n))"

definition hex_val :: "char \<Rightarrow> nat option" where
  "hex_val c =
     (let x = byte c in
      if 48 \<le> x \<and> x \<le> 57 then Some (x - 48)
      else if 97 \<le> x \<and> x \<le> 102 then Some (x - 87)
      else if 65 \<le> x \<and> x \<le> 70 then Some (x - 55)
      else None)"

definition is_hex :: "char \<Rightarrow> bool" where
  "is_hex c \<longleftrightarrow> hex_val c \<noteq> None"

definition hex4 :: "string \<Rightarrow> nat" where
  "hex4 s = foldl (\<lambda>n c. n * 16 + (case hex_val c of None \<Rightarrow> 0 | Some d \<Rightarrow> d)) 0 (take 4 s)"

text \<open>The bytes \<open>htmlSafeSet\<close> lets through unescaped.\<close>

definition html_safe :: "char \<Rightarrow> bool" where
  "html_safe c \<longleftrightarrow> 32 \<le> byte c \<and> byte c < 128 \<and>
     c \<notin> {CHR 0x22, CHR 0x5C, CHR ''<'', CHR ''>'', CHR ''&''}"

definition esc_ascii :: "char \<Rightarrow> string" where
  "esc_ascii c =
     (if html_safe c then [c]
      else if c = CHR 0x22 \<or> c = CHR 0x5C then [CHR 0x5C, c]
      else if c = CHR 0x08 then [CHR 0x5C, CHR ''b'']
      else if c = CHR 0x0C then [CHR 0x5C, CHR ''f'']
      else if c = CHR 0x0A then [CHR 0x5C, CHR ''n'']
      else if c = CHR 0x0D then [CHR 0x5C, CHR ''r'']
      else if c = CHR 0x09 then [CHR 0x5C, CHR ''t'']
      else [CHR 0x5C, CHR ''u'', CHR ''0'', CHR ''0'',
            hex_digit (byte c div 16), hex_digit (byte c mod 16)])"

text \<open>\<open>appendString\<close> without the surrounding quotes.\<close>

function esc_body :: "string \<Rightarrow> string" where
  "esc_body [] = []"
| "esc_body (c # s) =
     (if byte c < 128 then esc_ascii c @ esc_body s
      else if utf8_len (c # s) = 0 then [CHR 0x5C, CHR ''u'', CHR ''f'', CHR ''f'', CHR ''f'', CHR ''d''] @ esc_body s
      else if take 3 (c # s) = [CHR 0xE2, CHR 0x80, CHR 0xA8]
        then [CHR 0x5C, CHR ''u'', CHR ''2'', CHR ''0'', CHR ''2'', CHR ''8''] @ esc_body (drop 2 s)
      else if take 3 (c # s) = [CHR 0xE2, CHR 0x80, CHR 0xA9]
        then [CHR 0x5C, CHR ''u'', CHR ''2'', CHR ''0'', CHR ''2'', CHR ''9''] @ esc_body (drop 2 s)
      else take (utf8_len (c # s)) (c # s) @ esc_body (drop (utf8_len (c # s) - 1) s))"
  by pat_completeness auto
termination
  by (relation "measure length") auto

definition json_string :: "string \<Rightarrow> string" where
  "json_string s = CHR 0x22 # esc_body s @ [CHR 0x22]"

text \<open>
  The scanner's reading of a string literal after its opening quote: the raw text up to the closing
  quote and what follows it.
\<close>

fun scan_string :: "string \<Rightarrow> (string \<times> string) option" where
  "scan_string [] = None"
| "scan_string (c # cs) =
     (if c = CHR 0x22 then Some ([], cs)
      else if c = CHR 0x5C then
        (case cs of
           [] \<Rightarrow> None
         | e # es \<Rightarrow>
             if e \<in> {CHR 0x22, CHR 0x5C, CHR ''/'', CHR ''b'', CHR ''f'', CHR ''n'', CHR ''r'', CHR ''t''}
             then map_option (\<lambda>(b, r). (c # e # b, r)) (scan_string es)
             else if e = CHR ''u'' \<and> 4 \<le> length es \<and> list_all is_hex (take 4 es)
             then map_option (\<lambda>(b, r). (c # e # take 4 es @ b, r)) (scan_string (drop 4 es))
             else None)
      else if byte c < 32 then None
      else map_option (\<lambda>(b, r). (c # b, r)) (scan_string cs))"

definition unesc :: "char \<Rightarrow> char" where
  "unesc e =
     (if e = CHR ''b'' then CHR 0x08 else if e = CHR ''f'' then CHR 0x0C
      else if e = CHR ''n'' then CHR 0x0A else if e = CHR ''r'' then CHR 0x0D
      else if e = CHR ''t'' then CHR 0x09 else e)"

text \<open>\<open>unquote\<close> on a raw literal the scanner has accepted.\<close>

function unquote :: "string \<Rightarrow> string" where
  "unquote [] = []"
| "unquote (c # s) =
     (if c = CHR 0x5C then
        (case s of
           [] \<Rightarrow> []
         | e # es \<Rightarrow>
             if e = CHR ''u'' then
               (let r = hex4 es; rest = drop 4 es in
                if 55296 \<le> r \<and> r < 57344 then
                  (if r < 56320 \<and> take 2 rest = [CHR 0x5C, CHR ''u''] \<and>
                      56320 \<le> hex4 (drop 2 rest) \<and> hex4 (drop 2 rest) < 57344
                   then utf8_enc ((r - 55296) * 1024 + (hex4 (drop 2 rest) - 56320) + 65536)
                        @ unquote (drop 6 rest)
                   else replacement @ unquote rest)
                else utf8_enc r @ unquote rest)
             else unesc e # unquote es)
      else if utf8_len (c # s) = 0 then replacement @ unquote s
      else take (utf8_len (c # s)) (c # s) @ unquote (drop (utf8_len (c # s) - 1) s))"
  by pat_completeness auto
termination
  by (relation "measure length") auto

declare esc_body.simps(2) [simp del] unquote.simps(2) [simp del] valid_utf8.simps(2) [simp del]

lemma scan_string_shorter: "scan_string s = Some (b, r) \<Longrightarrow> length r < length s"
proof (induction s arbitrary: b r rule: scan_string.induct)
  case (2 c cs)
  then show ?case by (fastforce split: if_splits list.splits)
qed simp

text \<open>What the encoder writes for one code point.\<close>

definition esc_rune :: "string \<Rightarrow> string" where
  "esc_rune u =
     (if length u = 1 then esc_ascii (hd u)
      else if u = [CHR 0xE2, CHR 0x80, CHR 0xA8]
        then [CHR 0x5C, CHR ''u'', CHR ''2'', CHR ''0'', CHR ''2'', CHR ''8'']
      else if u = [CHR 0xE2, CHR 0x80, CHR 0xA9]
        then [CHR 0x5C, CHR ''u'', CHR ''2'', CHR ''0'', CHR ''2'', CHR ''9'']
      else u)"

lemma utf8_form_cases:
  assumes "utf8_form u"
  obtains (ascii) c where "u = [c]" "byte c < 128"
  | (high) c v where "u = c # v" "v \<noteq> []" "\<forall>x \<in> set u. 128 \<le> byte x"
  using assms by (auto simp: utf8_form_def cont_def split: list.splits if_splits)

lemma esc_body_form:
  assumes "utf8_form u"
  shows "esc_body (u @ t) = esc_rune u @ esc_body t"
  using assms
proof (cases rule: utf8_form_cases)
  case (ascii c)
  then show ?thesis by (simp add: esc_body.simps(2) esc_rune_def)
next
  case (high c v)
  have len: "utf8_len (u @ t) = length u" using assms by (rule utf8_len_form)
  have lead: "length u = utf8_lead c" using assms utf8_form_lead high by blast
  have t3: "take 3 (u @ t) = [CHR 0xE2, a, b] \<Longrightarrow> u = [CHR 0xE2, a, b]" for a b
  proof -
    assume eq: "take 3 (u @ t) = [CHR 0xE2, a, b]"
    then have "c = CHR 0xE2" using high by (cases v) auto
    then have "length u = 3" using lead by (simp add: utf8_lead_def)
    with eq show ?thesis by simp
  qed
  have c: "\<not> byte c < 128" using high by auto
  show ?thesis
    using high len c t3 [of "CHR 0x80" "CHR 0xA8"] t3 [of "CHR 0x80" "CHR 0xA9"]
    by (auto simp: esc_body.simps(2) esc_rune_def)
qed

lemma scan_high:
  "(\<forall>c \<in> set u. 128 \<le> byte c) \<Longrightarrow>
     scan_string (u @ r) = map_option (\<lambda>(b, r). (u @ b, r)) (scan_string r)"
proof (induction u)
  case (Cons c u)
  then have "c \<noteq> CHR 0x22" "c \<noteq> CHR 0x5C" "\<not> byte c < 32" by auto
  with Cons show ?case by (cases "scan_string r") auto
qed (cases "scan_string r", auto)

lemma is_hex_digit: "n < 16 \<Longrightarrow> is_hex (hex_digit n) \<and> hex_val (hex_digit n) = Some n"
  by (auto simp: is_hex_def hex_val_def hex_digit_def)

lemma scan_esc_ascii:
  assumes "byte c < 128"
  shows "scan_string (esc_ascii c @ r) = map_option (\<lambda>(b, r). (esc_ascii c @ b, r)) (scan_string r)"
proof (cases "html_safe c")
  case True
  then have "c \<noteq> CHR 0x22" "c \<noteq> CHR 0x5C" "\<not> byte c < 32" by (auto simp: html_safe_def)
  then show ?thesis using True by (simp add: esc_ascii_def)
next
  case False
  have "byte c div 16 < 16" "byte c mod 16 < 16" using assms by auto
  then have "is_hex (hex_digit (byte c div 16))" "is_hex (hex_digit (byte c mod 16))"
    using is_hex_digit by blast+
  moreover have "is_hex (CHR ''0'')" by (simp add: is_hex_def hex_val_def)
  ultimately show ?thesis using False by (auto simp: esc_ascii_def)
qed

lemma scan_esc_rune:
  assumes "utf8_form u"
  shows "scan_string (esc_rune u @ r) = map_option (\<lambda>(b, r). (esc_rune u @ b, r)) (scan_string r)"
  using assms
proof (cases rule: utf8_form_cases)
  case (ascii c)
  then show ?thesis by (simp add: esc_rune_def scan_esc_ascii)
next
  case (high c v)
  have "list_all is_hex [CHR ''2'', CHR ''0'', CHR ''2'', d]" if "d \<in> {CHR ''8'', CHR ''9''}" for d
    using that by (auto simp: is_hex_def hex_val_def)
  then have hex: "list_all is_hex [CHR ''2'', CHR ''0'', CHR ''2'', CHR ''8'']"
    "list_all is_hex [CHR ''2'', CHR ''0'', CHR ''2'', CHR ''9'']" by auto
  have "length u \<noteq> 1" using high by auto
  then show ?thesis
    unfolding esc_rune_def using hex high(3) scan_high [of u r] by simp
qed

lemma text_induct [case_names Nil Rune Bad]:
  assumes "P []"
    and "\<And>u t. utf8_form u \<Longrightarrow> P t \<Longrightarrow> P (u @ t)"
    and "\<And>c s. 128 \<le> byte c \<Longrightarrow> utf8_len (c # s) = 0 \<Longrightarrow> P s \<Longrightarrow> P (c # s)"
  shows "P s"
proof (induction s rule: runes.induct)
  case (2 c s)
  show ?case
  proof (cases "utf8_len (c # s) = 0")
    case True
    then have "128 \<le> byte c" using utf8_len_ascii [of c s] by (metis not_less zero_neq_one)
    then show ?thesis using assms(3) True 2(1) by blast
  next
    case False
    let ?n = "utf8_len (c # s)"
    have "c # s = take ?n (c # s) @ drop (?n - 1) s" using False by (cases ?n) auto
    moreover have "utf8_form (take ?n (c # s))" using utf8_len_pos False by blast
    ultimately show ?thesis using assms(2) 2(2) False by metis
  qed
qed (rule assms(1))

lemma scan_esc_body: "scan_string (esc_body s @ CHR 0x22 # r) = Some (esc_body s, r)"
proof (induction s rule: text_induct)
  case (Rune u t)
  then show ?case by (simp add: esc_body_form scan_esc_rune)
next
  case (Bad c s)
  then show ?case by (simp add: esc_body.simps(2) is_hex_def hex_val_def)
qed simp

lemma char_of_byte [simp]: "char_of (byte c) = c"
  by simp

lemma unquote_esc_ascii:
  assumes "byte c < 128"
  shows "unquote (esc_ascii c @ r) = c # unquote r"
proof (cases "html_safe c \<or> c \<in> {CHR 0x22, CHR 0x5C, CHR 0x08, CHR 0x0C, CHR 0x0A, CHR 0x0D, CHR 0x09}")
  case True
  then show ?thesis
    using assms by (auto simp: esc_ascii_def html_safe_def unquote.simps(2) unesc_def)
next
  case False
  have n: "byte c div 16 < 16" "byte c mod 16 < 16" using assms by auto
  have "hex4 ([CHR ''0'', CHR ''0'', hex_digit (byte c div 16), hex_digit (byte c mod 16)] @ r) =
      byte c div 16 * 16 + byte c mod 16"
    using is_hex_digit [OF n(1)] is_hex_digit [OF n(2)] by (simp add: hex4_def hex_val_def)
  also have "\<dots> = byte c" by simp
  finally have "hex4 ([CHR ''0'', CHR ''0'', hex_digit (byte c div 16), hex_digit (byte c mod 16)] @ r) = byte c" .
  then show ?thesis
    using False assms by (auto simp: esc_ascii_def unquote.simps(2) utf8_enc_def)
qed

lemma utf8_enc_separators:
  "utf8_enc 8232 = [CHR 0xE2, CHR 0x80, CHR 0xA8]" "utf8_enc 8233 = [CHR 0xE2, CHR 0x80, CHR 0xA9]"
  by (simp_all add: utf8_enc_def char_of_eq_iff)

lemma unquote_esc_rune:
  assumes "utf8_form u"
  shows "unquote (esc_rune u @ r) = u @ unquote r"
  using assms
proof (cases rule: utf8_form_cases)
  case (ascii c)
  then show ?thesis by (simp add: esc_rune_def unquote_esc_ascii)
next
  case (high c v)
  have hex: "hex4 (CHR ''2'' # CHR ''0'' # CHR ''2'' # CHR ''8'' # r) = 8232"
    "hex4 (CHR ''2'' # CHR ''0'' # CHR ''2'' # CHR ''9'' # r) = 8233"
    by (simp_all add: hex4_def hex_val_def)
  have "utf8_len (u @ r) = length u" using assms by (rule utf8_len_form)
  moreover have "c \<noteq> CHR 0x5C" "length u \<noteq> 1" using high by auto
  ultimately show ?thesis
    using high hex unfolding esc_rune_def
    by (auto simp: unquote.simps(2) utf8_enc_separators)
qed

text \<open>
  The decoder undoes the encoder up to bytes that are no text: each of them comes back as U+FFFD.
\<close>

definition clean_text :: "string \<Rightarrow> string" where
  "clean_text s = concat (runes s)"

lemma clean_text_valid [simp]: "valid_utf8 s \<Longrightarrow> clean_text s = s"
  by (simp add: clean_text_def runes_concat)

lemma unquote_esc_body: "unquote (esc_body s) = clean_text s"
proof (induction s rule: text_induct)
  case (Rune u t)
  then show ?case by (simp add: esc_body_form unquote_esc_rune clean_text_def runes_form)
next
  case (Bad c s)
  have h: "hex4 (CHR ''f'' # CHR ''f'' # CHR ''f'' # CHR ''d'' # esc_body s) = 65533" by (simp add: hex4_def hex_val_def)
  have "utf8_enc 65533 = replacement" by (simp add: utf8_enc_def replacement_def char_of_eq_iff)
  with Bad h show ?case by (simp add: esc_body.simps(2) unquote.simps(2) clean_text_def)
qed (simp add: clean_text_def)

section \<open>Values, printing and tokens\<close>

text \<open>
  A decoded value. A number keeps its literal; an object keeps its members in the order of the text,
  and the last of two members with one key counts.
\<close>

datatype json =
    JNull
  | JBool bool
  | JNum string
  | JStr string
  | JArr "json list"
  | JObj "(string \<times> json) list"

datatype token =
    TLBrace | TRBrace | TLBrack | TRBrack | TColon | TComma
  | TStr string | TNum string | TTrue | TFalse | TNull

text \<open>\<open>json.Marshal\<close>, without white space, the members of an object in the order given.\<close>

fun json_print :: "json \<Rightarrow> string"
  and print_elems :: "json list \<Rightarrow> string"
  and print_members :: "(string \<times> json) list \<Rightarrow> string" where
  "json_print JNull = ''null''"
| "json_print (JBool b) = (if b then ''true'' else ''false'')"
| "json_print (JNum l) = l"
| "json_print (JStr s) = json_string s"
| "json_print (JArr vs) = ''['' @ print_elems vs @ '']''"
| "json_print (JObj kvs) = ''{'' @ print_members kvs @ ''}''"
| "print_elems [] = []"
| "print_elems [v] = json_print v"
| "print_elems (v # w # vs) = json_print v @ '','' @ print_elems (w # vs)"
| "print_members [] = []"
| "print_members [(k, v)] = json_string k @ '':'' @ json_print v"
| "print_members ((k, v) # kw # kvs) = json_string k @ '':'' @ json_print v @ '','' @ print_members (kw # kvs)"

definition lex_frac :: "string \<Rightarrow> string option" where
  "lex_frac s =
     (if s \<noteq> [] \<and> hd s = CHR ''.'' then
        (let ds = takeWhile is_digit (tl s) in if ds = [] then None else Some (CHR ''.'' # ds))
      else Some [])"

definition lex_exp :: "string \<Rightarrow> string option" where
  "lex_exp s =
     (if s \<noteq> [] \<and> (hd s = CHR ''e'' \<or> hd s = CHR ''E'') then
        (let t = tl s;
             sg = (if t \<noteq> [] \<and> (hd t = CHR ''+'' \<or> hd t = CHR ''-'') then [hd t] else []);
             ds = takeWhile is_digit (drop (length sg) t)
         in if ds = [] then None else Some (hd s # sg @ ds))
      else Some [])"

text \<open>The number literal at the head of \<open>s\<close>.\<close>

definition lex_number :: "string \<Rightarrow> string option" where
  "lex_number s =
     (let sg = (if s \<noteq> [] \<and> hd s = CHR ''-'' then ''-'' else []);
          t = drop (length sg) s;
          ip = (if t \<noteq> [] \<and> hd t = CHR ''0'' then ''0'' else takeWhile is_digit t)
      in if ip = [] then None
         else do {
           fp \<leftarrow> lex_frac (drop (length ip) t);
           ep \<leftarrow> lex_exp (drop (length ip + length fp) t);
           Some (sg @ ip @ fp @ ep)
         })"

function tokenize :: "string \<Rightarrow> token list option" where
  "tokenize [] = Some []"
| "tokenize (c # cs) =
     (if c \<in> {CHR 0x20, CHR 0x09, CHR 0x0A, CHR 0x0D} then tokenize cs
      else if c = CHR ''{'' then map_option ((#) TLBrace) (tokenize cs)
      else if c = CHR ''}'' then map_option ((#) TRBrace) (tokenize cs)
      else if c = CHR ''['' then map_option ((#) TLBrack) (tokenize cs)
      else if c = CHR '']'' then map_option ((#) TRBrack) (tokenize cs)
      else if c = CHR '':'' then map_option ((#) TColon) (tokenize cs)
      else if c = CHR '','' then map_option ((#) TComma) (tokenize cs)
      else if c = CHR ''t'' then
        (if prefix ''rue'' cs then map_option ((#) TTrue) (tokenize (drop 3 cs)) else None)
      else if c = CHR ''f'' then
        (if prefix ''alse'' cs then map_option ((#) TFalse) (tokenize (drop 4 cs)) else None)
      else if c = CHR ''n'' then
        (if prefix ''ull'' cs then map_option ((#) TNull) (tokenize (drop 3 cs)) else None)
      else if c = CHR 0x22 then
        (case scan_string cs of
           None \<Rightarrow> None
         | Some (raw, r) \<Rightarrow> map_option ((#) (TStr (unquote raw))) (tokenize r))
      else
        (case lex_number (c # cs) of
           None \<Rightarrow> None
         | Some l \<Rightarrow> map_option ((#) (TNum l)) (tokenize (drop (length l - 1) cs))))"
  by pat_completeness auto
termination
  by (relation "measure length") (auto dest: scan_string_shorter)

declare tokenize.simps(2) [simp del]

section \<open>The parser\<close>

text \<open>
  An open array with the elements read so far, or an open object with its members so far and the
  key of the member being read. The stack of open frames is the scanner's \<open>parseState\<close>, which the
  library bounds by \<open>maxNestingDepth\<close>.
\<close>

datatype frame = FArr "json list" | FObj "(string \<times> json) list" string

datatype expect = EValue | EElemOrEnd | EKeyOrEnd | EKey | EColon | ECommaOrEnd

datatype pstate = Run expect "frame list" | Done json

definition max_depth :: nat where
  "max_depth = 10000"

fun deliver :: "json \<Rightarrow> frame list \<Rightarrow> pstate" where
  "deliver v [] = Done v"
| "deliver v (FArr vs # st) = Run ECommaOrEnd (FArr (vs @ [v]) # st)"
| "deliver v (FObj kvs k # st) = Run ECommaOrEnd (FObj (kvs @ [(k, v)]) k # st)"

definition open_frame :: "expect \<Rightarrow> frame \<Rightarrow> frame list \<Rightarrow> pstate option" where
  "open_frame e f st = (if length st < max_depth then Some (Run e (f # st)) else None)"

fun start_value :: "token \<Rightarrow> frame list \<Rightarrow> pstate option" where
  "start_value TLBrace st = open_frame EKeyOrEnd (FObj [] []) st"
| "start_value TLBrack st = open_frame EElemOrEnd (FArr []) st"
| "start_value (TStr s) st = Some (deliver (JStr s) st)"
| "start_value (TNum l) st = Some (deliver (JNum l) st)"
| "start_value TTrue st = Some (deliver (JBool True) st)"
| "start_value TFalse st = Some (deliver (JBool False) st)"
| "start_value TNull st = Some (deliver JNull st)"
| "start_value _ st = None"

fun pstep :: "pstate \<Rightarrow> token \<Rightarrow> pstate option" where
  "pstep (Run EValue st) t = start_value t st"
| "pstep (Run EElemOrEnd (FArr vs # st)) TRBrack = Some (deliver (JArr vs) st)"
| "pstep (Run EElemOrEnd st) t = start_value t st"
| "pstep (Run EKeyOrEnd (FObj kvs k # st)) TRBrace = Some (deliver (JObj kvs) st)"
| "pstep (Run EKeyOrEnd (FObj kvs k # st)) (TStr s) = Some (Run EColon (FObj kvs s # st))"
| "pstep (Run EKey (FObj kvs k # st)) (TStr s) = Some (Run EColon (FObj kvs s # st))"
| "pstep (Run EColon st) TColon = Some (Run EValue st)"
| "pstep (Run ECommaOrEnd (FArr vs # st)) TComma = Some (Run EValue (FArr vs # st))"
| "pstep (Run ECommaOrEnd (FArr vs # st)) TRBrack = Some (deliver (JArr vs) st)"
| "pstep (Run ECommaOrEnd (FObj kvs k # st)) TComma = Some (Run EKey (FObj kvs k # st))"
| "pstep (Run ECommaOrEnd (FObj kvs k # st)) TRBrace = Some (deliver (JObj kvs) st)"
| "pstep _ _ = None"

fun prun :: "pstate \<Rightarrow> token list \<Rightarrow> pstate option" where
  "prun p [] = Some p"
| "prun p (t # ts) = (case pstep p t of None \<Rightarrow> None | Some q \<Rightarrow> prun q ts)"

definition json_parse :: "string \<Rightarrow> json option" where
  "json_parse s =
     (case tokenize s of
        None \<Rightarrow> None
      | Some ts \<Rightarrow> (case prun (Run EValue []) ts of Some (Done v) \<Rightarrow> Some v | _ \<Rightarrow> None))"

section \<open>The round trip\<close>

fun toks :: "json \<Rightarrow> token list"
  and toks_elems :: "json list \<Rightarrow> token list"
  and toks_members :: "(string \<times> json) list \<Rightarrow> token list" where
  "toks JNull = [TNull]"
| "toks (JBool b) = [if b then TTrue else TFalse]"
| "toks (JNum l) = [TNum l]"
| "toks (JStr s) = [TStr s]"
| "toks (JArr vs) = TLBrack # toks_elems vs @ [TRBrack]"
| "toks (JObj kvs) = TLBrace # toks_members kvs @ [TRBrace]"
| "toks_elems [] = []"
| "toks_elems [v] = toks v"
| "toks_elems (v # w # vs) = toks v @ TComma # toks_elems (w # vs)"
| "toks_members [] = []"
| "toks_members [(k, v)] = TStr k # TColon # toks v"
| "toks_members ((k, v) # kw # kvs) = TStr k # TColon # toks v @ TComma # toks_members (kw # kvs)"

text \<open>The values the agent encodes: well-formed text and integers.\<close>

fun wf_json :: "json \<Rightarrow> bool" where
  "wf_json (JNum l) = (\<exists>n. l = Itoa n)"
| "wf_json (JStr s) = valid_utf8 s"
| "wf_json (JArr vs) = (\<forall>v \<in> set vs. wf_json v)"
| "wf_json (JObj kvs) = (\<forall>(k, v) \<in> set kvs. valid_utf8 k \<and> wf_json v)"
| "wf_json _ = True"

text \<open>What a value is after a round trip, and the values that have one: all numbers integers.\<close>

fun json_clean :: "json \<Rightarrow> json" where
  "json_clean (JStr s) = JStr (clean_text s)"
| "json_clean (JArr vs) = JArr (map json_clean vs)"
| "json_clean (JObj kvs) = JObj (map (\<lambda>(k, v). (clean_text k, json_clean v)) kvs)"
| "json_clean v = v"

fun int_json :: "json \<Rightarrow> bool" where
  "int_json (JNum l) = (\<exists>n. l = Itoa n)"
| "int_json (JArr vs) = (\<forall>v \<in> set vs. int_json v)"
| "int_json (JObj kvs) = (\<forall>(k, v) \<in> set kvs. int_json v)"
| "int_json _ = True"

lemma wf_json_clean: "wf_json v \<Longrightarrow> int_json v \<and> json_clean v = v"
proof (induction v rule: wf_json.induct)
  case (3 vs)
  then show ?case by (auto intro: map_idI)
next
  case (4 kvs)
  then show ?case by (fastforce intro: map_idI)
qed auto

fun json_depth :: "json \<Rightarrow> nat" where
  "json_depth (JArr vs) = Suc (foldr max (map json_depth vs) 0)"
| "json_depth (JObj kvs) = Suc (foldr max (map (\<lambda>(k, v). json_depth v) kvs) 0)"
| "json_depth _ = 0"

lemma foldr_max_ge: "x \<in> set xs \<Longrightarrow> x \<le> foldr max xs (0::nat)"
  by (induction xs) auto

definition delim :: "string \<Rightarrow> bool" where
  "delim r \<longleftrightarrow> r = [] \<or> hd r \<in> {CHR '','', CHR '']'', CHR ''}''}"

lemma tokenize_string:
  "tokenize (json_string s @ r) = map_option ((#) (TStr (clean_text s))) (tokenize r)"
  by (simp add: json_string_def tokenize.simps(2) scan_esc_body unquote_esc_body)

lemma delim_not_digit: "delim r \<Longrightarrow> takeWhile is_digit r = []"
  by (cases r) (auto simp: delim_def is_digit_def)

lemma nat_str_lead_zero: "hd (nat_str n) = CHR ''0'' \<Longrightarrow> n = 0"
proof (induction n rule: nat_str.induct)
  case (1 n)
  show ?case
  proof (cases "n < 10")
    case True
    then have "digit n = CHR ''0''" using 1 by (simp add: nat_str.simps)
    then have "digit_val (digit n) = 0" by (simp add: digit_val_def)
    then show ?thesis using True by (simp add: digit_props)
  next
    case False
    then have "hd (nat_str (n div 10)) = CHR ''0''" using 1 by (simp add: nat_str.simps [of n])
    then have "n div 10 = 0" using 1 False by simp
    then show ?thesis using False by simp
  qed
qed

lemma nat_str_zero: "nat_str 0 = ''0''"
  by (simp add: nat_str.simps digit_def char_of_eq_iff)

lemma takeWhile_nat_str:
  assumes "delim r"
  shows "takeWhile is_digit (nat_str n @ r) = nat_str n"
proof -
  have "\<And>c. c \<in> set (nat_str n) \<Longrightarrow> is_digit c" by (rule nat_str_digits)
  then show ?thesis using delim_not_digit [OF assms] by (simp add: takeWhile_append)
qed

lemma lex_tail:
  assumes "delim r"
  shows "lex_frac r = Some []" "lex_exp r = Some []"
  using assms by (auto simp: delim_def lex_frac_def lex_exp_def)

lemma lex_number_nat_str:
  assumes "delim r" and "sg = (if b then ''-'' else [])"
  shows "lex_number (sg @ nat_str n @ r) = Some (sg @ nat_str n)"
proof -
  have "is_digit (hd (nat_str n))" by (rule nat_str_digits [of _ n]) simp
  then have h: "hd (nat_str n) \<noteq> CHR ''-''" by (auto simp: is_digit_def)
  note simps = assms(2) lex_tail [OF assms(1)] takeWhile_nat_str [OF assms(1)]
  show ?thesis
  proof (cases "n = 0")
    case True
    then show ?thesis by (simp add: lex_number_def Let_def simps nat_str_zero)
  next
    case False
    then have "hd (nat_str n) \<noteq> CHR ''0''" using nat_str_lead_zero by blast
    then show ?thesis using h by (cases b) (simp_all add: lex_number_def Let_def simps)
  qed
qed

lemma lex_number_Itoa: "delim r \<Longrightarrow> lex_number (Itoa n @ r) = Some (Itoa n)"
  using lex_number_nat_str [of r "''-''" True "nat (- n)"] lex_number_nat_str [of r "[]" False "nat n"]
  by (simp add: Itoa_def)

lemma Itoa_head: "\<exists>c cs. Itoa n = c # cs \<and> (c = CHR ''-'' \<or> is_digit c)"
proof -
  have "is_digit (hd (nat_str m))" for m by (rule nat_str_digits [of _ m]) simp
  then show ?thesis unfolding Itoa_def by (metis list.collapse nat_str_not_Nil)
qed

lemma tokenize_Itoa:
  assumes "delim r"
  shows "tokenize (Itoa n @ r) = map_option ((#) (TNum (Itoa n))) (tokenize r)"
proof -
  obtain c cs where c: "Itoa n = c # cs" and "c = CHR ''-'' \<or> is_digit c" using Itoa_head by blast
  then have "c \<notin> {CHR 0x20, CHR 0x09, CHR 0x0A, CHR 0x0D, CHR ''{'', CHR ''}'', CHR ''['', CHR '']'',
      CHR '':'', CHR '','', CHR ''t'', CHR ''f'', CHR ''n'', CHR 0x22}"
    by (auto simp: is_digit_def)
  then show ?thesis using lex_number_Itoa [OF assms, of n] c by (simp add: tokenize.simps(2))
qed

lemmas tokenize_punct =
  tokenize.simps(2) [of "CHR ''{''"] tokenize.simps(2) [of "CHR ''}''"]
  tokenize.simps(2) [of "CHR ''[''"] tokenize.simps(2) [of "CHR '']''"]
  tokenize.simps(2) [of "CHR '':''"] tokenize.simps(2) [of "CHR '',''"]
  tokenize.simps(2) [of "CHR ''t''"] tokenize.simps(2) [of "CHR ''f''"] tokenize.simps(2) [of "CHR ''n''"]

lemma delim_simps [simp]:
  "delim []" "delim (CHR '','' # r)" "delim (CHR '']'' # r)" "delim (CHR ''}'' # r)"
  by (simp_all add: delim_def)

lemma map_option_append [simp]:
  "map_option ((@) xs) (map_option ((#) y) z) = map_option ((@) (xs @ [y])) z"
  "map_option ((#) y) (map_option ((@) xs) z) = map_option ((@) (y # xs)) z"
  by (cases z; simp)+

lemma map_option_append_Nil [simp]: "map_option ((@) []) z = z"
  by (cases z) simp_all

lemma map_option_Cons_append: "map_option ((#) y) z = map_option ((@) [y]) z"
  by (cases z) simp_all

lemma map_option_append2 [simp]:
  "map_option ((@) xs) (map_option ((@) ys) z) = map_option ((@) (xs @ ys)) z"
  by (cases z) simp_all

lemma tokenize_print:
  "int_json v \<Longrightarrow> delim r \<Longrightarrow> tokenize (json_print v @ r) = map_option ((@) (toks (json_clean v))) (tokenize r)"
  "(\<forall>v \<in> set vs. int_json v) \<Longrightarrow> delim r \<Longrightarrow>
     tokenize (print_elems vs @ r) = map_option ((@) (toks_elems (map json_clean vs))) (tokenize r)"
  "(\<forall>(k, v) \<in> set kvs. int_json v) \<Longrightarrow> delim r \<Longrightarrow>
     tokenize (print_members kvs @ r) = map_option ((@) (toks_members (map (\<lambda>(k, v). (clean_text k, json_clean v)) kvs))) (tokenize r)"
proof (induction v and vs and kvs arbitrary: r and r and r
    rule: json_print_print_elems_print_members.induct)
  case (3 l)
  then show ?case by (auto simp: tokenize_Itoa map_option_Cons_append)
qed (auto simp: tokenize_punct tokenize_string map_option_Cons_append)

text \<open>Running the parser over the tokens of a value delivers the value to the frame below.\<close>

lemma open_frame_ok: "length st < max_depth \<Longrightarrow> open_frame e f st = Some (Run e (f # st))"
  by (simp add: open_frame_def)

definition accepts :: "expect \<Rightarrow> frame list \<Rightarrow> bool" where
  "accepts e st \<longleftrightarrow> e = EValue \<or> (e = EElemOrEnd \<and> (\<exists>vs st'. st = FArr vs # st'))"

lemma pstep_accepts:
  "accepts e st \<Longrightarrow> t \<noteq> TRBrack \<Longrightarrow> pstep (Run e st) t = start_value t st"
  by (cases t) (auto simp: accepts_def)

lemma prun_toks:
  "length st + json_depth v \<le> max_depth \<Longrightarrow> accepts e st \<Longrightarrow>
     prun (Run e st) (toks v @ ts) = prun (deliver v st) ts"
  "vs \<noteq> [] \<Longrightarrow> (\<forall>v \<in> set vs. Suc (length st) + json_depth v \<le> max_depth) \<Longrightarrow>
     e = EValue \<or> e = EElemOrEnd \<Longrightarrow>
     prun (Run e (FArr acc # st)) (toks_elems vs @ TRBrack # ts) = prun (deliver (JArr (acc @ vs)) st) ts"
  "kvs \<noteq> [] \<Longrightarrow> (\<forall>(k, v) \<in> set kvs. Suc (length st) + json_depth v \<le> max_depth) \<Longrightarrow>
     e = EKey \<or> e = EKeyOrEnd \<Longrightarrow>
     prun (Run e (FObj mem k0 # st)) (toks_members kvs @ TRBrace # ts) = prun (deliver (JObj (mem @ kvs)) st) ts"
proof (induction v and vs and kvs arbitrary: e st ts and e st acc ts and e st mem k0 ts
    rule: toks_toks_elems_toks_members.induct)
  case (5 vs)
  have "json_depth v \<le> foldr max (map json_depth vs) 0" if "v \<in> set vs" for v
    using that by (intro foldr_max_ge) simp
  then have "\<forall>v \<in> set vs. Suc (length st) + json_depth v \<le> max_depth"
    using "5.prems"(1) by fastforce
  with 5 show ?case
    by (cases "vs = []") (auto simp: pstep_accepts open_frame_ok)
next
  case (6 kvs)
  have "json_depth v \<le> foldr max (map (\<lambda>(k, v). json_depth v) kvs) 0" if "(k, v) \<in> set kvs" for k v
    using that by (intro foldr_max_ge) force
  then have "\<forall>(k, v) \<in> set kvs. Suc (length st) + json_depth v \<le> max_depth"
    using "6.prems"(1) by fastforce
  with 6 show ?case
    by (cases "kvs = []") (auto simp: pstep_accepts open_frame_ok)
qed (auto simp: pstep_accepts accepts_def)

text \<open>\<open>Unmarshal\<close> after \<open>Marshal\<close> gives the value back.\<close>

lemma json_depth_clean [simp]: "json_depth (json_clean v) = json_depth v"
proof (induction v rule: json_depth.induct)
  case (1 vs)
  then show ?case by (auto simp: o_def intro!: arg_cong [where f = "\<lambda>xs. foldr max xs 0"])
next
  case (2 kvs)
  then have "map (\<lambda>(k, v). json_depth v) (map (\<lambda>(k, v). (clean_text k, json_clean v)) kvs) = map (\<lambda>(k, v). json_depth v) kvs"
    by auto
  then show ?case by (simp only: json_clean.simps json_depth.simps)
qed auto

lemma json_parse_print_clean:
  assumes "int_json v" "json_depth v \<le> max_depth"
  shows "json_parse (json_print v) = Some (json_clean v)"
proof -
  have "tokenize (json_print v @ []) = Some (toks (json_clean v))"
    using tokenize_print(1) [OF assms(1), of "[]"] by simp
  moreover have "prun (Run EValue []) (toks (json_clean v) @ []) = Some (Done (json_clean v))"
    using prun_toks(1) [of "[]" "json_clean v" EValue "[]"] assms(2) by (simp add: accepts_def)
  ultimately show ?thesis by (simp add: json_parse_def)
qed

lemma json_parse_print:
  assumes "wf_json v" "json_depth v \<le> max_depth"
  shows "json_parse (json_print v) = Some v"
  using json_parse_print_clean [of v] wf_json_clean [OF assms(1)] assms(2) by simp

text \<open>
  The contract of an encoding: decoding gives back what was encoded, so two values with one
  encoding are equal.
\<close>

locale codec =
  fixes enc :: "'a \<Rightarrow> string" and dec :: "string \<Rightarrow> 'a option" and encodable :: "'a \<Rightarrow> bool"
  assumes dec_enc: "encodable a \<Longrightarrow> dec (enc a) = Some a"
begin

lemma enc_inject: "encodable a \<Longrightarrow> encodable b \<Longrightarrow> enc a = enc b \<longleftrightarrow> a = b"
  using dec_enc by (metis option.inject)

lemma dec_onto: "encodable a \<Longrightarrow> \<exists>s. dec s = Some a"
  using dec_enc by blast

end

interpretation json_codec: codec json_print json_parse "\<lambda>v. wf_json v \<and> json_depth v \<le> max_depth"
  by unfold_locales (simp add: json_parse_print)

section \<open>Decoding into Go values\<close>

text \<open>The last member with the key, as a map filled member by member holds it.\<close>

definition obj_get :: "(string \<times> json) list \<Rightarrow> string \<Rightarrow> json option" where
  "obj_get kvs k = map_of (rev kvs) k"

text \<open>The type assertion \<open>x.(string)\<close> on an optional member; \<open>x.(bool)\<close> and \<open>x.([]interface{})\<close> below.\<close>

fun as_string :: "json option \<Rightarrow> string option" where
  "as_string (Some (JStr s)) = Some s"
| "as_string _ = None"

fun as_bool :: "json option \<Rightarrow> bool option" where
  "as_bool (Some (JBool b)) = Some b"
| "as_bool _ = None"

fun as_array :: "json option \<Rightarrow> json list option" where
  "as_array (Some (JArr vs)) = Some vs"
| "as_array _ = None"

fun as_object :: "json option \<Rightarrow> (string \<times> json) list option" where
  "as_object (Some (JObj kvs)) = Some kvs"
| "as_object _ = None"

fun as_number :: "json option \<Rightarrow> string option" where
  "as_number (Some (JNum l)) = Some l"
| "as_number _ = None"

text \<open>
  A number in an \<open>interface{}\<close> is a \<open>float64\<close>. The absolute value of a literal is \<open>m * 10 ^ e\<close>; it
  overflows from the midpoint above the largest finite \<open>float64\<close>, which \<open>Unmarshal\<close> reports as an
  error, and it rounds to zero up to half the smallest positive one.
\<close>

definition lit_parts :: "string \<Rightarrow> nat \<times> int" where
  "lit_parts l =
     (let t = dropWhile (\<lambda>c. c = CHR ''-'') l;
          ip = takeWhile is_digit t;
          r = dropWhile is_digit t;
          fp = (if r \<noteq> [] \<and> hd r = CHR ''.'' then takeWhile is_digit (tl r) else []);
          r' = (if r \<noteq> [] \<and> hd r = CHR ''.'' then dropWhile is_digit (tl r) else r);
          ex = (if r' = [] then 0 else fst (ParseInt (tl r')))
      in (foldl (\<lambda>n c. n * 10 + digit_val c) 0 (ip @ fp), ex - int (length fp)))"

definition float_overflows :: "string \<Rightarrow> bool" where
  "float_overflows l =
     (let (m, e) = lit_parts l in
      if m = 0 then False
      else if 0 \<le> e then (2 ^ 1024 - 2 ^ 970 :: nat) \<le> m * 10 ^ nat e
      else (2 ^ 1024 - 2 ^ 970 :: nat) * 10 ^ nat (- e) \<le> m)"

definition float_is_zero :: "string \<Rightarrow> bool" where
  "float_is_zero l =
     (let (m, e) = lit_parts l in m = 0 \<or> (e < 0 \<and> m * 2 ^ 1075 \<le> 10 ^ nat (- e)))"

fun floats_ok :: "json \<Rightarrow> bool" where
  "floats_ok (JNum l) = (\<not> float_overflows l)"
| "floats_ok (JArr vs) = (\<forall>v \<in> set vs. floats_ok v)"
| "floats_ok (JObj kvs) = (\<forall>(k, v) \<in> set kvs. floats_ok v)"
| "floats_ok _ = True"

text \<open>\<open>json.Unmarshal\<close> into a nil \<open>map[string]interface{}\<close>: \<^const>\<open>None\<close> where it returns an error.\<close>

definition decode_map :: "string \<Rightarrow> (string \<times> json) list option" where
  "decode_map s =
     (case json_parse s of
        Some (JObj kvs) \<Rightarrow> (if floats_ok (JObj kvs) then Some kvs else None)
      | Some JNull \<Rightarrow> Some []
      | _ \<Rightarrow> None)"

text \<open>\<open>json.Marshal\<close> of a \<open>map[string]string\<close>: the members in the byte order of their keys.\<close>

definition json_of_map :: "gomap \<Rightarrow> json" where
  "json_of_map m =
     (case m of
        None \<Rightarrow> JNull
      | Some al \<Rightarrow> JObj (map (\<lambda>(k, v). (k, JStr v)) (sort_key fst al)))"

text \<open>
  Decoding a value into a \<open>map[string]string\<close> that already holds \<open>m\<close>: the map afterwards, and whether
  no error was saved. A member of the wrong type saves an error and leaves the empty string.
\<close>

definition put_member :: "gomap \<times> bool \<Rightarrow> string \<times> json \<Rightarrow> gomap \<times> bool" where
  "put_member st kv =
     (case (st, kv) of ((m, ok), (k, v)) \<Rightarrow>
        (Some (AList.update k (case v of JStr s \<Rightarrow> s | _ \<Rightarrow> []) (case m of None \<Rightarrow> [] | Some al \<Rightarrow> al)),
         ok \<and> (case v of JStr _ \<Rightarrow> True | JNull \<Rightarrow> True | _ \<Rightarrow> False)))"

definition decode_string_map :: "gomap \<Rightarrow> json \<Rightarrow> gomap \<times> bool" where
  "decode_string_map m v =
     (case v of
        JNull \<Rightarrow> (None, True)
      | JObj kvs \<Rightarrow> foldl put_member (Some (case m of None \<Rightarrow> [] | Some al \<Rightarrow> al), True) kvs
      | _ \<Rightarrow> (m, False))"

lemma foldl_put_member:
  "distinct (map fst (acc @ kvs)) \<Longrightarrow>
     foldl put_member (Some acc, True) (map (\<lambda>(k, v). (k, JStr v)) kvs) = (Some (acc @ kvs), True)"
proof (induction kvs arbitrary: acc)
  case (Cons kv kvs)
  obtain k v where kv: "kv = (k, v)" by (cases kv)
  have "AList.update k v acc = acc @ [(k, v)]"
    using Cons.prems kv by (induction acc) auto
  with Cons kv show ?case by (simp add: put_member_def)
qed simp

text \<open>A \<open>map[string]string\<close> survives encoding and decoding; only its order is that of the keys.\<close>

definition gosort :: "gomap \<Rightarrow> gomap" where
  "gosort m = map_option (sort_key fst) m"

lemma distinct_sort_key: "distinct (map fst al) \<Longrightarrow> distinct (map fst (sort_key fst al))"
  by (simp add: distinct_map)

lemma decode_json_of_map:
  "gomap_ok m \<Longrightarrow> decode_string_map None (json_of_map m) = (gosort m, True)"
  using foldl_put_member [of "[]"] distinct_sort_key
  by (auto simp: decode_string_map_def json_of_map_def gosort_def gomap_ok_def split: option.splits)

lemma map_of_sort_key: "distinct (map fst al) \<Longrightarrow> map_of (sort_key fst al) = map_of al"
  by (metis distinct_sort_key map_of_inject_set set_sort)

lemma gget_gosort [simp]: "gomap_ok m \<Longrightarrow> gget (gosort m) k = gget m k"
  by (cases m) (auto simp: gget_def gosort_def gomap_ok_def map_of_sort_key)

lemma gfind_gosort [simp]: "gomap_ok m \<Longrightarrow> gfind (gosort m) k = gfind m k"
  by (cases m) (auto simp: gfind_def gosort_def gomap_ok_def map_of_sort_key)

lemma gosort_ok [simp]: "gomap_ok m \<Longrightarrow> gomap_ok (gosort m)"
  by (cases m) (auto simp: gosort_def gomap_ok_def distinct_sort_key)

lemma json_of_map_gosort [simp]: "json_of_map (gosort m) = json_of_map m"
  by (cases m) (simp_all add: json_of_map_def gosort_def sort_key_id_if_sorted)

text \<open>The text a map may hold for its encoding to be decoded to the same map.\<close>

definition gomap_utf8 :: "gomap \<Rightarrow> bool" where
  "gomap_utf8 m = (case m of None \<Rightarrow> True | Some al \<Rightarrow> (\<forall>(k, v) \<in> set al. valid_utf8 k \<and> valid_utf8 v))"

lemma wf_json_of_map: "gomap_utf8 m \<Longrightarrow> wf_json (json_of_map m)"
  by (cases m) (auto simp: gomap_utf8_def json_of_map_def)

lemma json_depth_of_map: "json_depth (json_of_map m) \<le> 1"
proof (cases m)
  case (Some al)
  have "foldr max (map (\<lambda>(k, v). json_depth v) (map (\<lambda>(k, v). (k, JStr v)) xs)) 0 = 0"
    for xs :: "(string \<times> string) list"
    by (induction xs) auto
  with Some show ?thesis by (simp add: json_of_map_def)
qed (simp add: json_of_map_def)

lemma gomap_utf8_update:
  assumes "gomap_utf8 (Some al)" "valid_utf8 k" "valid_utf8 v"
  shows "gomap_utf8 (Some (AList.update k v al))"
  using assms by (induction al) (auto simp: gomap_utf8_def)

end
