(* ===== verification/Go_Crypto.thy ===== *)
theory Go_Crypto
  imports Go_Json "HOL-Library.Word"
begin

text \<open>
  The digests and encodings of the standard library that the agent signs and compares with:
  \<open>sha256.Sum256\<close>, \<open>md5.Sum\<close>, \<open>base64.StdEncoding\<close> and the verb \<open>%x\<close>, on 32-bit words with wrap-around
  addition. The lemmas give the lengths of their results.
\<close>

unbundle bit_operations_syntax

type_synonym u32 = "32 word"

section \<open>Bytes and words\<close>

definition u32_of_bytes :: "string \<Rightarrow> u32" where
  "u32_of_bytes bs = foldl (\<lambda>w c. push_bit 8 w OR word_of_nat (byte c)) 0 bs"

definition bytes_of_u32 :: "u32 \<Rightarrow> string" where
  "bytes_of_u32 w =
     [char_of (unat (drop_bit 24 w)), char_of (unat (drop_bit 16 w)),
      char_of (unat (drop_bit 8 w)), char_of (unat w)]"

fun chunks :: "nat \<Rightarrow> 'a list \<Rightarrow> 'a list list" where
  "chunks n [] = []"
| "chunks n (x # xs) = (if n = 0 then [] else take n (x # xs) # chunks n (drop n (x # xs)))"

text \<open>The message with its padding: a one bit, zeros, and the bit length in 64 bits.\<close>

definition length_bytes :: "nat \<Rightarrow> string" where
  "length_bytes n = map (\<lambda>i. char_of (8 * n div 256 ^ (7 - i))) [0..<8]"

definition pad :: "(string \<Rightarrow> string) \<Rightarrow> string \<Rightarrow> string" where
  "pad ord s =
     s @ [CHR 0x80] @ replicate ((119 - length s mod 64) mod 64) (CHR 0x00) @ ord (length_bytes (length s))"

section \<open>SHA-256\<close>

definition sha_k :: "u32 list" where
  "sha_k =
     [0x428A2F98, 0x71374491, 0xB5C0FBCF, 0xE9B5DBA5, 0x3956C25B, 0x59F111F1,
      0x923F82A4, 0xAB1C5ED5, 0xD807AA98, 0x12835B01, 0x243185BE, 0x550C7DC3,
      0x72BE5D74, 0x80DEB1FE, 0x9BDC06A7, 0xC19BF174, 0xE49B69C1, 0xEFBE4786,
      0x0FC19DC6, 0x240CA1CC, 0x2DE92C6F, 0x4A7484AA, 0x5CB0A9DC, 0x76F988DA,
      0x983E5152, 0xA831C66D, 0xB00327C8, 0xBF597FC7, 0xC6E00BF3, 0xD5A79147,
      0x06CA6351, 0x14292967, 0x27B70A85, 0x2E1B2138, 0x4D2C6DFC, 0x53380D13,
      0x650A7354, 0x766A0ABB, 0x81C2C92E, 0x92722C85, 0xA2BFE8A1, 0xA81A664B,
      0xC24B8B70, 0xC76C51A3, 0xD192E819, 0xD6990624, 0xF40E3585, 0x106AA070,
      0x19A4C116, 0x1E376C08, 0x2748774C, 0x34B0BCB5, 0x391C0CB3, 0x4ED8AA4A,
      0x5B9CCA4F, 0x682E6FF3, 0x748F82EE, 0x78A5636F, 0x84C87814, 0x8CC70208,
      0x90BEFFFA, 0xA4506CEB, 0xBEF9A3F7, 0xC67178F2]"

definition sha_h0 :: "u32 list" where
  "sha_h0 =
     [0x6A09E667, 0xBB67AE85, 0x3C6EF372, 0xA54FF53A, 0x510E527F, 0x9B05688C,
      0x1F83D9AB, 0x5BE0CD19]"

definition sha_next :: "u32 list \<Rightarrow> u32" where
  \<comment> \<open>the next word of the schedule, from the words so far in reverse order\<close>
  "sha_next ws =
     (let a = ws ! 14; b = ws ! 1 in
      ws ! 15 + (word_rotr 7 a XOR word_rotr 18 a XOR drop_bit 3 a) + ws ! 6
      + (word_rotr 17 b XOR word_rotr 19 b XOR drop_bit 10 b))"

fun sha_schedule :: "nat \<Rightarrow> u32 list \<Rightarrow> u32 list" where
  "sha_schedule 0 ws = rev ws"
| "sha_schedule (Suc n) ws = sha_schedule n (sha_next ws # ws)"

fun sha_round :: "u32 list \<Rightarrow> u32 \<times> u32 \<Rightarrow> u32 list" where
  "sha_round [a, b, c, d, e, f, g, h] (k, w) =
     (let t1 = h + (word_rotr 6 e XOR word_rotr 11 e XOR word_rotr 25 e)
               + ((e AND f) XOR (NOT e AND g)) + k + w;
          t2 = (word_rotr 2 a XOR word_rotr 13 a XOR word_rotr 22 a)
               + ((a AND b) XOR (a AND c) XOR (b AND c))
      in [t1 + t2, a, b, c, d + t1, e, f, g])"
| "sha_round st _ = st"

definition sha_block :: "u32 list \<Rightarrow> string \<Rightarrow> u32 list" where
  "sha_block h blk =
     map2 (+) h (foldl sha_round h
       (zip sha_k (sha_schedule 48 (rev (map u32_of_bytes (chunks 4 blk))))))"

definition sha256 :: "string \<Rightarrow> string" where
  "sha256 s = concat (map bytes_of_u32 (foldl sha_block sha_h0 (chunks 64 (pad id s))))"

section \<open>MD5\<close>

definition md5_k :: "u32 list" where
  "md5_k =
     [0xD76AA478, 0xE8C7B756, 0x242070DB, 0xC1BDCEEE, 0xF57C0FAF, 0x4787C62A,
      0xA8304613, 0xFD469501, 0x698098D8, 0x8B44F7AF, 0xFFFF5BB1, 0x895CD7BE,
      0x6B901122, 0xFD987193, 0xA679438E, 0x49B40821, 0xF61E2562, 0xC040B340,
      0x265E5A51, 0xE9B6C7AA, 0xD62F105D, 0x02441453, 0xD8A1E681, 0xE7D3FBC8,
      0x21E1CDE6, 0xC33707D6, 0xF4D50D87, 0x455A14ED, 0xA9E3E905, 0xFCEFA3F8,
      0x676F02D9, 0x8D2A4C8A, 0xFFFA3942, 0x8771F681, 0x6D9D6122, 0xFDE5380C,
      0xA4BEEA44, 0x4BDECFA9, 0xF6BB4B60, 0xBEBFBC70, 0x289B7EC6, 0xEAA127FA,
      0xD4EF3085, 0x04881D05, 0xD9D4D039, 0xE6DB99E5, 0x1FA27CF8, 0xC4AC5665,
      0xF4292244, 0x432AFF97, 0xAB9423A7, 0xFC93A039, 0x655B59C3, 0x8F0CCC92,
      0xFFEFF47D, 0x85845DD1, 0x6FA87E4F, 0xFE2CE6E0, 0xA3014314, 0x4E0811A1,
      0xF7537E82, 0xBD3AF235, 0x2AD7D2BB, 0xEB86D391]"

definition md5_shift :: "nat list" where
  "md5_shift = concat (map (\<lambda>xs. concat (replicate 4 xs))
     [[7, 12, 17, 22], [5, 9, 14, 20], [4, 11, 16, 23], [6, 10, 15, 21]])"

definition md5_index :: "nat \<Rightarrow> nat" where
  "md5_index i = (if i < 16 then i else if i < 32 then (5 * i + 1) mod 16
     else if i < 48 then (3 * i + 5) mod 16 else 7 * i mod 16)"

definition md5_mix :: "nat \<Rightarrow> u32 \<Rightarrow> u32 \<Rightarrow> u32 \<Rightarrow> u32" where
  "md5_mix i b c d = (if i < 16 then (b AND c) OR (NOT b AND d)
     else if i < 32 then (d AND b) OR (NOT d AND c)
     else if i < 48 then b XOR c XOR d else c XOR (b OR NOT d))"

fun md5_round :: "u32 list \<Rightarrow> u32 list \<Rightarrow> nat \<Rightarrow> u32 list" where
  "md5_round m [a, b, c, d] i =
     [d, b + word_rotl (md5_shift ! i) (a + md5_mix i b c d + md5_k ! i + m ! md5_index i), b, c]"
| "md5_round m st i = st"

definition md5_h0 :: "u32 list" where
  "md5_h0 = [0x67452301, 0xEFCDAB89, 0x98BADCFE, 0x10325476]"

definition md5_block :: "u32 list \<Rightarrow> string \<Rightarrow> u32 list" where
  "md5_block h blk =
     map2 (+) h (foldl (md5_round (map (\<lambda>bs. u32_of_bytes (rev bs)) (chunks 4 blk))) h [0..<64])"

definition md5 :: "string \<Rightarrow> string" where
  "md5 s = concat (map (\<lambda>w. rev (bytes_of_u32 w)) (foldl md5_block md5_h0 (chunks 64 (pad rev s))))"

section \<open>Hexadecimal and base 64\<close>

text \<open>The verb \<open>%x\<close> on a byte string.\<close>

definition hex :: "string \<Rightarrow> string" where
  "hex s = concat (map (\<lambda>c. [hex_digit (byte c div 16), hex_digit (byte c mod 16)]) s)"

definition b64_char :: "nat \<Rightarrow> char" where
  "b64_char n =
     (if n < 26 then char_of (65 + n) else if n < 52 then char_of (71 + n)
      else if n < 62 then char_of (n - 4) else if n = 62 then CHR ''+'' else CHR ''/'')"

text \<open>\<open>base64.StdEncoding.EncodeToString\<close>, with padding.\<close>

fun base64 :: "string \<Rightarrow> string" where
  "base64 [] = []"
| "base64 [a] =
     [b64_char (byte a div 4), b64_char (byte a mod 4 * 16), CHR ''='', CHR ''='']"
| "base64 [a, b] =
     [b64_char (byte a div 4), b64_char (byte a mod 4 * 16 + byte b div 16),
      b64_char (byte b mod 16 * 4), CHR ''='']"
| "base64 (a # b # c # s) =
     b64_char (byte a div 4) # b64_char (byte a mod 4 * 16 + byte b div 16)
     # b64_char (byte b mod 16 * 4 + byte c div 64) # b64_char (byte c mod 64) # base64 s"

section \<open>Lengths\<close>

lemma length_hex: "length (hex s) = 2 * length s"
  by (induction s) (simp_all add: hex_def)

lemma length_base64: "length (base64 s) = 4 * ((length s + 2) div 3)"
proof (induction s rule: base64.induct)
  case (4 a b c s)
  have "(length (a # b # c # s) + 2) div 3 = Suc ((length s + 2) div 3)" by simp
  then show ?case using 4 by simp
qed simp_all

lemma sha_round_length: "length st = 8 \<Longrightarrow> length (sha_round st kw) = 8"
  by (cases "(st, kw)" rule: sha_round.cases) (auto simp: Let_def)

lemma sha_rounds_length: "length st = 8 \<Longrightarrow> length (foldl sha_round st kws) = 8"
  by (induction kws arbitrary: st) (auto simp: sha_round_length)

lemma sha_blocks_length: "length h = 8 \<Longrightarrow> length (foldl sha_block h bs) = 8"
  by (induction bs arbitrary: h) (auto simp: sha_block_def sha_rounds_length)

lemma length_concat_bytes: "(\<And>x. length (f x) = n) \<Longrightarrow> length (concat (map f xs)) = n * length xs"
  by (induction xs) simp_all

lemma length_sha256: "length (sha256 s) = 32"
  using sha_blocks_length [of sha_h0 "chunks 64 (pad id s)"]
  by (simp add: sha256_def length_concat_bytes [of bytes_of_u32 4] bytes_of_u32_def sha_h0_def)

section \<open>The encodings lose nothing\<close>

lemma byte_less: "byte c < 256"
  using of_char_mod_256 [of c, where 'a=nat] by (metis mod_less_divisor zero_less_numeral)

lemma byte_hex_digit: "n < 16 \<Longrightarrow> byte (hex_digit n) = (if n < 10 then 48 + n else 87 + n)"
  by (simp add: hex_digit_def)

lemma hex_digit_inj:
  assumes "n < 16" "m < 16" "hex_digit n = hex_digit m"
  shows "n = m"
proof -
  have "byte (hex_digit n) = byte (hex_digit m)" using assms by simp
  then show ?thesis unfolding byte_hex_digit [OF assms(1)] byte_hex_digit [OF assms(2)]
    using assms(1,2) by (simp split: if_splits)
qed

lemma byte_div: "byte c div 16 < 16" "byte c div 4 < 64" "byte c div 64 < 4"
  by (rule less_mult_imp_div_less, use byte_less [of c] in simp)+

lemma byte_inj: "byte a = byte b \<Longrightarrow> a = b"
  by (metis char_of_char)

lemma hex_inj: "hex s = hex t \<Longrightarrow> s = t"
proof (induction s arbitrary: t)
  case Nil
  then show ?case by (cases t) (simp_all add: hex_def)
next
  case (Cons c s)
  obtain d t' where t: "t = d # t'" using Cons.prems by (cases t) (auto simp: hex_def)
  have e: "hex_digit (byte c div 16) = hex_digit (byte d div 16)" "hex_digit (byte c mod 16) = hex_digit (byte d mod 16)"
    "hex s = hex t'"
    using Cons.prems by (auto simp: hex_def t)
  have "byte c div 16 = byte d div 16" by (rule hex_digit_inj [OF byte_div(1) byte_div(1) e(1)])
  moreover have "byte c mod 16 = byte d mod 16" by (rule hex_digit_inj [OF _ _ e(2)]) simp_all
  ultimately have "byte c = byte d" by (metis div_mult_mod_eq)
  with Cons.IH [OF e(3)] t byte_inj show ?case by simp
qed

lemma byte_b64_char:
  "n < 64 \<Longrightarrow> byte (b64_char n) =
     (if n < 26 then 65 + n else if n < 52 then 71 + n else if n < 62 then n - 4 else if n = 62 then 43 else 47)"
  by (simp add: b64_char_def)

lemma b64_char_inj:
  assumes "n < 64" "m < 64" "b64_char n = b64_char m"
  shows "n = m"
proof -
  have "byte (b64_char n) = byte (b64_char m)" using assms by simp
  then show ?thesis unfolding byte_b64_char [OF assms(1)] byte_b64_char [OF assms(2)]
    using assms(1,2) by (simp split: if_splits)
qed

lemma digits_eq: "x * k + y = x' * k + y' \<Longrightarrow> y < k \<Longrightarrow> y' < k \<Longrightarrow> x = x' \<and> y = y'" for x y :: nat
  by (metis div_mult_self3 div_less add.right_neutral mod_less mod_mult_self3 less_nat_zero_code)

lemma b64_group:
  assumes "b64_char (byte a div 4) = b64_char (byte a' div 4)"
    and "b64_char (byte a mod 4 * 16 + byte b div 16) = b64_char (byte a' mod 4 * 16 + byte b' div 16)"
    and "b64_char (byte b mod 16 * 4 + byte c div 64) = b64_char (byte b' mod 16 * 4 + byte c' div 64)"
    and "b64_char (byte c mod 64) = b64_char (byte c' mod 64)"
  shows "a = a' \<and> b = b' \<and> c = c'"
proof -
  have 1: "byte a div 4 = byte a' div 4" by (rule b64_char_inj [OF byte_div(2) byte_div(2) assms(1)])
  have lt: "byte x mod 4 * 16 + byte y div 16 < 64" "byte x mod 16 * 4 + byte y div 64 < 64" for x y
  proof -
    have "byte x mod 4 < 4" "byte x mod 16 < 16" by simp_all
    then show "byte x mod 4 * 16 + byte y div 16 < 64" "byte x mod 16 * 4 + byte y div 64 < 64"
      using byte_div [of y] by linarith+
  qed
  have 2: "byte a mod 4 * 16 + byte b div 16 = byte a' mod 4 * 16 + byte b' div 16"
    by (rule b64_char_inj [OF lt(1) lt(1) assms(2)])
  have 3: "byte b mod 16 * 4 + byte c div 64 = byte b' mod 16 * 4 + byte c' div 64"
    by (rule b64_char_inj [OF lt(2) lt(2) assms(3)])
  have 4: "byte c mod 64 = byte c' mod 64" by (rule b64_char_inj [OF _ _ assms(4)]) auto
  have "byte a mod 4 = byte a' mod 4" "byte b div 16 = byte b' div 16"
    using digits_eq [OF 2 byte_div(1) byte_div(1)] by auto
  moreover have "byte b mod 16 = byte b' mod 16" "byte c div 64 = byte c' div 64"
    using digits_eq [OF 3 byte_div(3) byte_div(3)] by auto
  ultimately have "byte a = byte a'" "byte b = byte b'" "byte c = byte c'" using 1 4 by (metis div_mult_mod_eq)+
  then show ?thesis using byte_inj by blast
qed

text \<open>Injectivity of base 64 on texts of one length, as the signatures are.\<close>

lemma base64_inj: "length s = length t \<Longrightarrow> length s mod 3 = 1 \<Longrightarrow> base64 s = base64 t \<Longrightarrow> s = t"
proof (induction s arbitrary: t rule: base64.induct)
  case (2 a)
  then obtain a' where t: "t = [a']" by (cases t) auto
  have "byte a div 4 = byte a' div 4"
    by (rule b64_char_inj [OF byte_div(2) byte_div(2)]) (use 2 t in auto)
  moreover have "byte a mod 4 * 16 = byte a' mod 4 * 16"
    by (rule b64_char_inj) (use 2 t in auto)
  ultimately have "byte a = byte a'" by (metis div_mult_mod_eq mult_cancel2 zero_neq_numeral)
  then show ?case using t byte_inj by blast
next
  case (4 a b c s)
  then obtain a' b' c' t' where t: "t = a' # b' # c' # t'" by (cases t rule: base64.cases) auto
  have "a = a' \<and> b = b' \<and> c = c'" using 4 t by (intro b64_group) auto
  moreover have "s = t'" using 4 t by (intro "4.IH") (auto simp: mod_Suc split: if_splits)
  ultimately show ?case using t by simp
qed auto

lemma b64_ascii: "byte (b64_char n) < 128"
proof -
  consider "n < 26" | "26 \<le> n" "n < 52" | "52 \<le> n" "n < 62" | "62 \<le> n" by linarith
  then show ?thesis by cases (simp_all add: b64_char_def)
qed

lemma base64_ascii: "c \<in> set (base64 s) \<Longrightarrow> byte c < 128"
proof (induction s rule: base64.induct)
qed (use b64_ascii in auto)

end
