(* ===== verification/Agent_Tools.thy ===== *)
theory Agent_Tools
  imports Go_Crypto "HOL-Library.Multiset"
begin

text \<open>
  Package \<open>pkg/tools\<close>: the bounded history list (\<open>limitedlist.go\<close>), the set (\<open>set.go\<close>), signing and the
  local key and application files (\<open>auth.go\<close>), file digests (\<open>file.go\<close>) and the signal loop
  (\<open>signal.go\<close>). The lock of each structure makes its operations atomic; they are functions of the
  guarded state here.
\<close>

section \<open>LimitedList\<close>

record 'a LimitedList =
  cap :: int
  items :: "'a list"

definition NewLimitedSortList :: "int \<Rightarrow> string + 'a LimitedList" where
  "NewLimitedSortList c =
     (if c \<le> 0 then Inl ''cap less or equal than 0'' else Inr \<lparr>cap = c, items = []\<rparr>)"

definition Put :: "'a \<Rightarrow> 'a LimitedList \<Rightarrow> 'a LimitedList" where
  "Put v l =
     (let xs = items l @ [v]
      in l\<lparr>items := (if cap l < int (length xs) then tl xs else xs)\<rparr>)"

text \<open>
  The walk over a snapshot of the list. The callback updates the caller's variables and may return
  an error, on which the loop stops where \<open>breakWhenWrong\<close> is set (the warning it may log is not
  modelled).
\<close>

fun walk :: "('s \<Rightarrow> 'a \<Rightarrow> 's \<times> string option) \<Rightarrow> bool \<Rightarrow> 's \<Rightarrow> 'a list \<Rightarrow> 's" where
  "walk handle stop s [] = s"
| "walk handle stop s (v # vs) =
     (case handle s v of
        (s', None) \<Rightarrow> walk handle stop s' vs
      | (s', Some err) \<Rightarrow> (if stop then s' else walk handle stop s' vs))"

definition Foreach :: "('s \<Rightarrow> 'a \<Rightarrow> 's \<times> string option) \<Rightarrow> bool \<Rightarrow> 's \<Rightarrow> 'a LimitedList \<Rightarrow> 's" where
  "Foreach handle breakWhenWrong s l = walk handle breakWhenWrong s (items l)"

definition ForeachReverse :: "('s \<Rightarrow> 'a \<Rightarrow> 's \<times> string option) \<Rightarrow> bool \<Rightarrow> 's \<Rightarrow> 'a LimitedList \<Rightarrow> 's" where
  "ForeachReverse handle breakWhenWrong s l = walk handle breakWhenWrong s (rev (items l))"

definition list_inv :: "'a LimitedList \<Rightarrow> bool" where
  "list_inv l \<longleftrightarrow> 0 < cap l \<and> int (length (items l)) \<le> cap l"

text \<open>
  What a client of a bounded history relies on: it starts empty, it never holds more than its
  capacity, and a \<open>put\<close> keeps the latest entries.
\<close>

locale bounded_history =
  fixes put :: "'a \<Rightarrow> 'h \<Rightarrow> 'h" and entries :: "'h \<Rightarrow> 'a list" and bound :: "'h \<Rightarrow> nat"
    and inv :: "'h \<Rightarrow> bool"
  assumes inv_bound: "inv h \<Longrightarrow> length (entries h) \<le> bound h"
    and inv_pos: "inv h \<Longrightarrow> 0 < bound h"
    and inv_put: "inv h \<Longrightarrow> inv (put v h)"
    and bound_put: "bound (put v h) = bound h"
    and entries_put: "inv h \<Longrightarrow>
      entries (put v h) = drop (Suc (length (entries h)) - bound h) (entries h @ [v])"
begin

definition puts :: "'a list \<Rightarrow> 'h \<Rightarrow> 'h" where
  "puts vs h = foldl (\<lambda>h v. put v h) h vs"

lemma puts_simps [simp]: "puts [] h = h" "puts (v # vs) h = puts vs (put v h)"
  by (simp_all add: puts_def)

lemma puts_inv: "inv h \<Longrightarrow> inv (puts vs h)"
  by (induction vs arbitrary: h) (auto simp: inv_put)

lemma puts_bound: "bound (puts vs h) = bound h"
  by (induction vs arbitrary: h) (auto simp: bound_put)

lemma drop_last_window:
  "length ys \<le> n \<Longrightarrow> 0 < n \<Longrightarrow>
     drop (length (drop (Suc (length ys) - n) (ys @ [v])) + k - n) (drop (Suc (length ys) - n) (ys @ [v]) @ zs)
       = drop (length ys + Suc k - n) (ys @ v # zs)" if "length zs = k"
proof -
  assume a: "length ys \<le> n" "0 < n"
  show ?thesis
  proof (cases "length ys < n")
    case True
    then have "Suc (length ys) - n = 0" by simp
    then show ?thesis by simp
  next
    case False
    with a have n: "length ys = n" by simp
    with a obtain y ys' where "ys = y # ys'" by (cases ys) auto
    with n that show ?thesis by (auto simp: Suc_diff_le)
  qed
qed

text \<open>After any sequence of puts the history holds exactly the latest entries, in order.\<close>

lemma puts_window:
  "inv h \<Longrightarrow> entries (puts vs h) = drop (length (entries h) + length vs - bound h) (entries h @ vs)"
proof (induction vs arbitrary: h)
  case Nil
  then show ?case using inv_bound by simp
next
  case (Cons v vs)
  have "entries (puts vs (put v h)) =
      drop (length (entries (put v h)) + length vs - bound h) (entries (put v h) @ vs)"
    using Cons.IH [OF inv_put [OF Cons.prems]] bound_put by simp
  also have "\<dots> = drop (length (entries h) + Suc (length vs) - bound h) (entries h @ v # vs)"
    unfolding entries_put [OF Cons.prems]
    by (rule drop_last_window [OF refl inv_bound [OF Cons.prems] inv_pos [OF Cons.prems]])
  finally show ?case by simp
qed

end

lemma Put_entries:
  assumes "list_inv l"
  shows "items (Put v l) = drop (Suc (length (items l)) - nat (cap l)) (items l @ [v])"
proof (cases "cap l < int (length (items l @ [v]))")
  case True
  with assms have "cap l = int (length (items l))" by (simp add: list_inv_def)
  then have "nat (cap l) = length (items l)" by simp
  with True show ?thesis by (cases "items l") (simp_all add: Put_def Let_def)
next
  case False
  then have "Suc (length (items l)) - nat (cap l) = 0" by simp
  with False show ?thesis by (simp add: Put_def Let_def)
qed

lemma cap_Put [simp]: "cap (Put v l) = cap l"
  by (simp add: Put_def Let_def)

interpretation limited: bounded_history Put items "\<lambda>l. nat (cap l)" list_inv
proof unfold_locales
  fix l :: "'a LimitedList" and v
  show "list_inv l \<Longrightarrow> list_inv (Put v l)"
    by (auto simp: list_inv_def Put_entries)
qed (auto simp: list_inv_def Put_entries)

lemma NewLimitedSortList_inv: "NewLimitedSortList c = Inr l \<Longrightarrow> list_inv l"
  by (auto simp: NewLimitedSortList_def list_inv_def split: if_splits)

text \<open>
  C26: after any sequence of \<open>Put\<close>s on a well-formed list, the list holds exactly the latest
  \<open>cap\<close> values in the order they were put, so \<open>ForeachReverse\<close> visits the newest first.
\<close>

theorem LimitedList_window:
  assumes "list_inv l"
  shows "items (foldl (\<lambda>l v. Put v l) l vs)
       = drop (length (items l) + length vs - nat (cap l)) (items l @ vs)"
  using limited.puts_window [OF assms] by (simp add: limited.puts_def)

theorem LimitedList_window_witness:
  "items (foldl (\<lambda>l v. Put v l) \<lparr>cap = 2, items = [1::nat]\<rparr> [2, 3, 4]) = [3, 4]"
  using LimitedList_window [of "\<lparr>cap = 2, items = [1::nat]\<rparr>" "[2, 3, 4]"]
  by (simp add: list_inv_def)

section \<open>Set\<close>

text \<open>\<open>Set\<close> is a map to \<open>true\<close>; its keys in iteration order.\<close>

record 'a Set =
  set_m :: "'a list"

definition NewSet :: "'a Set" where
  "NewSet = \<lparr>set_m = []\<rparr>"

definition Set_Add :: "'a \<Rightarrow> 'a Set \<Rightarrow> 'a Set" where
  "Set_Add x S = (if x \<in> set (set_m S) then S else S\<lparr>set_m := set_m S @ [x]\<rparr>)"

definition Set_Remove :: "'a \<Rightarrow> 'a Set \<Rightarrow> 'a Set" where
  "Set_Remove x S = S\<lparr>set_m := filter (\<lambda>y. y \<noteq> x) (set_m S)\<rparr>"

definition Set_Contains :: "'a \<Rightarrow> 'a Set \<Rightarrow> bool" where
  "Set_Contains x S \<longleftrightarrow> x \<in> set (set_m S)"

definition Set_Length :: "'a Set \<Rightarrow> nat" where
  "Set_Length S = length (set_m S)"

definition Set_Clear :: "'a Set \<Rightarrow> 'a Set" where
  "Set_Clear S = S\<lparr>set_m := []\<rparr>"

definition Set_Keys :: "'a Set \<Rightarrow> 'a list" where
  "Set_Keys S = set_m S"

definition set_inv :: "'a Set \<Rightarrow> bool" where
  "set_inv S \<longleftrightarrow> distinct (set_m S)"

text \<open>The contract of a finite set with membership, size and a list of its members.\<close>

locale finite_set_adt =
  fixes empty :: 's and add :: "'a \<Rightarrow> 's \<Rightarrow> 's" and remove :: "'a \<Rightarrow> 's \<Rightarrow> 's"
    and contains :: "'a \<Rightarrow> 's \<Rightarrow> bool" and size_of :: "'s \<Rightarrow> nat" and keys :: "'s \<Rightarrow> 'a list"
    and inv :: "'s \<Rightarrow> bool"
  assumes inv_empty: "inv empty" and keys_empty: "keys empty = []"
    and inv_add: "inv s \<Longrightarrow> inv (add x s)"
    and inv_remove: "inv s \<Longrightarrow> inv (remove x s)"
    and keys_add: "inv s \<Longrightarrow> set (keys (add x s)) = insert x (set (keys s))"
    and keys_remove: "inv s \<Longrightarrow> set (keys (remove x s)) = set (keys s) - {x}"
    and contains_keys: "inv s \<Longrightarrow> contains x s \<longleftrightarrow> x \<in> set (keys s)"
    and distinct_keys: "inv s \<Longrightarrow> distinct (keys s)"
    and size_keys: "inv s \<Longrightarrow> size_of s = length (keys s)"
begin

lemma adds_inv: "inv s \<Longrightarrow> inv (fold add xs s)"
  by (induction xs arbitrary: s) (auto simp: inv_add)

lemma adds_keys: "inv s \<Longrightarrow> set (keys (fold add xs s)) = set xs \<union> set (keys s)"
  by (induction xs arbitrary: s) (auto simp: inv_add keys_add)

lemma adds_size: "size_of (fold add xs empty) = card (set xs)"
proof -
  have i: "inv (fold add xs empty)" using inv_empty by (rule adds_inv)
  then have "size_of (fold add xs empty) = card (set (keys (fold add xs empty)))"
    by (simp add: size_keys distinct_keys distinct_card)
  then show ?thesis using adds_keys [OF inv_empty, of xs] by (simp add: keys_empty)
qed

end

interpretation go_set: finite_set_adt NewSet Set_Add Set_Remove Set_Contains Set_Length Set_Keys set_inv
  by unfold_locales
    (auto simp: NewSet_def Set_Add_def Set_Remove_def Set_Contains_def Set_Length_def Set_Keys_def set_inv_def)

section \<open>Paths and files\<close>

text \<open>\<open>path.Clean\<close>: the elements kept so far, in reverse.\<close>

fun clean_elems :: "bool \<Rightarrow> string list \<Rightarrow> string list \<Rightarrow> string list" where
  "clean_elems rooted out [] = rev out"
| "clean_elems rooted out (e # es) =
     (if e = [] \<or> e = ''.'' then clean_elems rooted out es
      else if e = ''..'' then
        (case out of
           [] \<Rightarrow> clean_elems rooted (if rooted then [] else [e]) es
         | p # ps \<Rightarrow> clean_elems rooted (if p = ''..'' then e # p # ps else ps) es)
      else clean_elems rooted (e # out) es)"

definition path_Clean :: "string \<Rightarrow> string" where
  "path_Clean p =
     (if p = [] then ''.''
      else (let rooted = (hd p = CHR ''/'');
                es = clean_elems rooted [] (Split (CHR ''/'') p)
            in if rooted then ''/'' @ Join ''/'' es
               else if es = [] then ''.'' else Join ''/'' es))"

definition path_Join :: "string list \<Rightarrow> string" where
  "path_Join ps =
     (let es = filter (\<lambda>p. p \<noteq> []) ps in if es = [] then [] else path_Clean (Join ''/'' es))"

text \<open>
  The files of the host: their contents, the directories, and where the operating system refuses to
  open a file or to write a line to it (the text of the error).
\<close>

record fs =
  content :: "string \<Rightarrow> string option"
  dirs :: "string list"
  open_error :: "string \<Rightarrow> string option"
  write_error :: "string \<Rightarrow> string \<Rightarrow> string option"

definition IsExist :: "fs \<Rightarrow> string \<Rightarrow> bool" where
  "IsExist w f \<longleftrightarrow> content w f \<noteq> None \<or> f \<in> set (dirs w)"

text \<open>\<open>ioutil.ReadFile\<close>.\<close>

definition ReadFile :: "fs \<Rightarrow> string \<Rightarrow> string + string" where
  "ReadFile w f =
     (case open_error w f of
        Some e \<Rightarrow> Inl e
      | None \<Rightarrow> (case content w f of None \<Rightarrow> Inl (''open '' @ f @ '': no such file or directory'') | Some c \<Rightarrow> Inr c))"

section \<open>Keys, signatures and the application file\<close>

definition AccessKeyName :: string where "AccessKeyName = ''AK''"
definition SecretKeyName :: string where "SecretKeyName = ''SK''"
definition AppInstanceKeyName :: string where "AppInstanceKeyName = ''appInstance''"
definition AppGroupKeyName :: string where "AppGroupKeyName = ''appGroup''"

record keystore =
  localAccessKey :: string
  localSecureKey :: string

definition GetAccessKey :: "keystore \<Rightarrow> string" where
  "GetAccessKey ks = localAccessKey ks"

definition GetSecureKey :: "keystore \<Rightarrow> string" where
  "GetSecureKey ks = localSecureKey ks"

definition Sign :: "keystore \<Rightarrow> string \<Rightarrow> string" where
  "Sign ks signData = base64 (hex (sha256 (signData @ localSecureKey ks)))"

definition Auth :: "keystore \<Rightarrow> string \<Rightarrow> string \<Rightarrow> bool" where
  "Auth ks sign signData \<longleftrightarrow> Sign ks signData = sign"

text \<open>
  \<open>splitToChunk\<close>: \<^const>\<open>None\<close> is the panic on a chunk size that is not positive (the division for the
  capacity, or the slice bounds). The loop cuts the string into chunks and joins them again.
\<close>

function split_chunks :: "string list \<Rightarrow> string \<Rightarrow> nat \<Rightarrow> string list" where
  "split_chunks temp s sz =
     (if s = [] \<or> sz = 0 then temp
      else (let n = (if length s < sz then length s else sz)
            in split_chunks (temp @ [take n s]) (drop n s) n))"
  by pat_completeness auto
termination
  by (relation "measure (\<lambda>(temp, s, sz). length s)") (auto simp: Let_def)

declare split_chunks.simps [simp del]

definition splitToChunk :: "string \<Rightarrow> int \<Rightarrow> string go" where
  "splitToChunk encodeString sz =
     (if int (length encodeString) < sz then Some encodeString
      else if sz = 0 then None
      else if sz < 0 then (if encodeString = [] then Some [] else None)
      else Some (Join [] (split_chunks [] encodeString (nat sz))))"

text \<open>
  Writing the lines of a map to an open file, from its start: what was written so far replaces the
  head of the old content.
\<close>

fun write_lines :: "fs \<Rightarrow> string \<Rightarrow> string \<Rightarrow> string \<Rightarrow> (string \<times> string) list \<Rightarrow> fs \<times> string option" where
  "write_lines w f old written [] = (w, None)"
| "write_lines w f old written ((key, value) # kvs) =
     (let line = Join ''='' [key, value] @ [CHR 0x0A];
          written' = written @ line;
          w' = w\<lparr>content := (content w)(f \<mapsto> written' @ drop (length written') old)\<rparr>
      in case write_error w f line of
           Some e \<Rightarrow> (w, Some e)
         | None \<Rightarrow> write_lines w' f old written' kvs)"

text \<open>\<open>RecordMapToFile\<close>, with the map's entries in the order of the \<open>range\<close> loop.\<close>

definition RecordMapToFile :: "fs \<Rightarrow> (string \<times> string) list \<Rightarrow> string \<Rightarrow> bool \<Rightarrow> fs \<times> string option" where
  "RecordMapToFile w dat filePath trunc =
     (if dat = [] then (w, None)
      else (case open_error w filePath of
              Some e \<Rightarrow> (w, Some e)
            | None \<Rightarrow>
                let old = (case content w filePath of
                             None \<Rightarrow> [] | Some c \<Rightarrow> if trunc then [] else c);
                    w' = w\<lparr>content := (content w)(filePath \<mapsto> old)\<rparr>
                in write_lines w' filePath old [] dat))"

text \<open>\<open>GetUserHome\<close>: the argument is the result of \<open>os.UserHomeDir\<close>.\<close>

definition GetUserHome :: "string option \<Rightarrow> string" where
  "GetUserHome userHomeDir = (case userHomeDir of Some home \<Rightarrow> home | None \<Rightarrow> ''/root'')"

text \<open>
  The argument \<open>rng\<close> is the order in which the \<open>range\<close> loop takes the entries of a map literal.
\<close>

type_synonym map_order = "(string \<times> string) list \<Rightarrow> (string \<times> string) list"

definition RecordSecretKeyToFile ::
  "map_order \<Rightarrow> string option \<Rightarrow> fs \<Rightarrow> keystore \<Rightarrow> string \<Rightarrow> string \<Rightarrow> (fs \<times> keystore) \<times> string option" where
  "RecordSecretKeyToFile rng userHomeDir w ks accessKey secretKey =
     (if accessKey = [] \<or> secretKey = [] then ((w, ks), Some ''accessKey or secretKey is empty'')
      else (case RecordMapToFile w (rng [(AccessKeyName, accessKey), (SecretKeyName, secretKey)])
                   (path_Join [GetUserHome userHomeDir, ''.chaos.cert'']) True of
              (w', Some e) \<Rightarrow> ((w', ks), Some e)
            | (w', None) \<Rightarrow> ((w', ks\<lparr>localAccessKey := accessKey, localSecureKey := secretKey\<rparr>), None)))"

text \<open>\<open>AppFile\<close> is \<open>.chaos.app\<close> in the directory of the process, here an argument.\<close>

definition AppFile :: "string \<Rightarrow> string" where
  "AppFile currentDirectory = path_Join [currentDirectory, ''.chaos.app'']"

definition RecordApplicationToFile ::
  "map_order \<Rightarrow> string \<Rightarrow> fs \<Rightarrow> string \<Rightarrow> string \<Rightarrow> bool \<Rightarrow> fs \<times> string option" where
  "RecordApplicationToFile rng appFile w appInstance appGroup trunc =
     RecordMapToFile w (rng [(AppInstanceKeyName, appInstance), (AppGroupKeyName, appGroup)]) appFile trunc"

fun read_app_lines :: "string \<times> string \<Rightarrow> string list \<Rightarrow> string \<times> string" where
  "read_app_lines acc [] = acc"
| "read_app_lines (appInstance, appGroup) (value # vs) =
     (case SplitN2 (CHR ''='') value of
        [k, v] \<Rightarrow>
          if k = AppInstanceKeyName then read_app_lines (v, appGroup) vs
          else if k = AppGroupKeyName then read_app_lines (appInstance, v) vs
          else read_app_lines (appInstance, appGroup) vs
      | _ \<Rightarrow> read_app_lines (appInstance, appGroup) vs)"

text \<open>The \<open>len(slice) == 0\<close> branch of the source cannot be taken: \<open>strings.Split\<close> returns at least one part.\<close>

definition ReadAppInfoFromFile :: "fs \<Rightarrow> string \<Rightarrow> string + string \<times> string" where
  "ReadAppInfoFromFile w appFile =
     (case ReadFile w appFile of
        Inl e \<Rightarrow> Inl e
      | Inr bytes \<Rightarrow>
          let slice = Split (CHR 0x0A) (TrimSpace bytes)
          in if slice = [] then Inl ''empty content'' else Inr (read_app_lines ([], []) slice))"

section \<open>Digests of data\<close>

text \<open>\<open>Md5sumData\<close> on a value given by its JSON form; \<^const>\<open>None\<close> is the nil interface.\<close>

definition Md5sumData :: "json option \<Rightarrow> string + string" where
  "Md5sumData dat =
     (case dat of None \<Rightarrow> Inl ''md5 data is nill'' | Some v \<Rightarrow> Inr (hex (md5 (json_print v))))"

definition Md5sum :: "fs \<Rightarrow> string \<Rightarrow> string + string" where
  "Md5sum w filePath = (case ReadFile w filePath of Inl e \<Rightarrow> Inl e | Inr c \<Rightarrow> Inr (hex (md5 c)))"

definition CheckMd5 :: "fs \<Rightarrow> string \<Rightarrow> string \<Rightarrow> bool \<times> string option" where
  "CheckMd5 w filePath md5sum =
     (case Md5sum w filePath of
        Inl e \<Rightarrow> (False, Some e)
      | Inr s \<Rightarrow> if s = md5sum then (True, None) else (False, Some ''md5 not equal''))"

section \<open>Signals\<close>

datatype signal = SIGINT | SIGQUIT | SIGTERM

text \<open>
  \<open>Hold\<close> over the signals delivered: the hooks shut down, in order, and \<^const>\<open>True\<close> where the loop
  returned. A nil hook is \<^const>\<open>None\<close>.
\<close>

fun run_hooks :: "'h option list \<Rightarrow> 'h list" where
  "run_hooks [] = []"
| "run_hooks (None # hs) = run_hooks hs"
| "run_hooks (Some h # hs) = h # run_hooks hs"

fun Hold :: "'h option list \<Rightarrow> signal list \<Rightarrow> 'h list \<times> bool" where
  "Hold hooks [] = ([], False)"
| "Hold hooks (sig # sigs) =
     (case sig of
        SIGQUIT \<Rightarrow> (let (calls, ret) = Hold hooks sigs in (run_hooks hooks @ calls, ret))
      | _ \<Rightarrow> (run_hooks hooks, True))"

section \<open>Signing\<close>

text \<open>
  The contract between the signing and the checking side: a signature is accepted for a text exactly
  when signing the text gives it.
\<close>

locale signer =
  fixes sign :: "string \<Rightarrow> string" and verify :: "string \<Rightarrow> string \<Rightarrow> bool"
  assumes verify_sign: "verify g d \<longleftrightarrow> g = sign d"
begin

lemma signed_accepted: "verify (sign d) d"
  by (simp add: verify_sign)

lemma accepted_unique: "verify g d \<Longrightarrow> verify g' d \<Longrightarrow> g = g'"
  by (simp add: verify_sign)

end

interpretation agent_signer: signer "Sign ks" "Auth ks" for ks
  by unfold_locales (auto simp: Auth_def)

text \<open>
  A signature is the base64 text of 64 hexadecimal digits, so it is always 88 bytes long and
  never empty, whatever the data and the key.
\<close>

theorem Sign_length: "length (Sign ks d) = 88"
  by (simp add: Sign_def length_base64 length_hex length_sha256)

lemma Join_Nil_sep: "Join [] xs = concat xs"
  by (induction "[]::string" xs rule: Join.induct) auto

lemma split_chunks_concat: "0 < sz \<Longrightarrow> concat (split_chunks temp s sz) = concat temp @ s"
proof (induction temp s sz rule: split_chunks.induct)
  case (1 temp s sz)
  show ?case
  proof (cases "s = []")
    case True
    then show ?thesis by (simp add: split_chunks.simps)
  next
    case False
    with 1 show ?thesis by (subst split_chunks.simps) (auto simp: Let_def)
  qed
qed

text \<open>
  For a positive chunk size, cutting a string into chunks and joining them returns the string;
  a size that is not positive panics on every non-empty string.
\<close>

theorem splitToChunk_identity:
  "splitToChunk s sz = (if 0 < sz \<or> s = [] \<and> sz \<noteq> 0 then Some s else None)"
  by (auto simp: splitToChunk_def Join_Nil_sep split_chunks_concat)

text \<open>
  Recording a key pair changes both keys of the running agent together or, where it returns an
  error, neither: an empty key is refused and a file error leaves the old pair in place.
\<close>

lemma RecordSecretKeyToFile_keys:
  "RecordSecretKeyToFile rng home w ks ak sk = ((w', ks'), err) \<Longrightarrow>
     (case err of
        None \<Rightarrow> ak \<noteq> [] \<and> sk \<noteq> [] \<and> GetAccessKey ks' = ak \<and> GetSecureKey ks' = sk
      | Some e \<Rightarrow> ks' = ks)"
  by (auto simp: RecordSecretKeyToFile_def GetAccessKey_def GetSecureKey_def split: if_splits prod.splits option.splits)

definition plain_fs :: fs where
  "plain_fs = \<lparr>content = Map.empty, dirs = [], open_error = (\<lambda>_. None), write_error = (\<lambda>_ _. None)\<rparr>"

section \<open>The application file\<close>

definition line_clean :: "string \<Rightarrow> bool" where
  "line_clean v \<longleftrightarrow> CHR 0x0A \<notin> set v \<and> strip_one (map rev space_runes) (rev v) = None"

lemma strip_all_None: "strip_one us s = None \<Longrightarrow> strip_all us s = s"
  by (simp add: strip_all.simps)

lemma strip_one_None_iff: "strip_one us s = None \<longleftrightarrow> (\<forall>u \<in> set us. u \<noteq> [] \<longrightarrow> \<not> prefix u s)"
  by (induction us) auto

lemma prefix_upto_sep: "prefix u (x @ c # y) \<Longrightarrow> c \<notin> set u \<Longrightarrow> prefix u x"
proof -
  assume p: "prefix u (x @ c # y)" and n: "c \<notin> set u"
  from p consider "prefix u x" | zs where "u = x @ zs" "prefix zs (c # y)"
    by (auto simp: prefix_append)
  then show ?thesis
  proof cases
    case 2
    with n show ?thesis by (cases zs) auto
  qed
qed

text \<open>Facts about the white-space runes, checked once on the list.\<close>

lemma runes_no_eq: "list_all (\<lambda>u. CHR ''='' \<notin> set u) (map rev space_runes)"
  by code_simp

lemma runes_newline: "list_all (\<lambda>u. u = [CHR 0x0A] \<or> CHR 0x0A \<notin> set u) (map rev space_runes)"
  by code_simp

lemma runes_no_a: "list_all (\<lambda>u. hd u \<noteq> CHR ''a'') space_runes"
  by code_simp

lemma line_clean_pair:
  assumes "line_clean v" "CHR 0x0A \<notin> set k"
  shows "line_clean (k @ CHR ''='' # v)"
proof -
  have no_eq: "CHR ''='' \<notin> set u" if "u \<in> set (map rev space_runes)" for u
    using runes_no_eq that unfolding list_all_iff by blast
  have "\<not> prefix u (rev v @ CHR ''='' # rev k)" if u: "u \<in> set (map rev space_runes)" "u \<noteq> []" for u
  proof
    assume "prefix u (rev v @ CHR ''='' # rev k)"
    then have "prefix u (rev v)" using no_eq [OF u(1)] by (rule prefix_upto_sep)
    then show False using assms(1) u unfolding line_clean_def strip_one_None_iff by blast
  qed
  then show ?thesis using assms by (simp add: line_clean_def strip_one_None_iff)
qed

lemma strip_one_newline: "strip_one (map rev space_runes) (CHR 0x0A # s) = Some s"
  by (simp add: space_runes_def)

lemma strip_one_line:
  assumes "line_clean b" "b \<noteq> []"
  shows "strip_one (map rev space_runes) (rev b @ CHR 0x0A # r) = None"
  unfolding strip_one_None_iff
proof (intro ballI impI notI)
  fix u assume u: "u \<in> set (map rev space_runes)" "u \<noteq> []" and p: "prefix u (rev b @ CHR 0x0A # r)"
  have "u = [CHR 0x0A] \<or> CHR 0x0A \<notin> set u" using runes_newline u(1) unfolding list_all_iff by blast
  then show False
  proof
    assume "u = [CHR 0x0A]"
    with p assms(2) have "hd (rev b) = CHR 0x0A" by (cases "rev b") auto
    with assms have "CHR 0x0A \<in> set b" by (metis hd_in_set rev_is_Nil_conv set_rev)
    with assms show False by (simp add: line_clean_def)
  next
    assume "CHR 0x0A \<notin> set u"
    with p have "prefix u (rev b)" by (rule prefix_upto_sep)
    then show False using assms(1) u unfolding line_clean_def strip_one_None_iff by blast
  qed
qed

lemma TrimSpace_lines:
  assumes "line_clean b" "b \<noteq> []" "a \<noteq> []" "hd a = CHR ''a''"
  shows "TrimSpace (a @ CHR 0x0A # b @ [CHR 0x0A]) = a @ CHR 0x0A # b"
proof -
  have "strip_one space_runes (a @ t) = None" for t
    unfolding strip_one_None_iff
  proof (intro ballI impI notI)
    fix u assume u: "u \<in> set space_runes" "u \<noteq> []" "prefix u (a @ t)"
    then have "hd u = CHR ''a''" using assms(3,4) by (cases a) (auto simp: prefix_Cons)
    then show False using runes_no_a u(1) unfolding list_all_iff by blast
  qed
  then have l: "strip_all space_runes (a @ t) = a @ t" for t by (rule strip_all_None)
  have "strip_all (map rev space_runes) (CHR 0x0A # rev b @ CHR 0x0A # rev a) = rev b @ CHR 0x0A # rev a"
    using strip_one_newline strip_all_None [OF strip_one_line [OF assms(1,2), of "rev a"]]
    by (subst strip_all.simps) simp
  then show ?thesis by (simp add: TrimSpace_def l)
qed

lemma read_two_lines:
  assumes "CHR 0x0A \<notin> set k" "CHR 0x0A \<notin> set v" "line_clean v'" "CHR 0x0A \<notin> set k'"
    "k \<noteq> []" "hd k = CHR ''a''"
  shows "Split (CHR 0x0A) (TrimSpace (k @ CHR ''='' # v @ CHR 0x0A # k' @ CHR ''='' # v' @ [CHR 0x0A]))
       = [k @ CHR ''='' # v, k' @ CHR ''='' # v']"
proof -
  have "TrimSpace ((k @ CHR ''='' # v) @ CHR 0x0A # (k' @ CHR ''='' # v') @ [CHR 0x0A])
      = (k @ CHR ''='' # v) @ CHR 0x0A # k' @ CHR ''='' # v'"
    by (rule TrimSpace_lines [OF line_clean_pair [OF assms(3,4)]]) (use assms in auto)
  moreover have "Split (CHR 0x0A) ((k @ CHR ''='' # v) @ CHR 0x0A # k' @ CHR ''='' # v')
      = [k @ CHR ''='' # v, k' @ CHR ''='' # v']"
    using assms by (subst Split_append_sep) (auto simp: Split_no_sep line_clean_def)
  ultimately show ?thesis by simp
qed

lemma mset_pair: "mset xs = mset [a, b] \<Longrightarrow> xs = [a, b] \<or> xs = [b, a]"
proof -
  assume m: "mset xs = mset [a, b]"
  then have "length xs = 2" by (metis One_nat_def Suc_1 length_Cons list.size(3) mset_eq_length)
  then obtain x y where "xs = [x, y]" by (auto simp: numeral_2_eq_2 length_Suc_conv)
  with m show ?thesis by (auto simp: add_eq_conv_ex)
qed

text \<open>
  What \<open>RecordApplicationToFile\<close> writes, \<open>ReadAppInfoFromFile\<close> reads back: with a truncating
  write that the operating system does not refuse, in whichever order the map is ranged over, the
  instance and the group come back, provided neither holds a newline or ends in white space.
\<close>

lemma application_file_roundtrip:
  assumes "mset (rng [(AppInstanceKeyName, inst), (AppGroupKeyName, grp)])
         = mset [(AppInstanceKeyName, inst), (AppGroupKeyName, grp)]"
    and "open_error w f = None" "\<And>l. write_error w f l = None"
    and "line_clean inst" "line_clean grp"
    and "RecordApplicationToFile rng f w inst grp True = (w', err)"
  shows "err = None \<and> ReadAppInfoFromFile w' f = Inr (inst, grp)"
proof -
  have nl: "CHR 0x0A \<notin> set inst" "CHR 0x0A \<notin> set grp" using assms(4,5) by (simp_all add: line_clean_def)
  note keys = AppInstanceKeyName_def AppGroupKeyName_def
  have sp: "SplitN2 (CHR ''='') (AppInstanceKeyName @ CHR ''='' # v) = [AppInstanceKeyName, v]"
    "SplitN2 (CHR ''='') (AppGroupKeyName @ CHR ''='' # v) = [AppGroupKeyName, v]" for v
    by (simp_all add: keys)
  have ne: "AppGroupKeyName \<noteq> AppInstanceKeyName" by (simp add: keys)
  have r: "Split (CHR 0x0A) (TrimSpace (AppInstanceKeyName @ CHR ''='' # inst @ CHR 0x0A # AppGroupKeyName @ CHR ''='' # grp @ [CHR 0x0A]))
      = [AppInstanceKeyName @ CHR ''='' # inst, AppGroupKeyName @ CHR ''='' # grp]"
    "Split (CHR 0x0A) (TrimSpace (AppGroupKeyName @ CHR ''='' # grp @ CHR 0x0A # AppInstanceKeyName @ CHR ''='' # inst @ [CHR 0x0A]))
      = [AppGroupKeyName @ CHR ''='' # grp, AppInstanceKeyName @ CHR ''='' # inst]"
    by (rule read_two_lines; use assms nl in \<open>simp add: keys\<close>)+
  from mset_pair [OF assms(1)] show ?thesis
  proof
    assume "rng [(AppInstanceKeyName, inst), (AppGroupKeyName, grp)] = [(AppInstanceKeyName, inst), (AppGroupKeyName, grp)]"
    with assms(6) show ?thesis using assms(2,3) ne sp r
      by (auto simp: RecordApplicationToFile_def RecordMapToFile_def Let_def ReadAppInfoFromFile_def ReadFile_def split: option.splits)
  next
    assume "rng [(AppInstanceKeyName, inst), (AppGroupKeyName, grp)] = [(AppGroupKeyName, grp), (AppInstanceKeyName, inst)]"
    with assms(6) show ?thesis using assms(2,3) ne sp r
      by (auto simp: RecordApplicationToFile_def RecordMapToFile_def Let_def ReadAppInfoFromFile_def ReadFile_def split: option.splits)
  qed
qed

end
