(* ===== verification/Agent_Bash.thy ===== *)
theory Agent_Bash
  imports Agent_Tools
begin

text \<open>
  Package \<open>pkg/bash\<close>: running a script through the shell. The operating system is an argument: what
  the process prints and the error \<open>cmd.CombinedOutput\<close> returns, for a command line and a deadline.
\<close>

text \<open>\<open>ctx == context.Background()\<close> is the only thing the code asks of its context.\<close>

datatype ctx = Background | Other_ctx "nat option"

text \<open>The command as it is handed to \<open>exec.CommandContext\<close>, its deadline in seconds.\<close>

record exec_cmd =
  deadline :: "nat option"
  argv :: "string list"

type_synonym shell = "exec_cmd \<Rightarrow> string \<times> string option"

definition IsWindows :: "string \<Rightarrow> bool" where
  "IsWindows goos \<longleftrightarrow> goos = ''windows''"

definition ExecScript :: "string \<Rightarrow> shell \<Rightarrow> fs \<Rightarrow> ctx \<Rightarrow> string \<Rightarrow> string \<Rightarrow> string \<times> string \<times> bool" where
  "ExecScript goos sh w c script args =
     (if \<not> IsExist w script then ([], script @ '' not found'', False)
      else (let limit = (case c of Background \<Rightarrow> Some 60 | Other_ctx d \<Rightarrow> d);
                line = script @ '' '' @ args;
                cmd = (if IsWindows goos
                       then \<lparr>deadline = limit, argv = [''cmd.exe'', ''/c'', line]\<rparr>
                       else \<lparr>deadline = limit, argv = [''/bin/sh'', ''-c'', line]\<rparr>)
            in case sh cmd of
                 (output, Some err) \<Rightarrow> (output, err, False)
               | (output, None) \<Rightarrow> (output, [], True)))"

definition handleOsAgentResult :: "string \<Rightarrow> string \<times> bool" where
  "handleOsAgentResult result =
     (case from_index (CHR ''{'') result of
        None \<Rightarrow> (result, False)
      | Some result' \<Rightarrow>
          (case decode_map result' of
             None \<Rightarrow> (result', False)
           | Some sr \<Rightarrow>
               (case as_number (obj_get sr ''exitCode'') of
                  Some code \<Rightarrow> (result', float_is_zero code)
                | None \<Rightarrow> (result', False))))"

definition ExecOsAgentScript :: "string \<Rightarrow> shell \<Rightarrow> fs \<Rightarrow> ctx \<Rightarrow> string \<Rightarrow> string \<Rightarrow> string \<times> bool" where
  "ExecOsAgentScript goos sh w c script args =
     (case ExecScript goos sh w c script args of
        (result, errMsg, True) \<Rightarrow> handleOsAgentResult result
      | (result, errMsg, False) \<Rightarrow> (result @ '' '' @ errMsg, False))"

text \<open>A missing script runs nothing, and success means that the process reported no error.\<close>

lemma ExecScript_missing: "\<not> IsExist w script \<Longrightarrow> ExecScript g sh w c script args = ([], script @ '' not found'', False)"
  by (simp add: ExecScript_def)

lemma ExecScript_ok:
  "ExecScript g sh w c script args = (out, msg, True) \<Longrightarrow> IsExist w script \<and> msg = []"
  by (auto simp: ExecScript_def Let_def split: if_splits prod.splits option.splits)

text \<open>
  Of a result with a prefix before its JSON object, the code keeps the object: where the object is
  the encoding of a value and nothing before it holds a brace, success is exactly exit code zero.
\<close>

lemma handleOsAgentResult_object:
  assumes "CHR ''{'' \<notin> set pre" "wf_json (JObj kvs)" "json_depth (JObj kvs) \<le> max_depth" "floats_ok (JObj kvs)"
  shows "handleOsAgentResult (pre @ json_print (JObj kvs))
       = (json_print (JObj kvs),
          (case as_number (obj_get kvs ''exitCode'') of Some code \<Rightarrow> float_is_zero code | None \<Rightarrow> False))"
proof -
  obtain t where t: "json_print (JObj kvs) = CHR ''{'' # t" by simp
  have "from_index (CHR ''{'') (pre @ json_print (JObj kvs)) = Some (json_print (JObj kvs))"
    unfolding t using assms(1) by (rule from_index_append)
  moreover have "decode_map (json_print (JObj kvs)) = Some kvs"
    using json_parse_print [OF assms(2,3)] assms(4) by (simp add: decode_map_def del: json_print.simps)
  ultimately show ?thesis by (simp add: handleOsAgentResult_def split: option.splits)
qed

text \<open>
  the result of an agent script that ran is judged by its JSON part only: whatever non-JSON bytes
  precede the object, the script succeeded exactly when the process succeeded and the object has a
  numeric \<open>exitCode\<close> equal to zero; the text returned is the object without the prefix.
\<close>

theorem ExecOsAgentScript_result:
  assumes "IsExist w script"
    and "sh \<lparr>deadline = (case c of Background \<Rightarrow> Some 60 | Other_ctx d \<Rightarrow> d),
             argv = [''/bin/sh'', ''-c'', script @ '' '' @ args]\<rparr> = (pre @ json_print (JObj kvs), None)"
    and "CHR ''{'' \<notin> set pre" "wf_json (JObj kvs)" "json_depth (JObj kvs) \<le> max_depth" "floats_ok (JObj kvs)"
  shows "ExecOsAgentScript ''linux'' sh w c script args
       = (json_print (JObj kvs),
          (case as_number (obj_get kvs ''exitCode'') of Some code \<Rightarrow> float_is_zero code | None \<Rightarrow> False))"
proof -
  have "ExecScript ''linux'' sh w c script args = (pre @ json_print (JObj kvs), [], True)"
    using assms(1,2) by (simp add: ExecScript_def IsWindows_def del: json_print.simps)
  with handleOsAgentResult_object [OF assms(3-6)] show ?thesis
    by (simp add: ExecOsAgentScript_def del: json_print.simps)
qed

theorem ExecOsAgentScript_result_witness:
  "ExecOsAgentScript ''linux'' (\<lambda>c. (CHR 0x01 # ''{'' @ json_string ''exitCode'' @ '':0}'', None))
     (plain_fs\<lparr>content := [''/a.sh'' \<mapsto> []]\<rparr>) Background ''/a.sh'' ''run''
   = (''{'' @ json_string ''exitCode'' @ '':0}'', True)"
proof -
  let ?kvs = "[(''exitCode'', JNum (Itoa 0))]"
  have i: "Itoa 0 = ''0''" by (simp add: Itoa_def nat_str_zero)
  have p: "json_print (JObj ?kvs) = ''{'' @ json_string ''exitCode'' @ '':0}''" by (simp add: i)
  have z: "float_is_zero (Itoa 0)" "\<not> float_overflows (Itoa 0)" unfolding i by code_simp+
  have u: "valid_utf8 ''exitCode''" by code_simp
  have wf: "wf_json (JObj ?kvs)" using u by auto
  show ?thesis
    using ExecOsAgentScript_result
      [of "plain_fs\<lparr>content := [''/a.sh'' \<mapsto> []]\<rparr>" "''/a.sh''"
          "\<lambda>c. (CHR 0x01 # ''{'' @ json_string ''exitCode'' @ '':0}'', None)" Background "''run''" "[CHR 0x01]" ?kvs]
      p wf z by (simp add: IsExist_def max_depth_def obj_get_def del: json_print.simps)
qed

section \<open>The process id file\<close>

text \<open>\<open>writePid\<close> of \<open>cmd/chaos_agent.go\<close>: the file is opened without truncation.\<close>

definition pidFile :: string where "pidFile = ''/var/run/chaos.pid''"

definition writePid :: "fs \<Rightarrow> int \<Rightarrow> fs \<times> string option" where
  "writePid w pid =
     (case open_error w pidFile of
        Some e \<Rightarrow> (w, Some e)
      | None \<Rightarrow>
          let old = (case content w pidFile of None \<Rightarrow> [] | Some c \<Rightarrow> c);
              s = Itoa pid;
              w' = w\<lparr>content := (content w)(pidFile \<mapsto> old)\<rparr>
          in (case write_error w pidFile s of
                Some e \<Rightarrow> (w', Some e)
              | None \<Rightarrow> (w'\<lparr>content := (content w)(pidFile \<mapsto> s @ drop (length s) old)\<rparr>, None)))"

text \<open>
  after a successful \<open>writePid\<close> the file starts with the new process id, and it holds exactly
  that id if and only if the old content was not longer: a shorter id (as the \<open>-1\<close> written on a
  failed start) leaves the tail of the old one behind.
\<close>

theorem writePid_content:
  assumes "writePid w pid = (w', None)"
  shows "\<exists>c. content w' pidFile = Some c \<and> prefix (Itoa pid) c
    \<and> (c = Itoa pid \<longleftrightarrow> (case content w pidFile of None \<Rightarrow> True | Some old \<Rightarrow> length old \<le> length (Itoa pid)))"
  using assms by (auto simp: writePid_def Let_def split: option.splits)

theorem writePid_content_witness:
  "\<exists>w'. writePid (plain_fs\<lparr>content := [pidFile \<mapsto> ''12345'']\<rparr>) (- 1) = (w', None)
     \<and> content w' pidFile = Some ''-1345''"
proof -
  have i: "Itoa (- 1) = ''-1''" by code_simp
  obtain w' where r: "writePid (plain_fs\<lparr>content := [pidFile \<mapsto> ''12345'']\<rparr>) (- 1) = (w', None)"
    by (simp add: writePid_def Let_def plain_fs_def)
  from writePid_content [OF r] i r show ?thesis
    by (auto simp: writePid_def Let_def plain_fs_def)
qed

end
