(* ===== verification/Agent_Options.thy ===== *)
theory Agent_Options
  imports Agent_Bash
begin

text \<open>
  Package \<open>pkg/options\<close>: the options of the agent with their defaults, the values derived from the
  host, the choice of the local address (with the address parser of package \<open>net\<close>) and the version
  of the blade tool. The host is a record of what the operating system answers.
\<close>

section \<open>Addresses\<close>

text \<open>\<open>net.IP\<close> is a byte slice; the empty one is nil.\<close>

type_synonym ip = "nat list"

definition To4 :: "ip \<Rightarrow> ip" where
  "To4 a =
     (if length a = 4 then a
      else if length a = 16 \<and> take 12 a = replicate 10 0 @ [255, 255] then drop 12 a
      else [])"

lemma replicate_unroll:
  "replicate 10 x = [x, x, x, x, x, x, x, x, x, x]" "replicate 12 x = [x, x] @ replicate 10 x"
  by (simp_all add: numeral_eq_Suc)

definition IsLoopback :: "ip \<Rightarrow> bool" where
  "IsLoopback a \<longleftrightarrow> (if To4 a \<noteq> [] then hd (To4 a) = 127 else a = replicate 15 0 @ [1])"

text \<open>\<open>IP.String\<close> of a four-byte address.\<close>

definition ip4_string :: "ip \<Rightarrow> string" where
  "ip4_string a = Join ''.'' (map (\<lambda>b. Itoa (int b)) a)"

text \<open>
  The loop of \<open>netip.parseIPv4Fields\<close>: the fields read so far, the value and the number of digits of
  the current one.
\<close>

fun ipv4_fields :: "ip \<Rightarrow> nat \<Rightarrow> nat \<Rightarrow> string \<Rightarrow> ip option" where
  "ipv4_fields acc val digLen [] = (if length acc < 3 then None else Some (acc @ [val]))"
| "ipv4_fields acc val digLen (c # s) =
     (if is_digit c then
        (if digLen = 1 \<and> val = 0 then None
         else if 255 < val * 10 + digit_val c then None
         else ipv4_fields acc (val * 10 + digit_val c) (Suc digLen) s)
      else if c = CHR ''.'' then
        (if digLen = 0 \<or> s = [] then None
         else if length acc = 3 then None
         else ipv4_fields (acc @ [val]) 0 0 s)
      else None)"

definition parseIPv4 :: "string \<Rightarrow> ip option" where
  "parseIPv4 s = map_option (\<lambda>a. replicate 10 0 @ [255, 255] @ a) (ipv4_fields [] 0 0 s)"

text \<open>The leading hexadecimal digits of a group.\<close>

definition hex_group :: "string \<Rightarrow> string \<times> string" where
  "hex_group s = (takeWhile is_hex s, dropWhile is_hex s)"

definition hex_number :: "string \<Rightarrow> nat" where
  "hex_number ds = foldl (\<lambda>n c. n * 16 + (case hex_val c of Some d \<Rightarrow> d | None \<Rightarrow> 0)) 0 ds"

text \<open>
  The group loop of \<open>netip.parseIPv6\<close>: the bytes so far, the position of the ellipsis and the rest;
  the result is the bytes and the ellipsis once the whole text is used. The first argument bounds the
  groups: at most eight fit in the address.
\<close>

fun ipv6_groups :: "nat \<Rightarrow> ip \<Rightarrow> nat option \<Rightarrow> string \<Rightarrow> (ip \<times> nat option) option" where
  "ipv6_groups 0 acc ell s = None"
| "ipv6_groups (Suc n) acc ell s =
     (if 16 \<le> length acc then (if s = [] then Some (acc, ell) else None)
      else (let (ds, r) = hex_group s in
        if ds = [] \<or> 4 < length ds then None
        else if r \<noteq> [] \<and> hd r = CHR ''.'' then
          (if ell = None \<and> length acc \<noteq> 12 \<or> 12 < length acc then None
           else (case ipv4_fields [] 0 0 s of None \<Rightarrow> None | Some a \<Rightarrow> Some (acc @ a, ell)))
        else (let acc' = acc @ [hex_number ds div 256, hex_number ds mod 256] in
          if r = [] then Some (acc', ell)
          else if hd r \<noteq> CHR '':'' \<or> tl r = [] then None
          else if hd (tl r) = CHR '':'' then
            (if ell \<noteq> None then None
             else if tl (tl r) = [] then Some (acc', Some (length acc'))
             else ipv6_groups n acc' (Some (length acc')) (tl (tl r)))
          else ipv6_groups n acc' ell (tl r))))"

lemmas ipv6_unroll = ipv6_groups.simps(2) [of 8, simplified] ipv6_groups.simps(2) [of 7, simplified]

definition parseIPv6 :: "string \<Rightarrow> ip option" where
  "parseIPv6 s =
     (if s = ''::'' then Some (replicate 16 0)
      else (let (ell, t) = (if take 2 s = ''::'' then (Some 0, drop 2 s) else (None, s)) in
        case ipv6_groups 9 [] ell t of
          None \<Rightarrow> None
        | Some (a, ell') \<Rightarrow>
            (if length a < 16 then
               (case ell' of
                  None \<Rightarrow> None
                | Some e \<Rightarrow> Some (take e a @ replicate (16 - length a) 0 @ drop e a))
             else if ell' \<noteq> None then None
             else Some a)))"

text \<open>
  \<open>net.ParseIP\<close>: the first dot, colon or percent sign decides; an address with a zone is refused
  (the text after a percent sign is either empty, an error, or a zone).
\<close>

fun ParseIP_at :: "string \<Rightarrow> string \<Rightarrow> ip option" where
  "ParseIP_at whole [] = None"
| "ParseIP_at whole (c # s) =
     (if c = CHR ''.'' then parseIPv4 whole
      else if c = CHR '':'' then (if CHR 0x25 \<in> set whole then None else parseIPv6 whole)
      else if c = CHR 0x25 then None
      else ParseIP_at whole s)"

definition ParseIP :: "string \<Rightarrow> ip option" where
  "ParseIP s = ParseIP_at s s"

definition isValidIP :: "string \<Rightarrow> bool" where
  "isValidIP s = (case ParseIP s of None \<Rightarrow> False | Some a \<Rightarrow> To4 a \<noteq> [])"

text \<open>A network interface; its addresses, or the error of asking for them.\<close>

record iface =
  FlagUp :: bool
  FlagLoopback :: bool
  Addrs :: "string + ip list"

fun first_addr :: "ip list \<Rightarrow> string option" where
  "first_addr [] = None"
| "first_addr (a # as) =
     (if a = [] \<or> IsLoopback a then first_addr as
      else if To4 a = [] then first_addr as
      else Some (ip4_string (To4 a)))"

fun scan_ifaces :: "iface list \<Rightarrow> string option" where
  "scan_ifaces [] = None"
| "scan_ifaces (i # is) =
     (if \<not> FlagUp i then scan_ifaces is
      else if FlagLoopback i then scan_ifaces is
      else (case Addrs i of
              Inl err \<Rightarrow> scan_ifaces is
            | Inr addrs \<Rightarrow> (case first_addr addrs of Some s \<Rightarrow> Some s | None \<Rightarrow> scan_ifaces is)))"

text \<open>\<open>GetPrivateIp\<close>: the left value is the message with which the process exits.\<close>

definition GetPrivateIp :: "string + iface list \<Rightarrow> string + string" where
  "GetPrivateIp interfaces =
     (case interfaces of
        Inl err \<Rightarrow> Inl (''Cannot get host ip address! Please use --localIp flag to specify the host ip!!'' @ err)
      | Inr ifs \<Rightarrow>
          (case scan_ifaces ifs of
             Some s \<Rightarrow> Inr s
           | None \<Rightarrow> Inl ''Cannot get host ip address! Please use --localIp flag to specify the host ip''))"

section \<open>The version of the blade tool\<close>

definition BladeBinPath :: string where
  "BladeBinPath = path_Join [path_Join [''/opt'', ''chaosblade''], ''blade'']"

text \<open>One line of the output, tested with \<open>HasPrefix\<close> on its given form.\<close>

definition version_of_line :: "(string \<Rightarrow> string) \<Rightarrow> string \<Rightarrow> string \<Rightarrow> string option" where
  "version_of_line norm p raw =
     (let line = TrimSpace raw in
      if \<not> prefix p (norm line) then None
      else (let versionArr = Split (CHR '':'') line in
            if length versionArr \<noteq> 2 then None
            else (let version = TrimSpace (versionArr ! 1) in
                  if version = [] then None
                  else (case Fields version of [] \<Rightarrow> None | v # vs \<Rightarrow> Some v))))"

fun first_version :: "(string \<Rightarrow> string) \<Rightarrow> string \<Rightarrow> string list \<Rightarrow> string option" where
  "first_version norm p [] = None"
| "first_version norm p (l # ls) =
     (case version_of_line norm p l of Some v \<Rightarrow> Some v | None \<Rightarrow> first_version norm p ls)"

definition parseVersionFromOutput :: "string \<Rightarrow> string + string" where
  "parseVersionFromOutput output =
     (let trimmedOutput = TrimSpace output in
      if trimmedOutput = [] then Inl ''cannot get blade version''
      else (let versionInfos = Split (CHR 0x0A) trimmedOutput in
            case first_version id ''Version:'' versionInfos of
              Some v \<Rightarrow> Inr v
            | None \<Rightarrow>
                (case first_version ToLower ''version:'' versionInfos of
                   Some v \<Rightarrow> Inr v
                 | None \<Rightarrow> Inl (''cannot parse version info from output. '' @ output))))"

definition GetChaosBladeVersion :: "string \<Rightarrow> shell \<Rightarrow> fs \<Rightarrow> string + string" where
  "GetChaosBladeVersion goos sh w =
     (if \<not> IsExist w BladeBinPath then Inl ''blade bin file not exist''
      else (case ExecScript goos sh w (Other_ctx None) BladeBinPath ''version'' of
              (result, errMsg, False) \<Rightarrow> Inl errMsg
            | (result, errMsg, True) \<Rightarrow> parseVersionFromOutput result))"

text \<open>\<open>CtlPathFunc\<close>: the argument is the directory of the program, or \<^const>\<open>None\<close> on an error.\<close>

definition CtlPathFunc :: "fs \<Rightarrow> string option \<Rightarrow> string" where
  "CtlPathFunc w dir =
     (case dir of
        None \<Rightarrow> []
      | Some d \<Rightarrow> if IsExist w (path_Join [d, ''chaosctl.sh'']) then path_Join [d, ''chaosctl.sh''] else [])"

section \<open>Options\<close>

record LogConfig =
  Level :: string
  MaxFileSize :: int
  MaxFileCount :: int
  LogOutput :: string

record TransportConfig =
  tc_Environment :: string
  Endpoint :: string
  Timeout :: int
  Secure :: bool

text \<open>Durations are in nanoseconds. The fields that no operation of the model reads are kept.\<close>

record Options =
  LogConf :: LogConfig
  Help :: bool
  Environment :: string
  IsVpc :: bool
  VpcId :: string
  Pid :: string
  Cid :: string
  Uid :: string
  Ip :: string
  HostName :: string
  InstanceId :: string
  o_Namespace :: string
  License :: string
  AgentMode :: string
  InstallOperator :: string
  Port :: string
  HeartbeatPeriod :: int
  TransportConf :: TransportConfig
  ApplicationInstance :: string
  ApplicationGroup :: string
  StartupMode :: string
  RestrictedVpc :: bool
  Version :: string
  ChaosbladeVersion :: string
  LitmusChaosVerison :: string
  ClusterId :: string
  ClusterName :: string
  PodMetricFlag :: bool
  ExternalIpEnable :: bool
  ChaosAgentBinUrl :: string
  ChaosAgentSHUrl :: string
  ChaosBladeTarUrl :: string
  LitmusChartUrl :: string
  CertUrl :: string
  LocalIp :: string

definition AgentHostMode :: string where "AgentHostMode = ''host''"
definition AgentK8sMode :: string where "AgentK8sMode = ''k8s''"
definition AgentCSK8sMode :: string where "AgentCSK8sMode = ''cs_k8s''"
definition AgentK8sHelmMode :: string where "AgentK8sHelmMode = ''k8s_helm''"
definition AgentCSK8sHelmMode :: string where "AgentCSK8sHelmMode = ''cs_k8s_helm''"
definition DefaultApplicationInstance :: string where "DefaultApplicationInstance = ''chaos-default-app''"
definition DefaultApplicationGroup :: string where "DefaultApplicationGroup = ''chaos-default-app-group''"

lemmas option_consts = AgentHostMode_def AgentK8sMode_def AgentCSK8sMode_def AgentK8sHelmMode_def
  AgentCSK8sHelmMode_def DefaultApplicationInstance_def DefaultApplicationGroup_def

definition second :: int where "second = 1000000000"

text \<open>
  \<open>AddFlags\<close>: registering a flag stores its default in the field; the fields without a flag keep
  their values.
\<close>

definition AddFlags :: "Options \<Rightarrow> Options" where
  "AddFlags opts = opts\<lparr>
     LogConf := \<lparr>Level = ''info'', MaxFileSize = 10, MaxFileCount = 1, LogOutput = ''file''\<rparr>,
     Environment := ''prod'', o_Namespace := ''default'', License := [],
     AgentMode := AgentHostMode, InstallOperator := ''linux'',
     HeartbeatPeriod := 5 * second,
     TransportConf := (TransportConf opts)\<lparr>Endpoint := [], Timeout := 3 * second, Secure := True\<rparr>,
     ApplicationInstance := DefaultApplicationInstance, ApplicationGroup := DefaultApplicationGroup,
     StartupMode := ''console'', RestrictedVpc := False,
     ClusterId := [], ClusterName := [], PodMetricFlag := False, ExternalIpEnable := False,
     ChaosAgentBinUrl := [], ChaosAgentSHUrl := [], ChaosBladeTarUrl := [], LitmusChartUrl := [], CertUrl := [],
     Port := ''19527'', LocalIp := [], Help := False\<rparr>"

text \<open>\<open>&Options{}\<close>, and \<open>NewOptions\<close> up to the parsing of the arguments, which is the flag library's.\<close>

definition zero_Options :: Options where
  "zero_Options =
     \<lparr>LogConf = \<lparr>Level = [], MaxFileSize = 0, MaxFileCount = 0, LogOutput = []\<rparr>, Help = False,
      Environment = [], IsVpc = False, VpcId = [], Pid = [], Cid = [], Uid = [], Ip = [], HostName = [],
      InstanceId = [], o_Namespace = [], License = [], AgentMode = [], InstallOperator = [], Port = [],
      HeartbeatPeriod = 0,
      TransportConf = \<lparr>tc_Environment = [], Endpoint = [], Timeout = 0, Secure = False\<rparr>,
      ApplicationInstance = [], ApplicationGroup = [], StartupMode = [], RestrictedVpc = False, Version = [],
      ChaosbladeVersion = [], LitmusChaosVerison = [], ClusterId = [], ClusterName = [], PodMetricFlag = False,
      ExternalIpEnable = False, ChaosAgentBinUrl = [], ChaosAgentSHUrl = [], ChaosBladeTarUrl = [],
      LitmusChartUrl = [], CertUrl = [], LocalIp = []\<rparr>"

definition NewOptions :: "(Options \<Rightarrow> string + Options) \<Rightarrow> string + Options" where
  "NewOptions parse =
     (case parse (AddFlags zero_Options) of
        Inl err \<Rightarrow> Inl err
      | Inr opts \<Rightarrow> if Help opts then Inl [] else Inr opts)"

text \<open>What the host answers: process id, host name, interfaces, shell and the agent's own file.\<close>

record host =
  h_goos :: string
  h_pid :: int
  h_hostname :: "string option"
  h_interfaces :: "string + iface list"
  h_shell :: shell
  h_appFile :: string
  h_order :: map_order

definition GetPid :: "host \<Rightarrow> string" where
  "GetPid h = Itoa (h_pid h)"

definition GetHostName :: "host \<Rightarrow> string" where
  "GetHostName h = (case h_hostname h of None \<Rightarrow> [] | Some n \<Rightarrow> n)"

text \<open>
  \<open>InitApplicationInfo\<close> takes the names by value: what it reads from the file is assigned to its
  parameters and dropped on return, so only the file can change.
\<close>

definition InitApplicationInfo :: "host \<Rightarrow> fs \<Rightarrow> string \<Rightarrow> string \<Rightarrow> fs" where
  "InitApplicationInfo h w appInstance appGroup =
     (if IsExist w (h_appFile h) \<and> appInstance = DefaultApplicationInstance \<and> appGroup = DefaultApplicationGroup
      then w
      else fst (RecordApplicationToFile (h_order h) (h_appFile h) w appInstance appGroup True))"

text \<open>\<open>SetOthersByFlags\<close>: the left value is the message with which the process exits.\<close>

definition SetOthersByFlags :: "host \<Rightarrow> fs \<Rightarrow> Options \<Rightarrow> fs \<times> (string + Options)" where
  "SetOthersByFlags h w opts =
     (let o1 = opts\<lparr>TransportConf := (TransportConf opts)\<lparr>tc_Environment := Environment opts\<rparr>,
                    Pid := GetPid h, IsVpc := False, VpcId := License opts, Uid := []\<rparr>;
          addr = (if LocalIp o1 \<noteq> []
                  then (if isValidIP (LocalIp o1) then Inr (LocalIp o1)
                        else Inl (''Invalid IP address specified: '' @ LocalIp o1 @ ''. Please provide a valid IPv4 address.''))
                  else GetPrivateIp (h_interfaces h))
      in case addr of
           Inl e \<Rightarrow> (w, Inl e)
         | Inr a \<Rightarrow>
             (let o2 = o1\<lparr>Ip := a, HostName := GetHostName h, InstanceId := GetHostName h, Version := ''1.1.0''\<rparr>;
                  w' = InitApplicationInfo h w (ApplicationInstance o2) (ApplicationGroup o2)
              in case GetChaosBladeVersion (h_goos h) (h_shell h) w' of
                   Inl e \<Rightarrow> (w', Inl (''Get chaosblade version failed, err: '' @ e))
                 | Inr v \<Rightarrow> (w', Inr (o2\<lparr>ChaosbladeVersion := v\<rparr>))))"

definition SetUid :: "string \<Rightarrow> Options \<Rightarrow> Options" where "SetUid uid opts = opts\<lparr>Uid := uid\<rparr>"
definition SetCid :: "string \<Rightarrow> Options \<Rightarrow> Options" where "SetCid cid opts = opts\<lparr>Cid := cid\<rparr>"

definition SetClusterIdIfNotPresent :: "string \<Rightarrow> Options \<Rightarrow> Options" where
  "SetClusterIdIfNotPresent clusterId opts =
     (if ClusterId opts \<noteq> [] then opts else opts\<lparr>ClusterId := clusterId\<rparr>)"

definition SetChaosBladeVersion :: "string \<Rightarrow> Options \<Rightarrow> Options" where
  "SetChaosBladeVersion v opts = opts\<lparr>ChaosbladeVersion := v\<rparr>"

definition IsK8sMode :: "Options \<Rightarrow> bool" where
  "IsK8sMode opts \<longleftrightarrow> AgentMode opts = AgentK8sMode \<or> AgentMode opts = AgentCSK8sMode
     \<or> AgentMode opts = AgentK8sHelmMode \<or> AgentMode opts = AgentCSK8sHelmMode"

definition IsHostMode :: "Options \<Rightarrow> bool" where
  "IsHostMode opts \<longleftrightarrow> AgentMode opts = AgentHostMode"

section \<open>The operations the blade command line may name\<close>

definition PrepareOperation :: "string \<Rightarrow> bool" where "PrepareOperation s \<longleftrightarrow> s = ''prepare'' \<or> s = ''p''"
definition CreateOperation :: "string \<Rightarrow> bool" where "CreateOperation s \<longleftrightarrow> s = ''create'' \<or> s = ''c''"
definition RevokeOperation :: "string \<Rightarrow> bool" where "RevokeOperation s \<longleftrightarrow> s = ''revoke'' \<or> s = ''r''"
definition DestroyOperation :: "string \<Rightarrow> bool" where "DestroyOperation s \<longleftrightarrow> s = ''destroy'' \<or> s = ''d''"
definition AsyncParamer :: "string \<Rightarrow> bool" where "AsyncParamer s \<longleftrightarrow> s = ''async'' \<or> s = ''a''"

lemmas operation_defs = PrepareOperation_def CreateOperation_def RevokeOperation_def DestroyOperation_def AsyncParamer_def

section \<open>Correctness of the address functions\<close>

lemma nat_str_octet:
  "b < 10 \<Longrightarrow> nat_str b = [digit b]"
  "10 \<le> b \<Longrightarrow> b < 100 \<Longrightarrow> nat_str b = [digit (b div 10), digit (b mod 10)]"
  "100 \<le> b \<Longrightarrow> b < 1000 \<Longrightarrow> nat_str b = [digit (b div 100), digit (b div 10 mod 10), digit (b mod 10)]"
proof -
  show one: "b < 10 \<Longrightarrow> nat_str b = [digit b]" for b by (simp add: nat_str.simps)
  have two: "10 \<le> b \<Longrightarrow> b < 100 \<Longrightarrow> nat_str b = [digit (b div 10), digit (b mod 10)]" for b
    using one [of "b div 10"] by (simp add: nat_str.simps [of b])
  then show "10 \<le> b \<Longrightarrow> b < 100 \<Longrightarrow> nat_str b = [digit (b div 10), digit (b mod 10)]" .
  show "100 \<le> b \<Longrightarrow> b < 1000 \<Longrightarrow> nat_str b = [digit (b div 100), digit (b div 10 mod 10), digit (b mod 10)]"
    using two [of "b div 10"] by (simp add: nat_str.simps [of b] div_mult2_eq [symmetric])
qed

text \<open>Reading one digit, and one printed octet.\<close>

lemma ipv4_fields_digit:
  "d < 10 \<Longrightarrow> k \<noteq> 1 \<or> n \<noteq> 0 \<Longrightarrow> n * 10 + d \<le> 255 \<Longrightarrow>
     ipv4_fields acc n k (digit d # s) = ipv4_fields acc (n * 10 + d) (Suc k) s"
  by (auto simp: digit_props)

lemma ipv4_fields_octet:
  assumes "b \<le> 255"
  shows "ipv4_fields acc 0 0 (nat_str b @ r) = ipv4_fields acc b (length (nat_str b)) r"
proof -
  consider "b < 10" | "10 \<le> b" "b < 100" | "100 \<le> b" "b < 1000" using assms by linarith
  then show ?thesis
  proof cases
    case 1
    then show ?thesis using ipv4_fields_digit [of b 0 0 acc r] by (simp add: nat_str_octet)
  next
    case 2
    have "ipv4_fields acc 0 0 (digit (b div 10) # digit (b mod 10) # r)
        = ipv4_fields acc (b div 10) 1 (digit (b mod 10) # r)"
      using 2 ipv4_fields_digit [of "b div 10" 0 0 acc] by simp
    also have "\<dots> = ipv4_fields acc (b div 10 * 10 + b mod 10) 2 r"
      using 2 assms by (subst ipv4_fields_digit) (auto simp: numeral_2_eq_2)
    finally show ?thesis using 2 by (simp add: nat_str_octet numeral_2_eq_2)
  next
    case 3
    have "b div 100 = b div 10 div 10" by (simp add: div_mult2_eq [symmetric])
    then have t: "b div 100 * 10 + b div 10 mod 10 = b div 10" by simp
    have "ipv4_fields acc 0 0 (digit (b div 100) # digit (b div 10 mod 10) # digit (b mod 10) # r)
        = ipv4_fields acc (b div 100) 1 (digit (b div 10 mod 10) # digit (b mod 10) # r)"
      using 3 assms ipv4_fields_digit [of "b div 100" 0 0 acc] by simp
    also have "\<dots> = ipv4_fields acc (b div 10) 2 (digit (b mod 10) # r)"
      using 3 assms t ipv4_fields_digit [of "b div 10 mod 10" 1 "b div 100" acc]
      by (simp add: numeral_2_eq_2 div_le_mono [of b 255 10, simplified])
    also have "\<dots> = ipv4_fields acc (b div 10 * 10 + b mod 10) 3 r"
      using 3 assms by (subst ipv4_fields_digit) (auto simp: numeral_3_eq_3)
    finally show ?thesis using 3 by (simp add: nat_str_octet numeral_3_eq_3)
  qed
qed

lemma digit_not_sep: "c \<in> set (nat_str b) \<Longrightarrow> c \<noteq> CHR ''.'' \<and> c \<noteq> CHR '':'' \<and> c \<noteq> CHR 0x25"
  using nat_str_digits [of c b] by (auto simp: is_digit_def)

lemma ParseIP_at_skip:
  "(\<And>c. c \<in> set ds \<Longrightarrow> c \<noteq> CHR ''.'' \<and> c \<noteq> CHR '':'' \<and> c \<noteq> CHR 0x25) \<Longrightarrow>
     ParseIP_at whole (ds @ CHR ''.'' # r) = parseIPv4 whole"
  by (induction ds) auto

definition octets :: "ip \<Rightarrow> bool" where
  "octets a \<longleftrightarrow> length a = 4 \<and> (\<forall>b \<in> set a. b \<le> 255)"

lemma ip4_string_octets: "octets [a, b, c, d] \<Longrightarrow>
    ip4_string [a, b, c, d] = nat_str a @ CHR ''.'' # nat_str b @ CHR ''.'' # nat_str c @ CHR ''.'' # nat_str d"
  by (simp add: ip4_string_def Itoa_def)

lemma ipv4_fields_string:
  assumes "octets [a, b, c, d]"
  shows "ipv4_fields [] 0 0 (ip4_string [a, b, c, d]) = Some [a, b, c, d]"
proof -
  have le: "a \<le> 255" "b \<le> 255" "c \<le> 255" "d \<le> 255" using assms by (auto simp: octets_def)
  have dot: "\<not> is_digit (CHR ''.'')" by (simp add: is_digit_def)
  have last: "ipv4_fields [a, b, c] 0 0 (nat_str d) = Some [a, b, c, d]"
    using ipv4_fields_octet [OF le(4), of _ "[]"] by simp
  show ?thesis
    unfolding ip4_string_octets [OF assms] using le last
    by (simp add: ipv4_fields_octet dot)
qed

text \<open>A printed four-byte address is read back as the same address.\<close>

lemma ParseIP_ip4_string:
  assumes "octets x"
  shows "ParseIP (ip4_string x) = Some (replicate 10 0 @ [255, 255] @ x)"
proof -
  obtain a b c d where x: "x = [a, b, c, d]"
    using assms by (auto simp: octets_def numeral_eq_Suc length_Suc_conv)
  have "ParseIP (ip4_string x) = parseIPv4 (ip4_string x)"
    unfolding ParseIP_def x ip4_string_octets [OF assms [unfolded x]]
    by (rule ParseIP_at_skip) (rule digit_not_sep)
  then show ?thesis using ipv4_fields_string [OF assms [unfolded x]] by (simp add: parseIPv4_def x)
qed

lemma isValidIP_ip4_string: "octets x \<Longrightarrow> isValidIP (ip4_string x)"
  by (auto simp: isValidIP_def ParseIP_ip4_string To4_def octets_def)

text \<open>
  The specification of \<open>GetPrivateIp\<close>: the IPv4 addresses of the interfaces that are up and not
  loopback, without the loopback addresses, in the order of the system.
\<close>

definition iface_candidates :: "iface \<Rightarrow> ip list" where
  "iface_candidates i =
     (if FlagUp i \<and> \<not> FlagLoopback i
      then (case Addrs i of
              Inl e \<Rightarrow> []
            | Inr as \<Rightarrow> map To4 (filter (\<lambda>a. a \<noteq> [] \<and> \<not> IsLoopback a \<and> To4 a \<noteq> []) as))
      else [])"

definition candidates :: "iface list \<Rightarrow> ip list" where
  "candidates ifs = concat (map iface_candidates ifs)"

lemma first_addr_spec:
  "first_addr as = (case map To4 (filter (\<lambda>a. a \<noteq> [] \<and> \<not> IsLoopback a \<and> To4 a \<noteq> []) as) of
     [] \<Rightarrow> None | x # xs \<Rightarrow> Some (ip4_string x))"
  by (induction as) auto

lemma candidates_Cons [simp]: "candidates [] = []" "candidates (i # ifs) = iface_candidates i @ candidates ifs"
  by (simp_all add: candidates_def)

lemma scan_ifaces_spec:
  "scan_ifaces ifs = (case candidates ifs of [] \<Rightarrow> None | x # xs \<Rightarrow> Some (ip4_string x))"
proof (induction ifs)
  case (Cons i ifs)
  have "scan_ifaces (i # ifs) =
      (case iface_candidates i of [] \<Rightarrow> scan_ifaces ifs | x # xs \<Rightarrow> Some (ip4_string x))"
    by (cases "Addrs i") (simp_all add: iface_candidates_def first_addr_spec split: list.split)
  with Cons show ?case by (cases "iface_candidates i") simp_all
qed simp

lemma To4_octets: "To4 a \<noteq> [] \<Longrightarrow> (\<forall>b \<in> set a. b \<le> 255) \<Longrightarrow> octets (To4 a)"
  by (auto simp: To4_def octets_def split: if_splits dest: in_set_dropD)

text \<open>
  the address the agent chooses for itself is the first candidate (an IPv4 address that is not a
  loopback, of an interface that is up and not the loopback interface), printed so that the
  agent's own \<open>isValidIP\<close> accepts it; the process exits exactly when there is no candidate.
\<close>

theorem GetPrivateIp_correct:
  assumes "\<forall>i \<in> set ifs. \<forall>as. Addrs i = Inr as \<longrightarrow> (\<forall>a \<in> set as. \<forall>b \<in> set a. b \<le> 255)"
  shows "case candidates ifs of
      [] \<Rightarrow> \<exists>e. GetPrivateIp (Inr ifs) = Inl e
    | x # xs \<Rightarrow> GetPrivateIp (Inr ifs) = Inr (ip4_string x) \<and> isValidIP (ip4_string x) \<and> \<not> IsLoopback x"
proof (cases "candidates ifs")
  case Nil
  then show ?thesis by (simp add: GetPrivateIp_def scan_ifaces_spec)
next
  case (Cons x xs)
  then have "x \<in> set (candidates ifs)" by simp
  then obtain i as a where i: "i \<in> set ifs" "Addrs i = Inr as" "a \<in> set as" "To4 a \<noteq> []" "\<not> IsLoopback a" "x = To4 a"
    by (auto simp: candidates_def iface_candidates_def split: if_splits sum.splits) metis
  then have o4: "octets x" using assms To4_octets by blast
  then have "To4 x = x" by (simp add: To4_def octets_def)
  with i have "\<not> IsLoopback x" by (auto simp: IsLoopback_def)
  with Cons o4 show ?thesis by (simp add: GetPrivateIp_def scan_ifaces_spec isValidIP_ip4_string)
qed

definition sample_ifaces :: "iface list" where
  "sample_ifaces =
     [\<lparr>FlagUp = True, FlagLoopback = True, Addrs = Inr [[127, 0, 0, 1]]\<rparr>,
      \<lparr>FlagUp = False, FlagLoopback = False, Addrs = Inr [[10, 0, 0, 9]]\<rparr>,
      \<lparr>FlagUp = True, FlagLoopback = False, Addrs = Inr [replicate 15 0 @ [1], [10, 0, 0, 7]]\<rparr>]"

theorem GetPrivateIp_correct_witness:
  "GetPrivateIp (Inr sample_ifaces) = Inr ''10.0.0.7'' \<and> isValidIP ''10.0.0.7''"
proof -
  have c: "candidates sample_ifaces = [[10, 0, 0, 7]]" "ip4_string [10, 0, 0, 7] = ''10.0.0.7''"
    by (simp_all add: iface_candidates_def sample_ifaces_def IsLoopback_def To4_def ip4_string_def
        Itoa_def nat_str_octet digit_def char_of_eq_iff replicate_unroll)
  show ?thesis using GetPrivateIp_correct [of sample_ifaces] unfolding c list.case c
    by (simp add: sample_ifaces_def)
qed

text \<open>
  \<open>isValidIP\<close> also accepts an IPv6 text that maps an IPv4 address, which the comment of the
  function rules out: the agent then reports that IPv6 text as its address.
\<close>

theorem isValidIP_mapped: "isValidIP ''::ffff:10.0.0.7'' \<and> \<not> isValidIP ''fe80::1''"
  by (simp add: isValidIP_def ParseIP_def parseIPv6_def hex_group_def is_hex_def hex_val_def hex_number_def
      To4_def is_digit_def digit_val_def ipv6_unroll replicate_unroll)

section \<open>Correctness of the version parser\<close>

lemma head_field: "Fields s = v # vs \<Longrightarrow> v \<noteq> [] \<and> (\<forall>c \<in> set v. \<not> ascii_space c)"
  using Fields_words [of v s] by simp

lemma version_of_line_word:
  "version_of_line norm p l = Some v \<Longrightarrow>
     prefix p (norm (TrimSpace l)) \<and> v \<noteq> [] \<and> (\<forall>c \<in> set v. \<not> ascii_space c)"
  by (auto simp: version_of_line_def Let_def split: if_splits list.splits dest!: head_field)

lemma first_version_line:
  "first_version norm p ls = Some v \<Longrightarrow> \<exists>l \<in> set ls. version_of_line norm p l = Some v"
  by (induction ls) (auto split: option.splits)

lemma first_version_None:
  "first_version norm p ls = None \<longleftrightarrow> (\<forall>l \<in> set ls. version_of_line norm p l = None)"
  by (induction ls) (auto split: option.splits)

text \<open>
  a version the parser returns is a non-empty word without white space, taken from a line of the
  output that starts with \<open>version:\<close> in some case; a line that starts with \<open>Version:\<close> wins over
  every other one.
\<close>

theorem parseVersionFromOutput_word:
  assumes "parseVersionFromOutput output = Inr v"
  shows "v \<noteq> [] \<and> (\<forall>c \<in> set v. \<not> ascii_space c)
    \<and> (\<exists>l \<in> set (Split (CHR 0x0A) (TrimSpace output)).
         version_of_line id ''Version:'' l = Some v
         \<or> version_of_line ToLower ''version:'' l = Some v
           \<and> (\<forall>l' \<in> set (Split (CHR 0x0A) (TrimSpace output)). version_of_line id ''Version:'' l' = None))"
proof -
  let ?ls = "Split (CHR 0x0A) (TrimSpace output)"
  have "first_version id ''Version:'' ?ls = Some v \<or>
      first_version id ''Version:'' ?ls = None \<and> first_version ToLower ''version:'' ?ls = Some v"
    using assms by (auto simp: parseVersionFromOutput_def Let_def split: if_splits option.splits)
  then show ?thesis
    using version_of_line_word first_version_line first_version_None by metis
qed

theorem parseVersionFromOutput_word_witness:
  "parseVersionFromOutput (''version: 1'' @ [CHR 0x0A] @ ''Version:   1.8.0 x'') = Inr ''1.8.0''
   \<and> ''1.8.0'' \<noteq> [] \<and> list_all (\<lambda>c. \<not> ascii_space c) ''1.8.0''"
proof -
  have r: "parseVersionFromOutput (''version: 1'' @ [CHR 0x0A] @ ''Version:   1.8.0 x'') = Inr ''1.8.0''"
    by code_simp
  from parseVersionFromOutput_word [OF r] r show ?thesis by (simp only: list_all_iff) blast
qed

section \<open>Start of the agent\<close>

text \<open>
  whatever the application file holds, the names the agent runs with are those of its flags: a
  start with the default flags leaves the file as it is and keeps the defaults, so a name recorded
  by an earlier start (or by \<open>updateApplication\<close>) is not taken up.
\<close>

theorem SetOthersByFlags_application:
  assumes "SetOthersByFlags h w opts = (w', Inr opts')"
  shows "ApplicationInstance opts' = ApplicationInstance opts \<and> ApplicationGroup opts' = ApplicationGroup opts
    \<and> (IsExist w (h_appFile h) \<and> ApplicationInstance opts = DefaultApplicationInstance
        \<and> ApplicationGroup opts = DefaultApplicationGroup \<longrightarrow> w' = w)"
  using assms
  by (auto simp: SetOthersByFlags_def Let_def InitApplicationInfo_def split: sum.splits if_splits)

definition sample_host :: host where
  "sample_host = \<lparr>h_goos = ''linux'', h_pid = 7, h_hostname = Some ''n1'', h_interfaces = Inr sample_ifaces,
     h_shell = (\<lambda>c. (''version: 1.7.3'', None)), h_appFile = ''/app'', h_order = id\<rparr>"

definition sample_fs :: fs where
  "sample_fs = plain_fs\<lparr>content := [''/app'' \<mapsto> ''appInstance=web'' @ CHR 0x0A # ''appGroup=shop'', BladeBinPath \<mapsto> []]\<rparr>"

lemma sample_blade_path: "BladeBinPath = ''/opt/chaosblade/blade''"
  by code_simp

lemma sample_SetOthersByFlags:
  "\<exists>o2. SetOthersByFlags sample_host sample_fs ((AddFlags zero_Options)\<lparr>TransportConf := tc\<rparr>) = (sample_fs, Inr o2) \<and> Endpoint (TransportConf o2) = Endpoint tc"
proof -
  have v: "parseVersionFromOutput ''version: 1.7.3'' = Inr ''1.7.3''" by code_simp
  have g: "GetPrivateIp (Inr sample_ifaces) = Inr ''10.0.0.7''"
    by (simp add: GetPrivateIp_def scan_ifaces_spec iface_candidates_def sample_ifaces_def IsLoopback_def To4_def
        ip4_string_def Itoa_def nat_str_octet digit_def char_of_eq_iff replicate_unroll)
  have e: "IsExist sample_fs BladeBinPath" "IsExist sample_fs ''/app''" by (simp_all add: IsExist_def sample_fs_def sample_blade_path)
  have m: "GetChaosBladeVersion ''linux'' (h_shell sample_host) sample_fs = Inr ''1.7.3''"
    using e v by (simp add: GetChaosBladeVersion_def ExecScript_def IsWindows_def sample_host_def)
  show ?thesis
    using g m e by (simp add: SetOthersByFlags_def Let_def AddFlags_def InitApplicationInfo_def sample_host_def)
qed

theorem SetOthersByFlags_application_witness:
  "\<exists>opts'. SetOthersByFlags sample_host sample_fs (AddFlags zero_Options) = (sample_fs, Inr opts')
     \<and> ReadAppInfoFromFile sample_fs ''/app'' = Inr (''web'', ''shop'')
     \<and> ApplicationInstance opts' = ''chaos-default-app'' \<and> ApplicationGroup opts' = ''chaos-default-app-group''"
proof -
  have r: "ReadAppInfoFromFile sample_fs ''/app'' = Inr (''web'', ''shop'')"
  proof -
    have "Split (CHR 0x0A) (TrimSpace (''appInstance=web'' @ CHR 0x0A # ''appGroup=shop'')) = [''appInstance=web'', ''appGroup=shop'']"
      by code_simp
    then show ?thesis
      by (simp add: ReadAppInfoFromFile_def ReadFile_def sample_fs_def plain_fs_def sample_blade_path AppInstanceKeyName_def AppGroupKeyName_def)
  qed
  have "(AddFlags zero_Options)\<lparr>TransportConf := TransportConf (AddFlags zero_Options)\<rparr> = AddFlags zero_Options" by simp
  then obtain opts' where s: "SetOthersByFlags sample_host sample_fs (AddFlags zero_Options) = (sample_fs, Inr opts')"
    using sample_SetOthersByFlags [of "TransportConf (AddFlags zero_Options)"] by auto
  from SetOthersByFlags_application [OF s] s r show ?thesis
    by (simp add: AddFlags_def option_consts)
qed

text \<open>The address the agent starts with: the one of the flag, checked, or the first candidate.\<close>

lemma SetOthersByFlags_ip:
  assumes "SetOthersByFlags h w opts = (w', Inr opts')"
  shows "if LocalIp opts \<noteq> [] then Ip opts' = LocalIp opts \<and> isValidIP (Ip opts')
    else GetPrivateIp (h_interfaces h) = Inr (Ip opts')"
  using assms by (auto simp: SetOthersByFlags_def Let_def split: sum.splits if_splits)

lemma modes_exclusive: "\<not> (IsK8sMode opts \<and> IsHostMode opts)"
  by (auto simp: IsK8sMode_def IsHostMode_def option_consts)

end
