(* ===== verification/Agent_Transport.thy ===== *)
theory Agent_Transport
  imports Agent_Options
begin

text \<open>
  Packages \<open>transport\<close> and \<open>pkg/http\<close>: requests and responses with their JSON forms, the chain of
  interceptors that stamps and signs an outgoing request and checks an incoming one, the client's
  \<open>Invoke\<close> and the HTTP channel. The clock, the fresh request id and the network are arguments.
\<close>

section \<open>Requests\<close>

record Request =
  Headers :: gomap
  Params :: gomap

definition AddHeader :: "string \<Rightarrow> string \<Rightarrow> Request \<Rightarrow> Request go" where
  "AddHeader key value request =
     (if key \<noteq> [] then map_option (\<lambda>m. request\<lparr>Headers := m\<rparr>) (gset key value (Headers request)) else Some request)"

definition AddParam :: "string \<Rightarrow> string \<Rightarrow> Request \<Rightarrow> Request go" where
  "AddParam key value request =
     (if key \<noteq> [] then map_option (\<lambda>m. request\<lparr>Params := m\<rparr>) (gset key value (Params request)) else Some request)"

definition ProgramName :: string where "ProgramName = ''CHAOS_AGENT''"

definition NewRequest :: "Options \<Rightarrow> Request go" where
  "NewRequest opts =
     do {
       r \<leftarrow> AddHeader ''FR'' ''C'' \<lparr>Headers = Some [], Params = Some []\<rparr>;
       r \<leftarrow> AddHeader ''pid'' (Pid opts) r;
       r \<leftarrow> AddHeader ''uid'' (Uid opts) r;
       r \<leftarrow> (if Cid opts \<noteq> [] then AddHeader ''cid'' (Cid opts) r else Some r);
       r \<leftarrow> AddHeader ''type'' ProgramName r;
       r \<leftarrow> AddHeader ''v'' (Version opts) r;
       r \<leftarrow> AddHeader ''cbv'' (ChaosbladeVersion opts) r;
       AddParam ''port'' (Port opts) r
     }"

text \<open>Copying a map into another, entry by entry.\<close>

definition copy_into :: "(string \<times> string) list \<Rightarrow> gomap \<Rightarrow> (string \<times> string) list" where
  "copy_into body m = foldl (\<lambda>b (k, v). AList.update k v b) body (case m of None \<Rightarrow> [] | Some al \<Rightarrow> al)"

definition GetBody :: "Request \<Rightarrow> gomap" where
  "GetBody request = Some (copy_into (copy_into [] (Headers request)) (Params request))"

section \<open>Addresses of the server's handlers\<close>

record Uri =
  ServerName :: string
  HandlerName :: string
  u_VpcId :: string
  u_Ip :: string
  u_Pid :: string
  Tag :: string
  RequestId :: string
  CompressVersion :: string

definition NewUri :: "Options \<Rightarrow> string \<Rightarrow> string \<Rightarrow> Uri" where
  "NewUri opts serverName handlerName =
     \<lparr>ServerName = serverName, HandlerName = handlerName, u_VpcId = VpcId opts, u_Ip = Ip opts,
      u_Pid = Pid opts, Tag = ProgramName, RequestId = [], CompressVersion = Itoa 1\<rparr>"

definition API_REGISTRY :: string where "API_REGISTRY = ''registry''"
definition API_HEARTBEAT :: string where "API_HEARTBEAT = ''heartbeat''"
definition API_CLOSE :: string where "API_CLOSE = ''close''"
definition API_CHAOSBLADE_ASYNC :: string where "API_CHAOSBLADE_ASYNC = ''chaosbladeAsync''"
definition API_JAVA_INSTALL :: string where "API_JAVA_INSTALL = ''javaInstall''"
definition API_JAVA_UNINSTALL :: string where "API_JAVA_UNINSTALL = ''javaUninstall''"
definition API_K8S_POD :: string where "API_K8S_POD = ''k8sPod''"
definition API_METRIC :: string where "API_METRIC = ''metric''"
definition API_EVENT :: string where "API_EVENT = ''event''"

lemmas api_consts = API_REGISTRY_def API_HEARTBEAT_def API_CLOSE_def API_CHAOSBLADE_ASYNC_def
  API_JAVA_INSTALL_def API_JAVA_UNINSTALL_def API_K8S_POD_def API_METRIC_def API_EVENT_def

definition InitTransprotUri :: "Options \<Rightarrow> (string \<rightharpoonup> Uri)" where
  "InitTransprotUri opts =
     [API_REGISTRY \<mapsto> NewUri opts ''Chaos'' ''chaos/AgentRegister'',
      API_HEARTBEAT \<mapsto> NewUri opts ''Chaos'' ''chaos/AgentHeartBeat'',
      API_CLOSE \<mapsto> NewUri opts ''Chaos'' ''chaos/AgentClosed'',
      API_CHAOSBLADE_ASYNC \<mapsto> NewUri opts ''Chaos'' ''chaos/chaosbladeAsync'',
      API_JAVA_INSTALL \<mapsto> NewUri opts ''Chaos'' ''chaos/javaAgentInstall'',
      API_JAVA_UNINSTALL \<mapsto> NewUri opts ''Chaos'' ''chaos/javaAgentUninstall'',
      API_K8S_POD \<mapsto> NewUri opts ''Chaos'' ''chaos/k8sPod'']"

section \<open>Responses\<close>

text \<open>The \<open>interface{}\<close> of a result is its JSON form; nil is \<^const>\<open>JNull\<close>.\<close>

record Response =
  Code :: int
  Success :: bool
  Error :: string
  Result :: json

definition OK :: int where "OK = 200"
definition InvalidTimestamp :: int where "InvalidTimestamp = 401"
definition Forbidden :: int where "Forbidden = 403"
definition HandlerNotFound :: int where "HandlerNotFound = 404"
definition TokenNotFound :: int where "TokenNotFound = 405"
definition ParameterEmpty :: int where "ParameterEmpty = 406"
definition ParameterLess :: int where "ParameterLess = 407"
definition ParameterTypeError :: int where "ParameterTypeError = 408"
definition ServerError :: int where "ServerError = 500"
definition ServiceNotOpened :: int where "ServiceNotOpened = 501"
definition ServiceNotAuthorized :: int where "ServiceNotAuthorized = 502"
definition EncodeError :: int where "EncodeError = 503"
definition ServiceSwitchError :: int where "ServiceSwitchError = 504"
definition HandlerClosed :: int where "HandlerClosed = 505"
definition ServiceNotSupport :: int where "ServiceNotSupport = 506"
definition CtlFileNotFound :: int where "CtlFileNotFound = 507"
definition CtlExecFailed :: int where "CtlExecFailed = 508"
definition ChaosbladeFileNotFound :: int where "ChaosbladeFileNotFound = 600"
definition ResultUnmarshalFailed :: int where "ResultUnmarshalFailed = 601"
definition Helm3ExecError :: int where "Helm3ExecError = 602"

lemmas code_consts = OK_def InvalidTimestamp_def Forbidden_def HandlerNotFound_def TokenNotFound_def
  ParameterEmpty_def ParameterLess_def ParameterTypeError_def ServerError_def ServiceNotOpened_def
  ServiceNotAuthorized_def EncodeError_def ServiceSwitchError_def HandlerClosed_def ServiceNotSupport_def
  CtlFileNotFound_def CtlExecFailed_def ChaosbladeFileNotFound_def ResultUnmarshalFailed_def Helm3ExecError_def

definition Errors :: "int \<Rightarrow> string" where
  "Errors c =
     (if c = OK then ''success''
      else if c = InvalidTimestamp then ''invalid timestamp''
      else if c = Forbidden then ''forbidden, err: %s''
      else if c = HandlerNotFound then ''request handler not found''
      else if c = TokenNotFound then ''access token not found''
      else if c = ParameterEmpty then ''`%s`: parameter is empty''
      else if c = ParameterLess then ''`%s`: parameter less''
      else if c = ParameterTypeError then ''`%s` parameter data error''
      else if c = ServerError then ''server error, err: %s''
      else if c = ServiceNotOpened then ''chaos service not opened''
      else if c = ServiceNotAuthorized then ''chaos service not authorized''
      else if c = EncodeError then ''encode error, err: %s''
      else if c = ServiceSwitchError then ''service switch error, err: %s''
      else if c = HandlerClosed then ''service handler closed''
      else if c = ServiceNotSupport then ''service not support: %s''
      else if c = CtlFileNotFound then ''`%s`: ctl file not found''
      else if c = CtlExecFailed then ''exec ctl file failed: %s''
      else if c = ChaosbladeFileNotFound then BladeBinPath @ '', chaosblade file not found''
      else if c = ResultUnmarshalFailed then ''`%s`: exec result unmarshal failed, err: %s''
      else if c = Helm3ExecError then ''helm3 exec error, err: %s''
      else [])"

text \<open>
  \<open>fmt.Sprintf(format, args)\<close> where the one operand is the slice \<open>args\<close> itself, printed as \<open>a\<close>: the
  first \<open>%s\<close> takes it, a further one is missing, and an operand no verb used is reported.
\<close>

fun sprintf_slice :: "string \<Rightarrow> bool \<Rightarrow> string \<Rightarrow> string" where
  "sprintf_slice a used [] = (if used then [] else ''%!(EXTRA []interface {}='' @ a @ '')'')"
| "sprintf_slice a used [c] = c # sprintf_slice a used []"
| "sprintf_slice a used (c # d # r) =
     (if c = CHR ''%'' \<and> d = CHR ''s''
      then (if used then ''%!s(MISSING)'' else a) @ sprintf_slice a True r
      else c # sprintf_slice a used (d # r))"

definition ReturnFail :: "int \<Rightarrow> string list \<Rightarrow> Response" where
  "ReturnFail errCode args =
     \<lparr>Code = errCode, Success = False,
      Error = sprintf_slice (''['' @ Join '' '' args @ '']'') False (Errors errCode), Result = JNull\<rparr>"

definition ReturnSuccess :: Response where
  "ReturnSuccess = \<lparr>Code = OK, Success = True, Error = [], Result = JStr ''success''\<rparr>"

definition ReturnSuccessWithResult :: "json \<Rightarrow> Response" where
  "ReturnSuccessWithResult result = \<lparr>Code = OK, Success = True, Error = [], Result = result\<rparr>"

section \<open>JSON forms\<close>

definition json_of_request :: "Request \<Rightarrow> json" where
  "json_of_request r = JObj [(''headers'', json_of_map (Headers r)), (''params'', json_of_map (Params r))]"

definition zero_Request :: Request where "zero_Request = \<lparr>Headers = None, Params = None\<rparr>"

definition request_member :: "Request \<times> bool \<Rightarrow> string \<times> json \<Rightarrow> Request \<times> bool" where
  "request_member st kv =
     (case (st, kv) of ((r, ok), (k, v)) \<Rightarrow>
        if EqualFold k ''headers'' then
          (case decode_string_map (Headers r) v of (m, b) \<Rightarrow> (r\<lparr>Headers := m\<rparr>, ok \<and> b))
        else if EqualFold k ''params'' then
          (case decode_string_map (Params r) v of (m, b) \<Rightarrow> (r\<lparr>Params := m\<rparr>, ok \<and> b))
        else (r, ok))"

text \<open>
  \<open>json.Unmarshal\<close> into a \<open>Request\<close>: the request afterwards and whether no error is returned. The keys
  match the tags up to case, unknown ones are skipped.
\<close>

definition unmarshal_request :: "string \<Rightarrow> Request \<times> bool" where
  "unmarshal_request s =
     (case json_parse s of
        None \<Rightarrow> (zero_Request, False)
      | Some JNull \<Rightarrow> (zero_Request, True)
      | Some (JObj kvs) \<Rightarrow> foldl request_member (zero_Request, True) kvs
      | Some _ \<Rightarrow> (zero_Request, False))"

definition json_of_response :: "Response \<Rightarrow> json" where
  "json_of_response r =
     JObj [(''Code'', JNum (Itoa (Code r))), (''Success'', JBool (Success r)), (''Error'', JStr (Error r)),
           (''Result'', Result r)]"

definition zero_Response :: Response where
  "zero_Response = \<lparr>Code = 0, Success = False, Error = [], Result = JNull\<rparr>"

text \<open>A number into an \<open>int32\<close>: an integer literal in range.\<close>

definition lit_int32 :: "string \<Rightarrow> int option" where
  "lit_int32 l =
     (case ParseInt l of
        (n, None) \<Rightarrow> if - (2 ^ 31) \<le> n \<and> n < 2 ^ 31 then Some n else None
      | (n, Some e) \<Rightarrow> None)"

definition response_member :: "Response \<times> bool \<Rightarrow> string \<times> json \<Rightarrow> Response \<times> bool" where
  "response_member st kv =
     (case (st, kv) of ((r, ok), (k, v)) \<Rightarrow>
        if EqualFold k ''Code'' then
          (case v of
             JNull \<Rightarrow> (r, ok)
           | JNum l \<Rightarrow> (case lit_int32 l of Some n \<Rightarrow> (r\<lparr>Code := n\<rparr>, ok) | None \<Rightarrow> (r, False))
           | _ \<Rightarrow> (r, False))
        else if EqualFold k ''Success'' then
          (case v of JNull \<Rightarrow> (r, ok) | JBool b \<Rightarrow> (r\<lparr>Success := b\<rparr>, ok) | _ \<Rightarrow> (r, False))
        else if EqualFold k ''Error'' then
          (case v of JNull \<Rightarrow> (r, ok) | JStr s \<Rightarrow> (r\<lparr>Error := s\<rparr>, ok) | _ \<Rightarrow> (r, False))
        else if EqualFold k ''Result'' then (r\<lparr>Result := v\<rparr>, ok \<and> floats_ok v)
        else (r, ok))"

text \<open>\<open>json.Unmarshal\<close> into a \<open>Response\<close> that already holds \<open>r\<close>.\<close>

definition unmarshal_response_into :: "Response \<Rightarrow> string \<Rightarrow> Response \<times> bool" where
  "unmarshal_response_into r s =
     (case json_parse s of
        None \<Rightarrow> (r, False)
      | Some JNull \<Rightarrow> (r, True)
      | Some (JObj kvs) \<Rightarrow> foldl response_member (r, True) kvs
      | Some _ \<Rightarrow> (r, False))"

definition unmarshal_response :: "string \<Rightarrow> Response \<times> bool" where
  "unmarshal_response s = unmarshal_response_into zero_Response s"

section \<open>Interceptors\<close>

datatype doRequestInterceptor = authInterceptor | timestampInterceptor

datatype requestInterceptorChain = Chain doRequestInterceptor "requestInterceptorChain option"

definition SignData :: string where "SignData = ''sd''"
definition AccessKey :: string where "AccessKey = ''ak''"
definition SignKey :: string where "SignKey = ''sn''"
definition TimestampKey :: string where "TimestampKey = ''ts''"

lemmas header_consts = SignData_def AccessKey_def SignKey_def TimestampKey_def

text \<open>\<open>json.Marshal(request.Params)\<close>; it does not fail on a map of strings.\<close>

definition marshal_params :: "Request \<Rightarrow> string" where
  "marshal_params r = json_print (json_of_map (Params r))"

definition sign_data :: "Request \<Rightarrow> string" where
  "sign_data r = (if gget (Headers r) SignData = [] then marshal_params r else gget (Headers r) SignData)"

text \<open>A check of an incoming request: \<^const>\<open>None\<close> lets it pass.\<close>

fun doHandler :: "keystore \<Rightarrow> doRequestInterceptor \<Rightarrow> Request \<Rightarrow> Response option" where
  "doHandler ks authInterceptor request =
     (let sign = gget (Headers request) SignKey;
          accessKey = gget (Headers request) AccessKey
      in if sign = [] then Some (ReturnFail Forbidden [''missing sign''])
         else if accessKey \<noteq> [] \<and> accessKey \<noteq> GetAccessKey ks
         then Some (ReturnFail Forbidden [''accessKey not matched''])
         else if \<not> Auth ks sign (sign_data request) then Some (ReturnFail Forbidden [''illegal request''])
         else None)"
| "doHandler ks timestampInterceptor request =
     (let requestTime = gget (Params request) TimestampKey
      in if requestTime = [] then Some (ReturnFail InvalidTimestamp [])
         else if snd (ParseInt requestTime) \<noteq> None then Some (ReturnFail InvalidTimestamp [])
         else None)"

text \<open>\<open>time.Now().UnixNano() / 1000\<close>, with the truncating division of Go.\<close>

definition getCurrentTimeInMillis :: "int \<Rightarrow> int" where
  "getCurrentTimeInMillis unixNano = go_quot unixNano 1000"

text \<open>The work on an outgoing request, which it changes in place.\<close>

fun doInvoker :: "keystore \<Rightarrow> int \<Rightarrow> doRequestInterceptor \<Rightarrow> Request \<Rightarrow> (Request \<times> Response option) go" where
  "doInvoker ks now authInterceptor request =
     (if GetAccessKey ks = [] \<or> GetSecureKey ks = [] then Some (request, Some (ReturnFail TokenNotFound []))
      else do {
        r \<leftarrow> AddHeader AccessKey (GetAccessKey ks) request;
        r \<leftarrow> AddHeader SignKey (Sign ks (sign_data r)) r;
        Some (r, None)
      })"
| "doInvoker ks now timestampInterceptor request =
     do {
       r \<leftarrow> AddParam TimestampKey (Itoa (getCurrentTimeInMillis now)) request;
       Some (r, None)
     }"

fun Handle :: "keystore \<Rightarrow> requestInterceptorChain \<Rightarrow> Request \<Rightarrow> Response option" where
  "Handle ks (Chain d rest) request =
     (case doHandler ks d request of
        Some response \<Rightarrow> Some response
      | None \<Rightarrow> (case rest of None \<Rightarrow> None | Some c \<Rightarrow> Handle ks c request))"

fun chain_Invoke :: "keystore \<Rightarrow> int \<Rightarrow> requestInterceptorChain \<Rightarrow> Request \<Rightarrow> (Request \<times> Response option) go" where
  "chain_Invoke ks now (Chain d rest) request =
     (case doInvoker ks now d request of
        None \<Rightarrow> None
      | Some (r, Some response) \<Rightarrow> Some (r, Some response)
      | Some (r, None) \<Rightarrow> (case rest of None \<Rightarrow> Some (r, None) | Some c \<Rightarrow> chain_Invoke ks now c r))"

definition BuildInterceptor :: requestInterceptorChain where
  "BuildInterceptor = Chain timestampInterceptor (Some (Chain authInterceptor None))"

section \<open>The client\<close>

text \<open>
  \<open>TransportClient.Invoke\<close>: the request as it was left, and the pair of response and error. The
  channel is the function \<open>DoInvoker\<close> of the transport; \<open>uuid\<close> is the fresh request id. A fixed text
  stands for the message of a decoding error.
\<close>

type_synonym channel = "Uri \<Rightarrow> string \<Rightarrow> string + string"

definition Invoke ::
  "keystore \<Rightarrow> int \<Rightarrow> string \<Rightarrow> channel \<Rightarrow> Uri \<Rightarrow> Request \<Rightarrow> bool \<Rightarrow> (Request \<times> Response option \<times> string option) go" where
  "Invoke ks now uuid chan uri request needInterceptor =
     (case (if needInterceptor then chain_Invoke ks now BuildInterceptor request else Some (request, None)) of
        None \<Rightarrow> None
      | Some (r, Some response) \<Rightarrow> Some (r, Some response, Some (Error response))
      | Some (r, None) \<Rightarrow>
          do {
            r \<leftarrow> AddHeader ''rid'' uuid r;
            Some (r,
              (case chan (uri\<lparr>RequestId := uuid\<rparr>) (json_print (json_of_request r)) of
                 Inl err \<Rightarrow> (None, Some err)
               | Inr result \<Rightarrow>
                   (case unmarshal_response result of
                      (response, True) \<Rightarrow> (Some response, None)
                    | (response, False) \<Rightarrow> (None, Some ''invalid response''))))
          })"

section \<open>The HTTP channel\<close>

record ServerConfig =
  ClientVpcId :: string
  ClientIp :: string
  ClientProcessFlag :: string
  ServerIp :: string
  ServerPort :: nat
  sc_Timeout :: int

record HttpClient =
  Config :: ServerConfig
  timeout_ms :: nat
  hc_url :: string

text \<open>The escaping of a host by \<open>url.URL.String\<close>.\<close>

definition host_byte :: "char \<Rightarrow> bool" where
  "host_byte c \<longleftrightarrow> 97 \<le> byte c \<and> byte c \<le> 122 \<or> 65 \<le> byte c \<and> byte c \<le> 90 \<or> is_digit c
     \<or> c \<in> set (''!$&()*+,;=:[]<>-_.~'' @ [CHR 0x27, CHR 0x22])"

definition upper_hex :: "nat \<Rightarrow> char" where
  "upper_hex n = (if n < 10 then char_of (48 + n) else char_of (55 + n))"

definition escape_host :: "string \<Rightarrow> string" where
  "escape_host h =
     concat (map (\<lambda>c. if host_byte c then [c] else [CHR ''%'', upper_hex (byte c div 16), upper_hex (byte c mod 16)]) h)"

definition GetDirectInstance :: "ServerConfig \<Rightarrow> HttpClient" where
  "GetDirectInstance config =
     \<lparr>Config = config, timeout_ms = nat (go_quot (sc_Timeout config) 1000000 mod 2 ^ 32),
      hc_url = ''http://'' @ escape_host (ServerIp config @ '':'' @ nat_str (ServerPort config))\<rparr>"

text \<open>\<open>NewHttpClient\<close>: the error of \<open>strconv.Atoi\<close> is dropped, its value wraps to 32 bits.\<close>

definition NewHttpClient :: "Options \<Rightarrow> TransportConfig \<Rightarrow> string + HttpClient" where
  "NewHttpClient opts config =
     (if Endpoint config = [] then Inl ''transport endpoint is empty''
      else (let hostAndPort = SplitN2 (CHR '':'') (Endpoint config);
                port = (case hostAndPort of [h, p] \<Rightarrow> fst (ParseInt p) | _ \<Rightarrow> 80)
            in Inr (GetDirectInstance
                 \<lparr>ClientVpcId = VpcId opts, ClientIp = Ip opts, ClientProcessFlag = ProgramName,
                  ServerIp = hd hostAndPort, ServerPort = nat (port mod 2 ^ 32), sc_Timeout = Timeout config\<rparr>)))"

text \<open>
  The network: whether \<open>http.NewRequest\<close> refuses the address, and the answer to a POST: an error, or
  the status with what could be read of the body and the error of reading it.
\<close>

record network =
  bad_url :: "string \<Rightarrow> string option"
  post :: "string \<Rightarrow> string \<Rightarrow> string + int \<times> string \<times> string option"

definition DoInvoker :: "network \<Rightarrow> HttpClient \<Rightarrow> channel" where
  "DoInvoker net hc uri jsonParam =
     (let request = fst (unmarshal_request jsonParam);
          reqBody = json_print (json_of_map (GetBody request));
          url = hc_url hc @ ''/'' @ HandlerName uri
      in case bad_url net url of
           Some err \<Rightarrow> Inl err
         | None \<Rightarrow>
             (case post net url reqBody of
                Inl err \<Rightarrow> Inl err
              | Inr (status, result, readErr) \<Rightarrow>
                  if status \<noteq> 200 then
                    (if readErr \<noteq> None
                     then Inl (''direct http call '' @ HandlerName uri @ '' and read message from response failed'')
                     else Inl (''direct http call '' @ HandlerName uri @ '' failed, code: '' @ Itoa status @ '', body: '' @ result))
                  else Inr result))"

section \<open>Requests and their JSON form\<close>

definition request_ok :: "Request \<Rightarrow> bool" where
  "request_ok r \<longleftrightarrow> gomap_ok (Headers r) \<and> gomap_ok (Params r) \<and> gomap_utf8 (Headers r) \<and> gomap_utf8 (Params r)"

definition sort_request :: "Request \<Rightarrow> Request" where
  "sort_request r = \<lparr>Headers = gosort (Headers r), Params = gosort (Params r)\<rparr>"

lemma fold_case_fields [simp]:
  "EqualFold ''headers'' ''headers''" "\<not> EqualFold ''params'' ''headers''" "EqualFold ''params'' ''params''"
  by (simp_all add: EqualFold_def ascii_lower_def)

text \<open>A request survives encoding and decoding, up to the order of its maps.\<close>

lemma unmarshal_json_of_request:
  assumes "request_ok r"
  shows "unmarshal_request (json_print (json_of_request r)) = (sort_request r, True)"
proof -
  let ?H = "json_of_map (Headers r)" and ?P = "json_of_map (Params r)"
  have "valid_utf8 ''headers''" "valid_utf8 ''params''" by (auto intro!: valid_utf8_ascii)
  then have wf: "wf_json (json_of_request r)"
    using assms by (simp add: json_of_request_def request_ok_def wf_json_of_map)
  have "json_depth (json_of_request r) \<le> max_depth"
    using json_depth_of_map [of "Headers r"] json_depth_of_map [of "Params r"]
    by (simp add: json_of_request_def max_depth_def)
  with wf have "json_parse (json_print (json_of_request r)) = Some (json_of_request r)"
    by (rule json_parse_print)
  then show ?thesis
    using assms decode_json_of_map [of "Headers r"] decode_json_of_map [of "Params r"]
    by (simp add: unmarshal_request_def json_of_request_def request_member_def zero_Request_def
        request_ok_def sort_request_def del: json_print.simps)
qed

lemma sort_request_simps [simp]:
  "Headers (sort_request r) = gosort (Headers r)" "Params (sort_request r) = gosort (Params r)"
  by (simp_all add: sort_request_def)

lemma sign_data_sort [simp]: "request_ok r \<Longrightarrow> sign_data (sort_request r) = sign_data r"
  by (simp add: sign_data_def marshal_params_def request_ok_def)

section \<open>The body that is posted\<close>

lemma map_of_copy: "map_of (foldl (\<lambda>b (k, v). AList.update k v b) b al) = map_of b ++ map_of (rev al)"
  by (induction al arbitrary: b) (auto simp: update_conv' map_add_def fun_eq_iff split: option.splits)

lemma map_of_rev_distinct: "distinct (map fst al) \<Longrightarrow> map_of (rev al) = map_of al"
  by (metis distinct_rev map_of_inject_set rev_map set_rev)

lemma gfind_GetBody:
  assumes "gomap_ok (Headers r)" "gomap_ok (Params r)"
  shows "gfind (GetBody r) k = (case gfind (Params r) k of Some v \<Rightarrow> Some v | None \<Rightarrow> gfind (Headers r) k)"
  using assms
  by (auto simp: GetBody_def copy_into_def gfind_def map_of_copy gomap_ok_def map_of_rev_distinct map_add_def
      split: option.splits)

lemma copy_into_distinct: "distinct (map fst b) \<Longrightarrow> distinct (map fst (copy_into b m))"
proof -
  have "distinct (map fst b) \<Longrightarrow> distinct (map fst (foldl (\<lambda>b (k, v). AList.update k v b) b al))" for al
    by (induction al arbitrary: b) (auto simp: distinct_update)
  then show "distinct (map fst b) \<Longrightarrow> distinct (map fst (copy_into b m))" by (simp add: copy_into_def)
qed

lemma GetBody_ok: "gomap_ok (GetBody r)"
  by (simp add: GetBody_def gomap_ok_def copy_into_distinct)

section \<open>What the interceptors accept\<close>

lemma ParseInt_Nil: "snd (ParseInt []) \<noteq> None"
  by (simp add: ParseInt_def)

text \<open>
  An incoming request passes the interceptors if and only if its \<open>ts\<close> parameter is an \<open>int64\<close>
  literal, it carries a signature, its access key is absent or the agent's own, and the signature is
  that of the signed data (the \<open>sd\<close> header, or the encoded parameters where there is none).
\<close>

lemma Handle_None_iff:
  "Handle ks BuildInterceptor r = None \<longleftrightarrow>
     snd (ParseInt (gget (Params r) TimestampKey)) = None
     \<and> gget (Headers r) SignKey \<noteq> []
     \<and> (gget (Headers r) AccessKey = [] \<or> gget (Headers r) AccessKey = GetAccessKey ks)
     \<and> gget (Headers r) SignKey = Sign ks (sign_data r)"
  using ParseInt_Nil by (auto simp: BuildInterceptor_def Let_def Auth_def split: option.splits)

text \<open>A refused request is answered with the code of the check that failed first.\<close>

lemma Handle_refusal:
  assumes "Handle ks BuildInterceptor r = Some response"
  shows "\<not> Success response
    \<and> (Code response = InvalidTimestamp \<longleftrightarrow> snd (ParseInt (gget (Params r) TimestampKey)) \<noteq> None)
    \<and> Code response \<in> {InvalidTimestamp, Forbidden}"
  using assms ParseInt_Nil
  by (auto simp: BuildInterceptor_def Let_def ReturnFail_def code_consts split: option.splits if_splits)

text \<open>
  C40: the signature does not bind the parameters of a request with an \<open>sd\<close> header: once such a
  request is accepted, it is accepted with every other set of parameters whose \<open>ts\<close> is a number.
\<close>

theorem signed_data_header_bypass:
  assumes "Handle ks BuildInterceptor r = None" "gget (Headers r) SignData \<noteq> []"
    and "snd (ParseInt (gget p TimestampKey)) = None"
  shows "Handle ks BuildInterceptor (r\<lparr>Params := p\<rparr>) = None"
  using assms unfolding Handle_None_iff by (auto simp: sign_data_def)

lemma sample_timestamp: "snd (ParseInt ''1'') = None"
proof -
  have "Itoa 1 = ''1''" by (simp add: Itoa_def nat_str_octet digit_def char_of_eq_iff)
  then show ?thesis using ParseInt_Itoa [of 1] by simp
qed

lemma sample_sd_accepted:
  "Handle ks BuildInterceptor
     \<lparr>Headers = Some [(SignData, ''x''), (SignKey, Sign ks ''x'')], Params = Some [(TimestampKey, ''1'')]\<rparr> = None"
proof -
  have "Sign ks ''x'' \<noteq> []" using Sign_length [of ks "''x''"] by auto
  then show ?thesis unfolding Handle_None_iff using sample_timestamp
    by (simp add: gget_def sign_data_def header_consts)
qed

theorem signed_data_header_bypass_witness:
  "Handle \<lparr>localAccessKey = ''a'', localSecureKey = ''s''\<rparr> BuildInterceptor
     \<lparr>Headers = Some [(SignData, ''x''), (SignKey, Sign \<lparr>localAccessKey = ''a'', localSecureKey = ''s''\<rparr> ''x'')],
      Params = Some [(TimestampKey, ''1''), (''cmd'', ''destroy all'')]\<rparr> = None"
  using signed_data_header_bypass
    [OF sample_sd_accepted, of "\<lparr>localAccessKey = ''a'', localSecureKey = ''s''\<rparr>"
        "Some [(TimestampKey, ''1''), (''cmd'', ''destroy all'')]"]
    sample_timestamp by (simp add: gget_def header_consts)

text \<open>
  an agent that has not registered has an empty secret, so the signature it expects is a function
  of the request alone: any request with a numeric \<open>ts\<close> is accepted with the unkeyed digest of its
  parameters as the signature.
\<close>

theorem unregistered_agent_accepts:
  assumes "snd (ParseInt (gget p TimestampKey)) = None"
  shows "Handle \<lparr>localAccessKey = [], localSecureKey = []\<rparr> BuildInterceptor
      \<lparr>Headers = Some [(SignKey, base64 (hex (sha256 (json_print (json_of_map p)))))], Params = p\<rparr> = None"
proof -
  have "base64 (hex (sha256 x)) \<noteq> []" for x
    using length_base64 [of "hex (sha256 x)"] by (auto simp: length_hex length_sha256)
  then show ?thesis using assms unfolding Handle_None_iff
    by (simp add: gget_def sign_data_def marshal_params_def Sign_def header_consts)
qed

theorem unregistered_agent_accepts_witness:
  "Handle \<lparr>localAccessKey = [], localSecureKey = []\<rparr> BuildInterceptor
     \<lparr>Headers = Some [(SignKey, base64 (hex (sha256 (json_print (json_of_map (Some [(TimestampKey, ''1'')]))))))],
      Params = Some [(TimestampKey, ''1'')]\<rparr> = None"
  by (rule unregistered_agent_accepts) (simp add: gget_def sample_timestamp)

section \<open>From the sender's interceptors to the receiver's\<close>

text \<open>
  The contract of a signed link: preparing a request makes it acceptable, and the encoding delivers
  it up to a normal form that the check does not distinguish.
\<close>

locale signed_link =
  fixes prepare :: "'r \<Rightarrow> 'r option" and send :: "'r \<Rightarrow> string" and receive :: "string \<Rightarrow> 'r option"
    and check :: "'r \<Rightarrow> bool" and canon :: "'r \<Rightarrow> 'r" and ready :: "'r \<Rightarrow> bool" and sendable :: "'r \<Rightarrow> bool"
  assumes prepare_total: "ready r \<Longrightarrow> \<exists>r'. prepare r = Some r'"
    and prepare_check: "ready r \<Longrightarrow> prepare r = Some r' \<Longrightarrow> sendable r' \<and> check r'"
    and receive_send: "sendable r \<Longrightarrow> receive (send r) = Some (canon r)"
    and check_canon: "sendable r \<Longrightarrow> check (canon r) \<longleftrightarrow> check r"
begin

lemma delivered_and_accepted:
  assumes "ready r"
  shows "\<exists>r'. prepare r = Some r' \<and> receive (send r') = Some (canon r') \<and> check (canon r')"
proof -
  obtain r' where p: "prepare r = Some r'" using prepare_total [OF assms] by blast
  with prepare_check [OF assms] have "sendable r'" "check r'" by blast+
  with p receive_send check_canon show ?thesis by blast
qed

end

text \<open>The request as \<open>Invoke\<close> leaves it before it is encoded.\<close>

definition prepared :: "keystore \<Rightarrow> int \<Rightarrow> string \<Rightarrow> Request \<Rightarrow> Request option" where
  "prepared ks now uuid r =
     (case chain_Invoke ks now BuildInterceptor r of
        Some (r', None) \<Rightarrow> AddHeader ''rid'' uuid r'
      | _ \<Rightarrow> None)"

definition received :: "string \<Rightarrow> Request option" where
  "received s = (case unmarshal_request s of (r, True) \<Rightarrow> Some r | (r, False) \<Rightarrow> None)"

definition link_ready :: "keystore \<Rightarrow> int \<Rightarrow> string \<Rightarrow> Request \<Rightarrow> bool" where
  "link_ready ks now uuid r \<longleftrightarrow>
     request_ok r \<and> Headers r \<noteq> None \<and> Params r \<noteq> None
     \<and> GetAccessKey ks \<noteq> [] \<and> GetSecureKey ks \<noteq> [] \<and> valid_utf8 (GetAccessKey ks) \<and> valid_utf8 uuid
     \<and> - (2 ^ 63) \<le> now \<and> now < 2 ^ 63"

lemma valid_utf8_Sign: "valid_utf8 (Sign ks d)"
  unfolding Sign_def by (rule valid_utf8_ascii) (rule base64_ascii)

lemma Sign_not_Nil: "Sign ks d \<noteq> []"
  using Sign_length [of ks d] by auto

lemma valid_utf8_Itoa: "valid_utf8 (Itoa n)"
proof (rule valid_utf8_ascii)
  fix c assume "c \<in> set (Itoa n)"
  then have "c = CHR ''-'' \<or> is_digit c" using nat_str_digits by (auto simp: Itoa_def split: if_splits)
  then show "byte c < 128" by (auto simp: is_digit_def)
qed

lemma request_ok_AddHeader:
  "request_ok r \<Longrightarrow> Headers r = Some h \<Longrightarrow> valid_utf8 k \<Longrightarrow> valid_utf8 v \<Longrightarrow>
     request_ok (r\<lparr>Headers := Some (AList.update k v h)\<rparr>)"
  by (auto simp: request_ok_def gomap_utf8_update)

lemma request_ok_AddParam:
  "request_ok r \<Longrightarrow> Params r = Some p \<Longrightarrow> valid_utf8 k \<Longrightarrow> valid_utf8 v \<Longrightarrow>
     request_ok (r\<lparr>Params := Some (AList.update k v p)\<rparr>)"
  by (auto simp: request_ok_def gomap_utf8_update)

text \<open>What the chain makes of an outgoing request, with the maps written out.\<close>

definition stamped :: "int \<Rightarrow> Request \<Rightarrow> (string \<times> string) list \<Rightarrow> Request" where
  "stamped now r p = r\<lparr>Params := Some (AList.update TimestampKey (Itoa (getCurrentTimeInMillis now)) p)\<rparr>"

definition signed :: "keystore \<Rightarrow> Request \<Rightarrow> (string \<times> string) list \<Rightarrow> Request" where
  "signed ks r h =
     (let h' = AList.update AccessKey (GetAccessKey ks) h in
      r\<lparr>Headers := Some (AList.update SignKey (Sign ks (sign_data (r\<lparr>Headers := Some h'\<rparr>))) h')\<rparr>)"

lemma chain_Invoke_signed:
  assumes "Headers r = Some h" "Params r = Some p" "GetAccessKey ks \<noteq> []" "GetSecureKey ks \<noteq> []"
  shows "chain_Invoke ks now BuildInterceptor r = Some (signed ks (stamped now r p) h, None)"
  using assms
  by (simp add: BuildInterceptor_def AddParam_def AddHeader_def gset_def stamped_def signed_def Let_def header_consts)

lemma timestamp_parses:
  "- (2 ^ 63) \<le> now \<Longrightarrow> now < 2 ^ 63 \<Longrightarrow> snd (ParseInt (Itoa (getCurrentTimeInMillis now))) = None"
proof -
  assume n: "- (2 ^ 63) \<le> now" "now < 2 ^ 63"
  have "- (2 ^ 63) \<le> go_quot now 1000 \<and> go_quot now 1000 < 2 ^ 63"
  proof (cases "0 \<le> now")
    case True
    then have "go_quot now 1000 = now div 1000" "0 \<le> now div 1000" "now div 1000 \<le> now"
      using go_quot_bound [of 1000 now] by (auto simp: go_quot_nonneg)
    then show ?thesis using n by linarith
  next
    case False
    then have "go_quot now 1000 \<le> 0"
      by (auto simp: go_quot_def sgn_if pos_imp_zdiv_nonneg_iff)
    then show ?thesis using go_quot_bound [of 1000 now] n False by linarith
  qed
  then show ?thesis using ParseInt_Itoa by (simp add: getCurrentTimeInMillis_def)
qed

lemma prepared_signed:
  assumes "link_ready ks now uuid r" "Headers r = Some h" "Params r = Some p"
  shows "prepared ks now uuid r =
    Some (let s = signed ks (stamped now r p) h in
          s\<lparr>Headers := Some (AList.update ''rid'' uuid (the (Headers s)))\<rparr>)"
  using assms chain_Invoke_signed [of r h p ks now]
  by (simp add: prepared_def link_ready_def AddHeader_def gset_def signed_def Let_def)

lemma signed_headers:
  assumes "s = signed ks (stamped now r p) h"
    and "r' = s\<lparr>Headers := Some (AList.update ''rid'' uuid (the (Headers s)))\<rparr>"
    and "Headers r = Some h"
  shows "gget (Params r') TimestampKey = Itoa (getCurrentTimeInMillis now)"
    "gget (Headers r') AccessKey = GetAccessKey ks"
    "gget (Headers r') SignKey = Sign ks (sign_data r')"
  using assms
  by (simp_all add: signed_def stamped_def Let_def sign_data_def marshal_params_def header_consts)

lemma prepared_accepted:
  assumes "link_ready ks now uuid r" "prepared ks now uuid r = Some r'"
  shows "request_ok r' \<and> Handle ks BuildInterceptor r' = None"
proof -
  obtain h p where hp: "Headers r = Some h" "Params r = Some p"
    using assms(1) by (auto simp: link_ready_def)
  define s where "s = signed ks (stamped now r p) h"
  have r': "r' = s\<lparr>Headers := Some (AList.update ''rid'' uuid (the (Headers s)))\<rparr>"
    using assms(2) prepared_signed [OF assms(1) hp] by (simp add: s_def Let_def)
  have ascii: "valid_utf8 AccessKey" "valid_utf8 SignKey" "valid_utf8 TimestampKey" "valid_utf8 ''rid''"
    by (auto intro!: valid_utf8_ascii simp: header_consts)
  have "request_ok (stamped now r p)"
    using assms(1) hp ascii by (auto simp: link_ready_def stamped_def valid_utf8_Itoa intro: request_ok_AddParam)
  then have "request_ok ((stamped now r p)\<lparr>Headers := Some (AList.update AccessKey (GetAccessKey ks) h)\<rparr>)"
    using assms(1) hp ascii by (auto simp: link_ready_def stamped_def intro: request_ok_AddHeader)
  from request_ok_AddHeader [OF this, of "AList.update AccessKey (GetAccessKey ks) h" SignKey]
  have "request_ok s"
    using ascii by (simp add: s_def signed_def Let_def valid_utf8_Sign)
  then have ok: "request_ok r'"
    unfolding r' using assms(1) ascii
    by (intro request_ok_AddHeader) (auto simp: link_ready_def s_def signed_def Let_def)
  moreover have "Handle ks BuildInterceptor r' = None"
    using signed_headers [OF s_def r' hp(1)] assms(1) timestamp_parses [of now]
    by (simp add: Handle_None_iff Sign_not_Nil link_ready_def)
  ultimately show ?thesis by simp
qed

lemma Handle_sort: "request_ok r \<Longrightarrow> Handle ks BuildInterceptor (sort_request r) = None \<longleftrightarrow> Handle ks BuildInterceptor r = None"
  unfolding Handle_None_iff by (simp add: request_ok_def sign_data_sort [unfolded request_ok_def])

interpretation agent_link: signed_link "prepared ks now uuid" "\<lambda>r. json_print (json_of_request r)" received
  "\<lambda>r. Handle ks BuildInterceptor r = None" sort_request "link_ready ks now uuid" request_ok for ks now uuid
proof unfold_locales
  fix r assume r: "link_ready ks now uuid r"
  then obtain h p where "Headers r = Some h" "Params r = Some p" by (auto simp: link_ready_def)
  with prepared_signed [OF r] show "\<exists>r'. prepared ks now uuid r = Some r'" by blast
next
  fix r r' assume "link_ready ks now uuid r" "prepared ks now uuid r = Some r'"
  then show "request_ok r' \<and> Handle ks BuildInterceptor r' = None" by (rule prepared_accepted)
next
  fix r assume "request_ok r"
  then show "received (json_print (json_of_request r)) = Some (sort_request r)"
    by (simp add: received_def unmarshal_json_of_request)
next
  fix r assume "request_ok r"
  then show "Handle ks BuildInterceptor (sort_request r) = None \<longleftrightarrow> Handle ks BuildInterceptor r = None"
    by (rule Handle_sort)
qed

lemma Invoke_prepared:
  assumes "prepared ks now uuid r = Some r'"
  shows "Invoke ks now uuid chan uri r True =
    Some (r', (case chan (uri\<lparr>RequestId := uuid\<rparr>) (json_print (json_of_request r')) of
                 Inl err \<Rightarrow> (None, Some err)
               | Inr result \<Rightarrow> (case unmarshal_response result of
                     (response, True) \<Rightarrow> (Some response, None)
                   | (response, False) \<Rightarrow> (None, Some ''invalid response''))))"
  using assms by (auto simp: prepared_def Invoke_def split: option.splits)

text \<open>
  a request that a registered agent sends through its interceptors is accepted by the
  interceptors of a receiver with the same keys: \<open>Invoke\<close> never panics on it, hands the channel one
  encoded request, and that text decodes without an error to a request that passes the checks.
\<close>

theorem signed_request_accepted:
  assumes "link_ready ks now uuid r"
  shows "\<exists>r' answer. Invoke ks now uuid chan uri r True = Some (r', answer)
    \<and> unmarshal_request (json_print (json_of_request r')) = (sort_request r', True)
    \<and> Handle ks BuildInterceptor (sort_request r') = None"
proof -
  obtain r' where r': "prepared ks now uuid r = Some r'"
    and acc: "Handle ks BuildInterceptor (sort_request r') = None"
    using agent_link.delivered_and_accepted [OF assms] by blast
  have "request_ok r'" using prepared_accepted [OF assms r'] by simp
  with unmarshal_json_of_request acc Invoke_prepared [OF r'] show ?thesis by blast
qed

theorem signed_request_accepted_witness:
  "\<exists>r' answer.
     Invoke \<lparr>localAccessKey = ''ak1'', localSecureKey = ''sk1''\<rparr> 1700000000000000000 ''u-1'' (\<lambda>u b. Inl ''down'')
       (NewUri zero_Options ''Chaos'' ''chaos/AgentHeartBeat'')
       \<lparr>Headers = Some [(''FR'', ''C'')], Params = Some [(''port'', ''19527'')]\<rparr> True = Some (r', answer)
     \<and> unmarshal_request (json_print (json_of_request r')) = (sort_request r', True)
     \<and> Handle \<lparr>localAccessKey = ''ak1'', localSecureKey = ''sk1''\<rparr> BuildInterceptor (sort_request r') = None"
proof -
  have u: "valid_utf8 ''ak1''" "valid_utf8 ''u-1''" "valid_utf8 ''FR''" "valid_utf8 ''C''" "valid_utf8 ''port''"
    "valid_utf8 ''19527''"
    by (auto intro!: valid_utf8_ascii)
  show ?thesis
    by (rule signed_request_accepted)
      (use u in \<open>auto simp: link_ready_def request_ok_def gomap_ok_def gomap_utf8_def GetAccessKey_def GetSecureKey_def\<close>)
qed

lemma marshal_params_inject:
  assumes "request_ok r" "request_ok r'" "marshal_params r = marshal_params r'"
  shows "gosort (Params r) = gosort (Params r')"
proof -
  have e: "wf_json (json_of_map (Params x)) \<and> json_depth (json_of_map (Params x)) \<le> max_depth" if "request_ok x" for x
    using that json_depth_of_map [of "Params x"] by (simp add: request_ok_def wf_json_of_map max_depth_def)
  have "json_of_map (Params r) = json_of_map (Params r')"
    using assms(3) json_codec.enc_inject [OF e [OF assms(1)] e [OF assms(2)]] by (simp add: marshal_params_def)
  then show ?thesis using assms decode_json_of_map by (metis Pair_inject request_ok_def)
qed

text \<open>
  C17: a signature binds the parameters of a request that has no \<open>sd\<close> header: two such requests that a
  receiver accepts under one signature hold the same parameters, unless the two signed texts are a
  collision of SHA-256.
\<close>

theorem signature_binds_params:
  assumes "Handle ks BuildInterceptor r = None" "Handle ks BuildInterceptor r' = None"
    and "gget (Headers r) SignKey = gget (Headers r') SignKey"
    and "gget (Headers r) SignData = []" "gget (Headers r') SignData = []"
    and "request_ok r" "request_ok r'"
    and "sha256 (marshal_params r @ localSecureKey ks) = sha256 (marshal_params r' @ localSecureKey ks) \<Longrightarrow>
         marshal_params r @ localSecureKey ks = marshal_params r' @ localSecureKey ks"
  shows "gget (Params r) k = gget (Params r') k"
proof -
  have "Sign ks (marshal_params r) = Sign ks (marshal_params r')"
    using assms(1-5) unfolding Handle_None_iff by (simp add: sign_data_def)
  then have b: "base64 (hex (sha256 (marshal_params r @ localSecureKey ks)))
      = base64 (hex (sha256 (marshal_params r' @ localSecureKey ks)))"
    by (simp add: Sign_def)
  have "hex (sha256 (marshal_params r @ localSecureKey ks)) = hex (sha256 (marshal_params r' @ localSecureKey ks))"
    by (rule base64_inj [OF _ _ b]) (simp_all add: length_hex length_sha256)
  then have "marshal_params r = marshal_params r'" using assms(8) hex_inj by simp
  then have "gosort (Params r) = gosort (Params r')" by (rule marshal_params_inject [OF assms(6,7)])
  then show ?thesis using assms(6,7) by (metis gget_gosort request_ok_def)
qed

definition sample_signed :: "keystore \<Rightarrow> (string \<times> string) list \<Rightarrow> Request" where
  "sample_signed ks h =
     \<lparr>Headers = Some ((SignKey, Sign ks (json_print (json_of_map (Some [(TimestampKey, ''1'')])))) # h),
      Params = Some [(TimestampKey, ''1'')]\<rparr>"

lemma sample_signed_accepted:
  assumes "map_of h SignData = None" "map_of h AccessKey = None"
  shows "Handle ks BuildInterceptor (sample_signed ks h) = None" "gget (Headers (sample_signed ks h)) SignData = []"
proof -
  note t = sample_timestamp
  have d: "SignKey \<noteq> SignData" "SignKey \<noteq> AccessKey" by (simp_all add: header_consts)
  show "gget (Headers (sample_signed ks h)) SignData = []"
    using assms d by (simp add: sample_signed_def gget_def)
  then show "Handle ks BuildInterceptor (sample_signed ks h) = None"
    unfolding Handle_None_iff using t assms d Sign_not_Nil
    by (simp add: sign_data_def marshal_params_def) (simp add: sample_signed_def gget_def)
qed

theorem signature_binds_params_witness:
  "gget (Params (sample_signed \<lparr>localAccessKey = ''a'', localSecureKey = ''s''\<rparr> [])) ''ts''
   = gget (Params (sample_signed \<lparr>localAccessKey = ''a'', localSecureKey = ''s''\<rparr> [(''FR'', ''C'')])) ''ts''"
proof -
  let ?ks = "\<lparr>localAccessKey = ''a'', localSecureKey = ''s''\<rparr>"
  have u: "valid_utf8 ''FR''" "valid_utf8 ''C''" "valid_utf8 ''1''" "valid_utf8 SignKey" "valid_utf8 TimestampKey"
    by (auto intro!: valid_utf8_ascii simp: header_consts)
  have ok: "request_ok (sample_signed ?ks h)" if "h = [] \<or> h = [(''FR'', ''C'')]" for h
    using that u valid_utf8_Sign
    by (auto simp: sample_signed_def request_ok_def gomap_ok_def gomap_utf8_def header_consts)
  have m: "map_of [(''FR'', ''C'')] SignData = None" "map_of [(''FR'', ''C'')] AccessKey = None"
    by (simp_all add: header_consts)
  have k: "gget (Headers (sample_signed ?ks h)) SignKey = gget (Headers (sample_signed ?ks h')) SignKey" for h h'
    by (simp add: sample_signed_def gget_def)
  have p: "marshal_params (sample_signed ?ks h) = marshal_params (sample_signed ?ks h')" for h h'
    by (simp only: sample_signed_def marshal_params_def Request.simps)
  have nil: "map_of [] SignData = None" "map_of [] AccessKey = None" by simp_all
  show ?thesis
    by (rule signature_binds_params [OF sample_signed_accepted(1) [OF nil] sample_signed_accepted(1) [OF m] k
          sample_signed_accepted(2) [OF nil] sample_signed_accepted(2) [OF m] ok ok]) (simp_all add: p)
qed

section \<open>Responses and the channel\<close>

lemma fold_case_response [simp]:
  "EqualFold ''Code'' ''Code''" "\<not> EqualFold ''Success'' ''Code''" "\<not> EqualFold ''Error'' ''Code''"
  "\<not> EqualFold ''Result'' ''Code''" "\<not> EqualFold ''Error'' ''Success''" "\<not> EqualFold ''Result'' ''Success''"
  "\<not> EqualFold ''Result'' ''Error''"
  by (simp_all add: EqualFold_def ascii_lower_def)

lemma lit_int32_Itoa: "- (2 ^ 31) \<le> n \<Longrightarrow> n < 2 ^ 31 \<Longrightarrow> lit_int32 (Itoa n) = Some n"
  using ParseInt_Itoa [of n] by (simp add: lit_int32_def)

definition response_ok :: "Response \<Rightarrow> bool" where
  "response_ok r \<longleftrightarrow> - (2 ^ 31) \<le> Code r \<and> Code r < 2 ^ 31 \<and> valid_utf8 (Error r)
     \<and> wf_json (Result r) \<and> json_depth (Result r) < max_depth \<and> floats_ok (Result r)"

text \<open>
  A response whose code is an \<open>int32\<close> and whose numbers are integers decodes, whatever bytes its texts hold;
  bytes that are no text come back as U+FFFD.
\<close>

definition response_fits :: "Response \<Rightarrow> bool" where
  "response_fits r \<longleftrightarrow> - (2 ^ 31) \<le> Code r \<and> Code r < 2 ^ 31
     \<and> int_json (Result r) \<and> json_depth (Result r) < max_depth \<and> floats_ok (Result r)"

definition clean_response :: "Response \<Rightarrow> Response" where
  "clean_response r = r\<lparr>Error := clean_text (Error r), Result := json_clean (Result r)\<rparr>"

lemma floats_ok_clean [simp]: "floats_ok (json_clean v) = floats_ok v"
  by (induction v rule: floats_ok.induct) auto

lemma response_ok_fits: "response_ok r \<Longrightarrow> response_fits r \<and> clean_response r = r"
  using wf_json_clean [of "Result r"] by (simp add: response_ok_def response_fits_def clean_response_def)

lemma unmarshal_clean_response:
  assumes "response_fits r"
  shows "unmarshal_response_into r0 (json_print (json_of_response r)) = (clean_response r, True)"
proof -
  have names: "valid_utf8 ''Code''" "valid_utf8 ''Success''" "valid_utf8 ''Error''" "valid_utf8 ''Result''"
    by (auto intro!: valid_utf8_ascii)
  have "int_json (json_of_response r)" using assms by (auto simp: json_of_response_def response_fits_def)
  moreover have "json_depth (json_of_response r) \<le> max_depth"
    using assms by (simp add: json_of_response_def response_fits_def)
  ultimately have "json_parse (json_print (json_of_response r)) = Some (json_clean (json_of_response r))"
    by (rule json_parse_print_clean)
  then show ?thesis
    using assms names lit_int32_Itoa [of "Code r"]
    by (simp add: unmarshal_response_into_def json_of_response_def response_member_def response_fits_def clean_response_def
        del: json_print.simps)
qed

lemma unmarshal_json_of_response:
  "response_ok r \<Longrightarrow> unmarshal_response_into r0 (json_print (json_of_response r)) = (r, True)"
  using unmarshal_clean_response [of r r0] response_ok_fits [of r] by simp

text \<open>
  a response survives its JSON form: what the sender encodes, the client's decoder reads back
  field by field, for every code in the range of \<open>int32\<close>, valid text and encodable result.
\<close>

theorem response_roundtrip:
  assumes "response_ok r"
  shows "unmarshal_response (json_print (json_of_response r)) = (r, True)"
  unfolding unmarshal_response_def using assms by (rule unmarshal_json_of_response)

theorem response_roundtrip_witness:
  "unmarshal_response (json_print (json_of_response ReturnSuccess)) = (ReturnSuccess, True)"
proof -
  have "valid_utf8 ''success''" by (auto intro!: valid_utf8_ascii)
  then show ?thesis by (intro response_roundtrip) (simp add: response_ok_def ReturnSuccess_def OK_def max_depth_def)
qed

text \<open>
  the body the HTTP channel posts for a request is one flat map in which a parameter wins over a
  header of the same name, and the call is answered by the body of a response with status 200 only.
\<close>

theorem DoInvoker_posts_merged_body:
  assumes "request_ok r" "bad_url net (hc_url hc @ ''/'' @ HandlerName uri) = None"
  shows "\<exists>body. gomap_ok body
    \<and> (\<forall>k. gfind body k = (case gfind (Params r) k of Some v \<Rightarrow> Some v | None \<Rightarrow> gfind (Headers r) k))
    \<and> (DoInvoker net hc uri (json_print (json_of_request r)) = Inr result \<longleftrightarrow>
        (\<exists>err. post net (hc_url hc @ ''/'' @ HandlerName uri) (json_print (json_of_map body)) = Inr (200, result, err)))"
proof -
  let ?b = "GetBody (sort_request r)"
  have "gfind ?b k = (case gfind (Params r) k of Some v \<Rightarrow> Some v | None \<Rightarrow> gfind (Headers r) k)" for k
    using assms(1) by (auto simp: gfind_GetBody request_ok_def split: option.split)
  moreover have "DoInvoker net hc uri (json_print (json_of_request r)) = Inr result \<longleftrightarrow>
      (\<exists>err. post net (hc_url hc @ ''/'' @ HandlerName uri) (json_print (json_of_map ?b)) = Inr (200, result, err))"
    using assms
    by (auto simp: DoInvoker_def Let_def unmarshal_json_of_request split: sum.splits prod.splits if_splits)
  ultimately show ?thesis using GetBody_ok by blast
qed

definition sample_network :: network where
  "sample_network = \<lparr>bad_url = (\<lambda>u. None), post = (\<lambda>u b. Inr (200, ''{}'', None))\<rparr>"

definition sample_client :: HttpClient where
  "sample_client = \<lparr>Config = \<lparr>ClientVpcId = [], ClientIp = [], ClientProcessFlag = [], ServerIp = ''h'',
     ServerPort = 80, sc_Timeout = 0\<rparr>, timeout_ms = 0, hc_url = ''http://h:80''\<rparr>"

theorem DoInvoker_posts_merged_body_witness:
  "DoInvoker sample_network sample_client (NewUri zero_Options ''Chaos'' ''x'')
     (json_print (json_of_request \<lparr>Headers = Some [], Params = Some []\<rparr>)) = Inr ''{}''"
proof -
  have "request_ok \<lparr>Headers = Some [], Params = Some []\<rparr>" by (simp add: request_ok_def gomap_ok_def gomap_utf8_def)
  from DoInvoker_posts_merged_body [OF this, of sample_network sample_client "NewUri zero_Options ''Chaos'' ''x''" "''{}''"]
  show ?thesis by (auto simp: sample_network_def)
qed

text \<open>
  \<open>ReturnFail\<close> passes its arguments to \<open>Sprintf\<close> as one slice: a text with one verb shows them in
  brackets, a text with two loses the second argument, and a text without a verb is followed by a
  formatting error.
\<close>

theorem ReturnFail_texts:
  "Error (ReturnFail ParameterEmpty [a]) = ''`['' @ a @ '']`: parameter is empty''
   \<and> Error (ReturnFail ResultUnmarshalFailed [a, b])
     = ''`['' @ a @ '' '' @ b @ '']`: exec result unmarshal failed, err: %!s(MISSING)''
   \<and> Error (ReturnFail InvalidTimestamp []) = ''invalid timestamp%!(EXTRA []interface {}=[])''
   \<and> Error (ReturnFail TokenNotFound []) = ''access token not found%!(EXTRA []interface {}=[])''"
  by (simp add: ReturnFail_def Errors_def code_consts)

lemma escape_host_id: "(\<And>c. c \<in> set h \<Longrightarrow> host_byte c) \<Longrightarrow> escape_host h = h"
  by (induction h) (simp_all add: escape_host_def)

lemma host_byte_digits: "c \<in> set (nat_str n) \<Longrightarrow> host_byte c"
  using nat_str_digits by (simp add: host_byte_def)

text \<open>
  for an endpoint \<open>host:port\<close> whose port fits in 32 bits the client's address is exactly that host
  and port over plain HTTP, whatever \<open>transport.secure\<close> says; a port that is not a number is not an
  error but port 0.
\<close>

theorem NewHttpClient_address:
  assumes "\<forall>c \<in> set h. host_byte c \<and> c \<noteq> CHR '':''"
    and "Endpoint config = h @ CHR '':'' # p"
  shows "\<exists>hc. NewHttpClient opts config = Inr hc
    \<and> (0 \<le> n \<and> n < 2 ^ 32 \<and> p = Itoa n \<longrightarrow> hc_url hc = ''http://'' @ h @ '':'' @ p)
    \<and> (snd (ParseInt p) = Some ErrSyntax \<longrightarrow> hc_url hc = ''http://'' @ h @ '':0'')"
proof -
  have sp: "SplitN2 (CHR '':'') (Endpoint config) = [h, p]"
    unfolding assms(2) using assms(1) by (intro SplitN2_append_sep) auto
  have colon: "host_byte (CHR '':'')" by (simp add: host_byte_def)
  have "host_byte c" if "c \<in> set (h @ '':'' @ nat_str m)" for c m
    using that assms(1) host_byte_digits colon by auto
  then have esc: "escape_host (h @ '':'' @ nat_str m) = h @ '':'' @ nat_str m" for m by (rule escape_host_id)
  have url: "hc_url (GetDirectInstance sc) = ''http://'' @ h @ CHR '':'' # nat_str (ServerPort sc)" if "ServerIp sc = h" for sc
    using esc [of "ServerPort sc"] that by (simp add: GetDirectInstance_def)
  have "snd (ParseInt p) = Some ErrSyntax \<Longrightarrow> fst (ParseInt p) = 0"
    by (auto simp: ParseInt_def Let_def split: if_splits sum.splits num_error.splits)
  moreover have "fst (ParseInt (Itoa n)) = n" "Itoa n = nat_str (nat n)" if "0 \<le> n" "n < 2 ^ 32"
  proof -
    have "n < 2 ^ 63" using that by simp
    then show "fst (ParseInt (Itoa n)) = n" using that ParseInt_Itoa [of n] by simp
    show "Itoa n = nat_str (nat n)" using that by (simp add: Itoa_def)
  qed
  moreover obtain hc where hc: "NewHttpClient opts config = Inr hc"
      "hc_url hc = ''http://'' @ h @ CHR '':'' # nat_str (nat (fst (ParseInt p) mod 2 ^ 32))"
    using sp assms(2) url by (simp add: NewHttpClient_def Let_def)
  ultimately show ?thesis by (intro exI [of _ hc]) (auto simp: nat_str_zero)
qed

theorem NewHttpClient_address_witness:
  "\<exists>hc. NewHttpClient zero_Options \<lparr>tc_Environment = [], Endpoint = ''box:8080'', Timeout = 0, Secure = True\<rparr> = Inr hc
     \<and> hc_url hc = ''http://box:8080''"
proof -
  have i: "Itoa 8080 = ''8080''"
    by (simp add: Itoa_def nat_str.simps [of 8080] nat_str_octet digit_def char_of_eq_iff)
  from NewHttpClient_address [of "''box''" "\<lparr>tc_Environment = [], Endpoint = ''box:8080'', Timeout = 0, Secure = True\<rparr>" "''8080''" zero_Options 8080]
  show ?thesis by (auto simp: i host_byte_def)
qed

section \<open>Prepared requests\<close>

text \<open>What a prepared request is at the receiver: its parameters, and that the interceptors let it through.\<close>

lemma prepared_params:
  assumes "prepared ks now uuid r = Some r'" "k \<noteq> TimestampKey"
  shows "gget (Params r') k = gget (Params r) k"
  using assms
  by (auto simp: prepared_def BuildInterceptor_def AddParam_def AddHeader_def gset_def header_consts gget_def update_conv'
      split: option.splits if_splits prod.splits)

lemma prepared_headers:
  assumes "link_ready ks now uuid r" "prepared ks now uuid r = Some r'"
  shows "gget (Params r') TimestampKey = Itoa (getCurrentTimeInMillis now)" "gget (Headers r') AccessKey = GetAccessKey ks"
    "gget (Headers r') SignKey = Sign ks (sign_data r')"
proof -
  obtain h p where hp: "Headers r = Some h" "Params r = Some p" using assms(1) by (auto simp: link_ready_def)
  define s where "s = signed ks (stamped now r p) h"
  have r': "r' = s\<lparr>Headers := Some (AList.update ''rid'' uuid (the (Headers s)))\<rparr>"
    using assms(2) prepared_signed [OF assms(1) hp] by (simp add: s_def Let_def)
  show "gget (Params r') TimestampKey = Itoa (getCurrentTimeInMillis now)" "gget (Headers r') AccessKey = GetAccessKey ks"
    "gget (Headers r') SignKey = Sign ks (sign_data r')"
    using signed_headers [OF s_def r' hp(1)] by simp_all
qed

text \<open>The text the HTTP channel posts for a prepared request reads back as the flat map of the request.\<close>

lemma GetBody_utf8: "gomap_utf8 (Headers r) \<Longrightarrow> gomap_utf8 (Params r) \<Longrightarrow> gomap_utf8 (GetBody r)"
proof -
  have u: "gomap_utf8 (Some (foldl (\<lambda>b (k, v). AList.update k v b) b al))" if "gomap_utf8 (Some b)" "gomap_utf8 (Some al)" for b al
    using that
  proof (induction al arbitrary: b)
    case (Cons kv al)
    obtain k v where kv: "kv = (k, v)" by fastforce
    then have "valid_utf8 k" "valid_utf8 v" "gomap_utf8 (Some al)" using Cons.prems(2) by (auto simp: gomap_utf8_def)
    with Cons kv show ?case using gomap_utf8_update by simp
  qed simp
  show "gomap_utf8 (Headers r) \<Longrightarrow> gomap_utf8 (Params r) \<Longrightarrow> gomap_utf8 (GetBody r)"
    by (cases "Headers r"; cases "Params r") (auto simp: GetBody_def copy_into_def intro!: u, simp_all add: gomap_utf8_def)
qed

lemma posted_body:
  assumes "request_ok r"
  shows "\<exists>m. json_parse (json_print (json_of_map (GetBody (sort_request r)))) = Some (json_of_map (GetBody (sort_request r)))
    \<and> decode_string_map None (json_of_map (GetBody (sort_request r))) = (m, True)
    \<and> (\<forall>k. gfind m k = (case gfind (Params r) k of Some v \<Rightarrow> Some v | None \<Rightarrow> gfind (Headers r) k))"
proof -
  let ?b = "GetBody (sort_request r)"
  have "gomap_utf8 (gosort m)" if "gomap_utf8 m" for m using that by (auto simp: gosort_def gomap_utf8_def split: option.splits)
  then have "gomap_utf8 ?b" using assms by (intro GetBody_utf8) (simp_all add: request_ok_def)
  then have "json_parse (json_print (json_of_map ?b)) = Some (json_of_map ?b)"
    using json_depth_of_map [of ?b] by (intro json_parse_print) (simp_all add: wf_json_of_map max_depth_def)
  moreover have "gfind (gosort ?b) k = (case gfind (Params r) k of Some v \<Rightarrow> Some v | None \<Rightarrow> gfind (Headers r) k)" for k
    using assms GetBody_ok [of "sort_request r"] by (auto simp: gfind_GetBody request_ok_def split: option.split)
  ultimately show ?thesis using decode_json_of_map [OF GetBody_ok, of "sort_request r"] by blast
qed

lemma prepared_received:
  assumes "link_ready ks now uuid r" "prepared ks now uuid r = Some r'"
  shows "unmarshal_request (json_print (json_of_request r')) = (sort_request r', True)"
    and "Handle ks BuildInterceptor (sort_request r') = None"
proof -
  obtain r2 where "prepared ks now uuid r = Some r2"
    and d: "received (json_print (json_of_request r2)) = Some (sort_request r2)"
    and c: "Handle ks BuildInterceptor (sort_request r2) = None"
    using agent_link.delivered_and_accepted [OF assms(1)] by blast
  then have r2: "r2 = r'" using assms(2) by simp
  show "unmarshal_request (json_print (json_of_request r')) = (sort_request r', True)"
    using d r2 by (auto simp: received_def split: prod.splits bool.splits)
  show "Handle ks BuildInterceptor (sort_request r') = None" using c r2 by simp
qed

end
