(* ===== verification/Agent_Conn.thy ===== *)
theory Agent_Conn
  imports Agent_Transport
begin

text \<open>
  Packages \<open>conn\<close> and \<open>metricreport\<close>: registration, heartbeat, reports of asynchronous results, the
  closing call, the registry of metric reports with its lock, and the start of the connection
  handlers. The globals of the process (options, keys, files, addresses, heartbeat history) are the
  record \<open>agent\<close>; what changes from call to call (clock, fresh id, the channel's answers) is \<open>env\<close>.
\<close>

section \<open>The process state\<close>

record agent =
  opts :: Options
  keys :: keystore
  files :: fs
  uris :: "string \<rightharpoonup> Uri"
  hbs :: "bool LimitedList"

record env =
  e_now :: int
  e_uuid :: string
  e_chan :: channel
  e_home :: "string option"
  e_order :: map_order
  e_uptime :: string
  e_numCPU :: int
  e_memTotal :: "nat option"

definition zero_Uri :: Uri where
  "zero_Uri = \<lparr>ServerName = [], HandlerName = [], u_VpcId = [], u_Ip = [], u_Pid = [], Tag = [], RequestId = [],
     CompressVersion = []\<rparr>"

text \<open>\<open>TransportUriMap[api]\<close> without a check: the zero value where there is no entry.\<close>

definition uri_of :: "agent \<Rightarrow> string \<Rightarrow> Uri" where
  "uri_of a api = (case uris a api of None \<Rightarrow> zero_Uri | Some u \<Rightarrow> u)"

definition agent_Invoke :: "env \<Rightarrow> agent \<Rightarrow> Uri \<Rightarrow> Request \<Rightarrow> bool \<Rightarrow> (Request \<times> Response option \<times> string option) go" where
  "agent_Invoke e a uri request needInterceptor = Invoke (keys a) (e_now e) (e_uuid e) (e_chan e) uri request needInterceptor"

text \<open>A sequence of \<open>AddParam\<close> calls.\<close>

fun add_params :: "(string \<times> string) list \<Rightarrow> Request \<Rightarrow> Request go" where
  "add_params [] r = Some r"
| "add_params ((k, v) # kvs) r = do { r \<leftarrow> AddParam k v r; add_params kvs r }"

section \<open>Registration\<close>

text \<open>The steps of \<open>handleDirectHttpConnectResponse\<close> on the result object.\<close>

definition take_uid :: "(string \<times> json) list \<Rightarrow> agent \<Rightarrow> agent go" where
  "take_uid v a =
     (case obj_get v ''uid'' of
        None \<Rightarrow> Some a
      | Some JNull \<Rightarrow> Some a
      | uid \<Rightarrow> map_option (\<lambda>u. a\<lparr>opts := SetUid u (opts a)\<rparr>) (as_string uid))"

definition take_keys :: "env \<Rightarrow> (string \<times> json) list \<Rightarrow> agent \<Rightarrow> (agent \<times> string option) go" where
  "take_keys e v a =
     (if obj_get v ''ak'' = None \<or> obj_get v ''ak'' = Some JNull then Some (a, Some ''accessKey or secretKey is empty'')
      else if obj_get v ''sk'' = None \<or> obj_get v ''sk'' = Some JNull then Some (a, Some ''accessKey or secretKey is empty'')
      else do {
        ak \<leftarrow> as_string (obj_get v ''ak'');
        sk \<leftarrow> as_string (obj_get v ''sk'');
        (case RecordSecretKeyToFile (e_order e) (e_home e) (files a) (keys a) ak sk of
           ((w, ks), err) \<Rightarrow> Some (a\<lparr>files := w, keys := ks\<rparr>, err))
      })"

definition handleDirectHttpConnectResponse :: "env \<Rightarrow> agent \<Rightarrow> Response \<Rightarrow> (agent \<times> string option) go" where
  "handleDirectHttpConnectResponse e a response =
     (if \<not> Success response then Some (a, Some (''connect server failed, '' @ Error response))
      else (case as_object (Some (Result response)) of
              None \<Rightarrow> Some (a, Some ''response is error'')
            | Some v \<Rightarrow>
                do {
                  cid \<leftarrow> as_string (obj_get v ''cid'');
                  a \<leftarrow> take_uid v (a\<lparr>opts := SetCid cid (opts a)\<rparr>);
                  take_keys e v a
                }))"

text \<open>
  The parameters of the registration. The size of the memory is printed with \<open>%f\<close>; it is below
  \<open>2 ^ 53\<close> and so exact.
\<close>

definition connect_params :: "env \<Rightarrow> agent \<Rightarrow> (string \<times> string) list" where
  "connect_params e a =
     [(''ip'', Ip (opts a)), (''pid'', Pid (opts a)), (''type'', ProgramName), (''uid'', Uid (opts a)),
      (''instanceId'', InstanceId (opts a)), (''namespace'', o_Namespace (opts a)), (''deviceId'', InstanceId (opts a)),
      (''deviceType'', Itoa 0), (''ak'', License (opts a)), (''uptime'', e_uptime e),
      (''startupMode'', StartupMode (opts a)), (''v'', Version (opts a)), (''agentMode'', AgentMode (opts a)),
      (''osType'', InstallOperator (opts a)), (''cpuNum'', Itoa (e_numCPU e)), (''clusterId'', ClusterId (opts a)),
      (''clusterName'', ClusterName (opts a))]
     @ (if ChaosbladeVersion (opts a) \<noteq> [] then [(''cbv'', ChaosbladeVersion (opts a))] else [])
     @ (case e_memTotal e of None \<Rightarrow> [] | Some m \<Rightarrow> [(''memSize'', nat_str m @ ''.000000'')])
     @ [(AppInstanceKeyName, ApplicationInstance (opts a)), (AppGroupKeyName, ApplicationGroup (opts a))]
     @ (if RestrictedVpc (opts a) then [(''restrictedVpc'', ''true''), (''vpcId'', License (opts a))]
        else [(''vpcId'', VpcId (opts a))])"

definition connect_Start :: "env \<Rightarrow> agent \<Rightarrow> (agent \<times> string option) go" where
  "connect_Start e a =
     do {
       request \<leftarrow> NewRequest (opts a);
       request \<leftarrow> add_params (connect_params e a) request;
       (r, response, err) \<leftarrow> agent_Invoke e a (uri_of a API_REGISTRY) request False;
       (case err of
          Some m \<Rightarrow> Some (a, Some m)
        | None \<Rightarrow> (case response of None \<Rightarrow> None | Some resp \<Rightarrow> handleDirectHttpConnectResponse e a resp))
     }"

section \<open>Heartbeat\<close>

definition HBSnapshotList :: "bool LimitedList" where
  "HBSnapshotList = \<lparr>cap = 26, items = []\<rparr>"

definition record_hb :: "bool \<Rightarrow> agent \<Rightarrow> agent" where
  "record_hb success a = a\<lparr>hbs := Put success (hbs a)\<rparr>"

definition sendHeartbeat :: "env \<Rightarrow> Uri \<Rightarrow> Request \<Rightarrow> agent \<Rightarrow> agent go" where
  "sendHeartbeat e uri request a =
     do {
       (r, response, err) \<leftarrow> agent_Invoke e a uri request True;
       (case err of
          Some m \<Rightarrow> Some (record_hb False a)
        | None \<Rightarrow> (case response of None \<Rightarrow> None | Some resp \<Rightarrow> Some (record_hb (Success resp) a)))
     }"

text \<open>One tick of the heartbeat's ticker.\<close>

definition heartbeat_tick :: "env \<Rightarrow> agent \<Rightarrow> agent go" where
  "heartbeat_tick e a =
     do {
       request \<leftarrow> NewRequest (opts a);
       request \<leftarrow> (if ExternalIpEnable (opts a) then AddParam ''ip'' (Ip (opts a)) request else Some request);
       request \<leftarrow> add_params [(AppInstanceKeyName, ApplicationInstance (opts a)), (AppGroupKeyName, ApplicationGroup (opts a))] request;
       sendHeartbeat e (uri_of a API_HEARTBEAT) request a
     }"

section \<open>Reports\<close>

definition ReportStatus :: "env \<Rightarrow> agent \<Rightarrow> string \<Rightarrow> string \<Rightarrow> string \<Rightarrow> string \<Rightarrow> Uri
    \<Rightarrow> (Request \<times> Response option \<times> string option) go" where
  "ReportStatus e a uid status errorMsg toolType uri =
     do {
       request \<leftarrow> NewRequest (opts a);
       request \<leftarrow> add_params [(''uid'', uid), (''status'', status)] request;
       request \<leftarrow> (if errorMsg \<noteq> [] then AddParam ''error'' errorMsg request else Some request);
       request \<leftarrow> (if toolType \<noteq> [] then AddParam ''ToolType'' toolType request else Some request);
       agent_Invoke e a uri request True
     }"

text \<open>\<open>Callback\<close>: \<^const>\<open>None\<close> inside is the silent return where the address is missing.\<close>

definition Callback :: "env \<Rightarrow> agent \<Rightarrow> int \<Rightarrow> string \<Rightarrow> string \<Rightarrow> string \<Rightarrow> string \<Rightarrow> string
    \<Rightarrow> (Request \<times> Response option \<times> string option) option go" where
  "Callback e a status oldVersion newVersion currVersion message programType =
     (case uris a ''upgradeCallback'' of
        None \<Rightarrow> Some None
      | Some uri \<Rightarrow>
          do {
            request \<leftarrow> NewRequest (opts a);
            request \<leftarrow> add_params [(''oldVersion'', oldVersion), (''newVersion'', newVersion), (''currVersion'', currVersion),
              (''status'', Itoa status), (''message'', message), (''type'', programType)] request;
            map_option Some (agent_Invoke e a uri request True)
          })"

definition Shutdown :: "env \<Rightarrow> agent \<Rightarrow> (Request \<times> Response option \<times> string option) go" where
  "Shutdown e a =
     do {
       request \<leftarrow> NewRequest (opts a);
       agent_Invoke e a (uri_of a API_CLOSE) request True
     }"

section \<open>Metric reports\<close>

text \<open>
  \<open>sync.RWMutex\<close> as one goroutine sees it when no other holds it: the locks it has itself. An
  operation that would wait for a lock of its own goroutine never returns.
\<close>

record rwmutex =
  readers :: nat
  writer :: bool

datatype 'a outcome = Returns 'a | Blocks

definition RLock :: "rwmutex \<Rightarrow> rwmutex outcome" where
  "RLock l = (if writer l then Blocks else Returns (l\<lparr>readers := Suc (readers l)\<rparr>))"

definition RUnlock :: "rwmutex \<Rightarrow> rwmutex" where
  "RUnlock l = l\<lparr>readers := readers l - 1\<rparr>"

definition Lock :: "rwmutex \<Rightarrow> rwmutex outcome" where
  "Lock l = (if writer l \<or> 0 < readers l then Blocks else Returns (l\<lparr>writer := True\<rparr>))"

definition Unlock :: "rwmutex \<Rightarrow> rwmutex" where
  "Unlock l = l\<lparr>writer := False\<rparr>"

text \<open>The ticker of an entry: whether it runs.\<close>

record ReportMetricConfig =
  MetricCollector :: "string option"
  Enable :: bool
  Period :: int
  Ticker :: "bool option"

record ReportMetricConfigMap =
  mu :: rwmutex
  ReportMetricConfigs :: "(string \<times> ReportMetricConfig) list"

definition MetricRegistry :: "string \<Rightarrow> ReportMetricConfig \<Rightarrow> ReportMetricConfigMap \<Rightarrow> ReportMetricConfigMap outcome" where
  "MetricRegistry metricName config rmc =
     (case Lock (mu rmc) of
        Blocks \<Rightarrow> Blocks
      | Returns l \<Rightarrow>
          Returns (if MetricCollector config = None then rmc\<lparr>mu := Unlock l\<rparr>
                   else rmc\<lparr>mu := Unlock l,
                            ReportMetricConfigs := AList.update metricName config (ReportMetricConfigs rmc)\<rparr>))"

definition CloseEnable :: "string \<Rightarrow> ReportMetricConfigMap \<Rightarrow> ReportMetricConfigMap outcome" where
  "CloseEnable metricName rmc =
     (case Lock (mu rmc) of
        Blocks \<Rightarrow> Blocks
      | Returns l \<Rightarrow>
          (case map_of (ReportMetricConfigs rmc) metricName of
             None \<Rightarrow> Returns (rmc\<lparr>mu := Unlock l\<rparr>)
           | Some reportConfig \<Rightarrow>
               (if Ticker reportConfig = None then Returns (rmc\<lparr>mu := Unlock l\<rparr>)
                else Returns (rmc\<lparr>mu := Unlock l,
                       ReportMetricConfigs := AList.update metricName (reportConfig\<lparr>Enable := False, Ticker := Some False\<rparr>)
                         (ReportMetricConfigs rmc)\<rparr>))))"

text \<open>
  \<open>ClientMetricHandler.Start\<close>: a ticker for each enabled entry. \<^const>\<open>None\<close> is the panic of
  \<open>time.NewTicker\<close> on a period that is not positive.
\<close>

fun start_tickers :: "(string \<times> ReportMetricConfig) list \<Rightarrow> (string \<times> ReportMetricConfig) list go" where
  "start_tickers [] = Some []"
| "start_tickers ((metricName, c) # cs) =
     (if \<not> Enable c then map_option ((#) (metricName, c)) (start_tickers cs)
      else if Period c \<le> 0 then None
      else map_option ((#) (metricName, c\<lparr>Ticker := Some True, Enable := True\<rparr>)) (start_tickers cs))"

definition metric_Start :: "ReportMetricConfigMap \<Rightarrow> ReportMetricConfigMap go outcome" where
  "metric_Start rmc =
     (case RLock (mu rmc) of
        Blocks \<Rightarrow> Blocks
      | Returns l \<Rightarrow>
          Returns (map_option (\<lambda>cs. rmc\<lparr>mu := RUnlock l, ReportMetricConfigs := cs\<rparr>)
                     (start_tickers (ReportMetricConfigs rmc))))"

fun close_all :: "string list \<Rightarrow> ReportMetricConfigMap \<Rightarrow> ReportMetricConfigMap outcome" where
  "close_all [] rmc = Returns rmc"
| "close_all (metricName # ns) rmc =
     (case CloseEnable metricName rmc of Blocks \<Rightarrow> Blocks | Returns rmc' \<Rightarrow> close_all ns rmc')"

definition metric_Stop :: "ReportMetricConfigMap \<Rightarrow> ReportMetricConfigMap outcome" where
  "metric_Stop rmc =
     (case RLock (mu rmc) of
        Blocks \<Rightarrow> Blocks
      | Returns l \<Rightarrow>
          (case close_all (map fst (ReportMetricConfigs rmc)) (rmc\<lparr>mu := l\<rparr>) of
             Blocks \<Rightarrow> Blocks
           | Returns rmc' \<Rightarrow> Returns (rmc'\<lparr>mu := RUnlock (mu rmc')\<rparr>)))"

definition InitMetricConfig :: "Options \<Rightarrow> ReportMetricConfigMap \<Rightarrow> ReportMetricConfigMap outcome" where
  "InitMetricConfig o' rmc =
     MetricRegistry ''k8sPod'' \<lparr>MetricCollector = Some ''PodCollector'', Enable = PodMetricFlag o', Period = 10 * second,
       Ticker = None\<rparr> rmc"

section \<open>The start of the handlers\<close>

text \<open>The handlers by name; a second registration under a name replaces the first.\<close>

record 'h Conn =
  clientHandlers :: "(string \<times> 'h) list"

definition NewConn :: "'h Conn" where
  "NewConn = \<lparr>clientHandlers = []\<rparr>"

definition Conn_Register :: "string \<Rightarrow> 'h \<Rightarrow> 'h Conn \<Rightarrow> 'h Conn" where
  "Conn_Register clientHandlerName clientHandler c =
     c\<lparr>clientHandlers := AList.update clientHandlerName clientHandler (clientHandlers c)\<rparr>"

text \<open>
  \<open>Conn.Start\<close>: one goroutine per handler and one that waits for their errors. A channel is
  \<^const>\<open>None\<close> while it is nil; on a nil channel neither a send nor a receive can proceed.
\<close>

datatype goroutine = Running | Sending string | Finished

record conn_state =
  gos :: "goroutine list"
  errCh :: "unit option"
  exited :: bool

definition Conn_Start :: "'h Conn \<Rightarrow> conn_state" where
  "Conn_Start c = \<lparr>gos = map (\<lambda>_. Running) (clientHandlers c), errCh = None, exited = False\<rparr>"

inductive conn_step :: "(nat \<Rightarrow> string option) \<Rightarrow> conn_state \<Rightarrow> conn_state \<Rightarrow> bool" for result where
  start_ok: "i < length (gos s) \<Longrightarrow> gos s ! i = Running \<Longrightarrow> result i = None \<Longrightarrow> \<not> exited s \<Longrightarrow>
    conn_step result s (s\<lparr>gos := (gos s)[i := Finished]\<rparr>)"
| start_err: "i < length (gos s) \<Longrightarrow> gos s ! i = Running \<Longrightarrow> result i = Some err \<Longrightarrow> \<not> exited s \<Longrightarrow>
    conn_step result s (s\<lparr>gos := (gos s)[i := Sending err]\<rparr>)"
| deliver: "i < length (gos s) \<Longrightarrow> gos s ! i = Sending err \<Longrightarrow> errCh s \<noteq> None \<Longrightarrow> \<not> exited s \<Longrightarrow>
    conn_step result s (s\<lparr>gos := (gos s)[i := Finished], exited := True\<rparr>)"

inductive_cases conn_step_cases: "conn_step result s s'"

section \<open>Building requests never panics\<close>

definition live :: "Request \<Rightarrow> bool" where
  "live r \<longleftrightarrow> Headers r \<noteq> None \<and> Params r \<noteq> None"

lemma AddHeader_live: "live r \<Longrightarrow> \<exists>r'. AddHeader k v r = Some r' \<and> live r'"
  by (auto simp: live_def AddHeader_def gset_def)

lemma AddParam_live: "live r \<Longrightarrow> \<exists>r'. AddParam k v r = Some r' \<and> live r'"
  by (auto simp: live_def AddParam_def gset_def)

lemma add_params_live: "live r \<Longrightarrow> \<exists>r'. add_params kvs r = Some r' \<and> live r'"
proof (induction kvs arbitrary: r)
  case (Cons kv kvs)
  obtain k v where kv: "kv = (k, v)" by (cases kv)
  obtain r1 where "AddParam k v r = Some r1" "live r1" using AddParam_live [OF Cons.prems] by blast
  with Cons.IH kv show ?case by simp
qed simp

lemma AddHeader_ok:
  "AddHeader k v r = Some r' \<Longrightarrow> request_ok r \<Longrightarrow> valid_utf8 k \<Longrightarrow> valid_utf8 v \<Longrightarrow> request_ok r'"
  by (auto simp: AddHeader_def gset_def intro: request_ok_AddHeader split: if_splits option.splits)

lemma AddParam_ok:
  "AddParam k v r = Some r' \<Longrightarrow> request_ok r \<Longrightarrow> valid_utf8 k \<Longrightarrow> valid_utf8 v \<Longrightarrow> request_ok r'"
  by (auto simp: AddParam_def gset_def intro: request_ok_AddParam split: if_splits option.splits)

lemma add_params_ok:
  "add_params kvs r = Some r' \<Longrightarrow> request_ok r \<Longrightarrow> (\<forall>(k, v) \<in> set kvs. valid_utf8 k \<and> valid_utf8 v) \<Longrightarrow> request_ok r'"
proof (induction kvs arbitrary: r)
  case (Cons kv kvs)
  obtain k v where kv: "kv = (k, v)" by (cases kv)
  then obtain r1 where r1: "AddParam k v r = Some r1" "add_params kvs r1 = Some r'"
    using Cons.prems(1) by (auto simp: bind_eq_Some_conv)
  with Cons.prems kv have "request_ok r1" using AddParam_ok by auto
  with Cons r1 kv show ?case by auto
qed simp

text \<open>The options whose text goes into every request.\<close>

definition opts_utf8 :: "Options \<Rightarrow> bool" where
  "opts_utf8 x \<longleftrightarrow> valid_utf8 (Pid x) \<and> valid_utf8 (Uid x) \<and> valid_utf8 (Cid x) \<and> valid_utf8 (Version x)
     \<and> valid_utf8 (ChaosbladeVersion x) \<and> valid_utf8 (Port x) \<and> valid_utf8 (Ip x)
     \<and> valid_utf8 (ApplicationInstance x) \<and> valid_utf8 (ApplicationGroup x)"

definition headers_of :: "Options \<Rightarrow> (string \<times> string) list" where
  "headers_of x =
     [(''FR'', ''C''), (''pid'', Pid x), (''uid'', Uid x)] @ (if Cid x \<noteq> [] then [(''cid'', Cid x)] else [])
     @ [(''type'', ProgramName), (''v'', Version x), (''cbv'', ChaosbladeVersion x)]"

lemma NewRequest_eq:
  "NewRequest x = Some \<lparr>Headers = Some (headers_of x), Params = Some [(''port'', Port x)]\<rparr>"
  by (simp add: NewRequest_def AddHeader_def AddParam_def gset_def headers_of_def)

lemma NewRequest_live: "NewRequest x = Some r \<Longrightarrow> live r"
  by (auto simp: NewRequest_eq live_def)

lemma ascii_keys:
  "valid_utf8 ''FR''" "valid_utf8 ''C''" "valid_utf8 ''pid''" "valid_utf8 ''uid''" "valid_utf8 ''cid''" "valid_utf8 ''type''"
  "valid_utf8 ''v''" "valid_utf8 ''cbv''" "valid_utf8 ''port''" "valid_utf8 ''ip''" "valid_utf8 ProgramName"
  "valid_utf8 AppInstanceKeyName" "valid_utf8 AppGroupKeyName"
  by (auto intro!: valid_utf8_ascii simp: ProgramName_def AppInstanceKeyName_def AppGroupKeyName_def)

lemma NewRequest_ok: "opts_utf8 x \<Longrightarrow> NewRequest x = Some r \<Longrightarrow> request_ok r"
  using ascii_keys
  by (auto simp: NewRequest_eq headers_of_def opts_utf8_def request_ok_def gomap_ok_def gomap_utf8_def)

section \<open>Registration: correctness\<close>

lemma as_string_iff [simp]: "as_string x = Some s \<longleftrightarrow> x = Some (JStr s)"
  by (cases x rule: as_string.cases) auto

lemma as_object_iff [simp]: "as_object x = Some v \<longleftrightarrow> x = Some (JObj v)"
  by (cases x rule: as_object.cases) auto

lemma take_uid_frame:
  "take_uid v a = Some a' \<Longrightarrow> keys a' = keys a \<and> files a' = files a \<and> hbs a' = hbs a \<and> Cid (opts a') = Cid (opts a)"
  by (auto simp: take_uid_def SetUid_def split: option.splits json.splits)

lemma take_keys_result:
  assumes "take_keys e v a = Some (a', err)"
  shows "opts a' = opts a \<and> (case err of
      None \<Rightarrow> \<exists>ak sk. obj_get v ''ak'' = Some (JStr ak) \<and> obj_get v ''sk'' = Some (JStr sk) \<and> ak \<noteq> [] \<and> sk \<noteq> []
        \<and> GetAccessKey (keys a') = ak \<and> GetSecureKey (keys a') = sk
    | Some m \<Rightarrow> keys a' = keys a)"
proof (cases "\<exists>ak sk. obj_get v ''ak'' = Some (JStr ak) \<and> obj_get v ''sk'' = Some (JStr sk)")
  case True
  then obtain ak sk where k: "obj_get v ''ak'' = Some (JStr ak)" "obj_get v ''sk'' = Some (JStr sk)" by blast
  obtain w ks err' where r: "RecordSecretKeyToFile (e_order e) (e_home e) (files a) (keys a) ak sk = ((w, ks), err')"
    by (metis prod.exhaust)
  with assms k have "a' = a\<lparr>files := w, keys := ks\<rparr>" "err = err'" by (auto simp: take_keys_def)
  with RecordSecretKeyToFile_keys [OF r] k show ?thesis by (cases err') auto
next
  case False
  then show ?thesis using assms by (auto simp: take_keys_def bind_eq_Some_conv split: if_splits)
qed

text \<open>
  a registration that succeeds stores the client id and both keys of the response, which are not
  empty; one that returns an error leaves the keys of the agent as they were.
\<close>

theorem handle_response_keys:
  assumes "handleDirectHttpConnectResponse e a response = Some (a', err)"
  shows "case err of
      None \<Rightarrow> \<exists>v cid ak sk. Success response \<and> Result response = JObj v
        \<and> obj_get v ''cid'' = Some (JStr cid) \<and> obj_get v ''ak'' = Some (JStr ak) \<and> obj_get v ''sk'' = Some (JStr sk)
        \<and> ak \<noteq> [] \<and> sk \<noteq> [] \<and> Cid (opts a') = cid \<and> GetAccessKey (keys a') = ak \<and> GetSecureKey (keys a') = sk
    | Some m \<Rightarrow> keys a' = keys a"
proof (cases "Success response \<and> (\<exists>v. Result response = JObj v)")
  case True
  then obtain v where v: "Success response" "Result response = JObj v" by blast
  with assms obtain cid a1 where c: "obj_get v ''cid'' = Some (JStr cid)"
    and u: "take_uid v (a\<lparr>opts := SetCid cid (opts a)\<rparr>) = Some a1" and k: "take_keys e v a1 = Some (a', err)"
    by (auto simp: handleDirectHttpConnectResponse_def bind_eq_Some_conv)
  have "keys a1 = keys a" "Cid (opts a1) = cid" using take_uid_frame [OF u] by (simp_all add: SetCid_def)
  with take_keys_result [OF k] v c show ?thesis by (cases err) auto
next
  case False
  then show ?thesis
    using assms by (auto simp: handleDirectHttpConnectResponse_def split: if_splits option.splits)
qed

definition sample_result :: json where
  "sample_result = JObj [(''cid'', JStr ''c1''), (''uid'', JStr ''u1''), (''ak'', JStr ''a1''), (''sk'', JStr ''s1'')]"

definition sample_env :: env where
  "sample_env = \<lparr>e_now = 1700000000000000000, e_uuid = ''r-1'', e_chan = (\<lambda>u b. Inl ''down''), e_home = None, e_order = id,
     e_uptime = [], e_numCPU = 4, e_memTotal = None\<rparr>"

definition sample_agent :: agent where
  "sample_agent = \<lparr>opts = AddFlags zero_Options, keys = \<lparr>localAccessKey = [], localSecureKey = []\<rparr>, files = plain_fs,
     uris = InitTransprotUri (AddFlags zero_Options), hbs = HBSnapshotList\<rparr>"

theorem handle_response_keys_witness:
  "\<exists>a'. handleDirectHttpConnectResponse sample_env sample_agent (ReturnSuccessWithResult sample_result) = Some (a', None)
     \<and> GetAccessKey (keys a') = ''a1'' \<and> GetSecureKey (keys a') = ''s1''"
proof -
  obtain a' where r: "handleDirectHttpConnectResponse sample_env sample_agent (ReturnSuccessWithResult sample_result) = Some (a', None)"
    by (simp add: handleDirectHttpConnectResponse_def ReturnSuccessWithResult_def sample_result_def obj_get_def take_uid_def
        take_keys_def RecordSecretKeyToFile_def RecordMapToFile_def sample_agent_def sample_env_def plain_fs_def)
  from handle_response_keys [OF r] r show ?thesis
    by (auto simp: ReturnSuccessWithResult_def sample_result_def obj_get_def)
qed

text \<open>
  a successful registration response whose \<open>cid\<close> is missing or not a string panics, and the
  goroutine that registers has no handler for a panic.
\<close>

theorem registration_panics_without_cid:
  assumes "Success response" "Result response = JObj v" "\<forall>cid. obj_get v ''cid'' \<noteq> Some (JStr cid)"
  shows "handleDirectHttpConnectResponse e a response = None"
proof -
  have "as_string (obj_get v ''cid'') = None" using assms(3) by (metis as_string_iff not_Some_eq)
  then show ?thesis using assms(1,2) by (simp add: handleDirectHttpConnectResponse_def)
qed

theorem registration_panics_without_cid_witness:
  "handleDirectHttpConnectResponse sample_env sample_agent (ReturnSuccessWithResult (JObj [(''ak'', JStr ''a'')])) = None"
  by (rule registration_panics_without_cid [where v = "[(''ak'', JStr ''a'')]"])
    (simp_all add: ReturnSuccessWithResult_def obj_get_def)

section \<open>Heartbeat: correctness\<close>

text \<open>What a call with interceptors comes to for a live request.\<close>

lemma agent_Invoke_unregistered:
  assumes "live r" "GetAccessKey (keys a) = [] \<or> GetSecureKey (keys a) = []"
  shows "\<exists>r'. agent_Invoke e a uri r True = Some (r', Some (ReturnFail TokenNotFound []), Some (Error (ReturnFail TokenNotFound [])))"
proof -
  obtain r1 where "AddParam TimestampKey (Itoa (getCurrentTimeInMillis (e_now e))) r = Some r1"
    using AddParam_live [OF assms(1)] by blast
  with assms(2) show ?thesis by (auto simp: agent_Invoke_def Invoke_def BuildInterceptor_def)
qed

definition answer :: "channel \<Rightarrow> Uri \<Rightarrow> string \<Rightarrow> Response option \<times> string option" where
  "answer chan uri body =
     (case chan uri body of
        Inl err \<Rightarrow> (None, Some err)
      | Inr result \<Rightarrow> (case unmarshal_response result of
          (response, True) \<Rightarrow> (Some response, None) | (response, False) \<Rightarrow> (None, Some ''invalid response'')))"

lemma agent_Invoke_registered:
  assumes "live r" "GetAccessKey (keys a) \<noteq> []" "GetSecureKey (keys a) \<noteq> []"
  shows "\<exists>r'. prepared (keys a) (e_now e) (e_uuid e) r = Some r' \<and>
    agent_Invoke e a uri r True = Some (r', answer (e_chan e) (uri\<lparr>RequestId := e_uuid e\<rparr>) (json_print (json_of_request r')))"
proof -
  obtain h p where hp: "Headers r = Some h" "Params r = Some p" using assms(1) by (auto simp: live_def)
  obtain r' where r': "prepared (keys a) (e_now e) (e_uuid e) r = Some r'"
    using chain_Invoke_signed [OF hp assms(2,3)]
    by (auto simp: prepared_def AddHeader_def gset_def signed_def Let_def)
  with Invoke_prepared [OF r'] show ?thesis by (auto simp: agent_Invoke_def answer_def)
qed

lemma answer_error_None: "answer chan uri body = (resp, None) \<Longrightarrow> resp \<noteq> None"
  by (auto simp: answer_def split: sum.splits prod.splits bool.splits)

lemma heartbeat_tick_spec:
  "\<exists>b. heartbeat_tick e a = Some (record_hb b a)
     \<and> (b \<longleftrightarrow> GetAccessKey (keys a) \<noteq> [] \<and> GetSecureKey (keys a) \<noteq> []
          \<and> (\<exists>r' resp. agent_Invoke e a (uri_of a API_HEARTBEAT)
                (\<lparr>Headers = Some (headers_of (opts a)),
                  Params = Some ([(''port'', Port (opts a))]
                    @ (if ExternalIpEnable (opts a) then [(''ip'', Ip (opts a))] else [])
                    @ [(AppInstanceKeyName, ApplicationInstance (opts a)), (AppGroupKeyName, ApplicationGroup (opts a))])\<rparr>) True
                = Some (r', Some resp, None) \<and> Success resp))"
proof -
  let ?r = "\<lparr>Headers = Some (headers_of (opts a)),
    Params = Some ([(''port'', Port (opts a))] @ (if ExternalIpEnable (opts a) then [(''ip'', Ip (opts a))] else [])
      @ [(AppInstanceKeyName, ApplicationInstance (opts a)), (AppGroupKeyName, ApplicationGroup (opts a))])\<rparr>"
  have live: "live ?r" by (simp add: live_def)
  have tick: "heartbeat_tick e a = sendHeartbeat e (uri_of a API_HEARTBEAT) ?r a"
    by (simp add: heartbeat_tick_def NewRequest_eq AddParam_def gset_def AppInstanceKeyName_def AppGroupKeyName_def)
  show ?thesis
  proof (cases "GetAccessKey (keys a) = [] \<or> GetSecureKey (keys a) = []")
    case True
    from agent_Invoke_unregistered [OF live True, of e "uri_of a API_HEARTBEAT"] tick True
    show ?thesis by (auto simp: sendHeartbeat_def)
  next
    case False
    then obtain r' resp err where i: "agent_Invoke e a (uri_of a API_HEARTBEAT) ?r True = Some (r', resp, err)"
      and n: "err = None \<Longrightarrow> resp \<noteq> None"
      using agent_Invoke_registered [OF live, of a e "uri_of a API_HEARTBEAT"] answer_error_None by (metis prod.collapse)
    show ?thesis
    proof (cases err)
      case None
      with n obtain x where "resp = Some x" by blast
      with i None tick False show ?thesis by (auto simp: sendHeartbeat_def)
    next
      case (Some m)
      with i tick False show ?thesis by (auto simp: sendHeartbeat_def)
    qed
  qed
qed

text \<open>
  every tick of the heartbeat returns and records exactly one result: success where the agent is
  registered and the server answers the signed request with a response that says so, failure in every
  other case; before the registration the channel is not used at all.
\<close>

theorem heartbeat_tick_records:
  "\<exists>b. heartbeat_tick e a = Some (record_hb b a)
     \<and> (b \<longleftrightarrow> GetAccessKey (keys a) \<noteq> [] \<and> GetSecureKey (keys a) \<noteq> []
          \<and> (\<exists>r' resp. agent_Invoke e a (uri_of a API_HEARTBEAT)
                (\<lparr>Headers = Some (headers_of (opts a)),
                  Params = Some ([(''port'', Port (opts a))]
                    @ (if ExternalIpEnable (opts a) then [(''ip'', Ip (opts a))] else [])
                    @ [(AppInstanceKeyName, ApplicationInstance (opts a)), (AppGroupKeyName, ApplicationGroup (opts a))])\<rparr>) True
                = Some (r', Some resp, None) \<and> Success resp))"
  by (rule heartbeat_tick_spec)

section \<open>The lock of the metric registry\<close>

text \<open>
  \<open>ClientMetricHandler.Stop\<close> never returns once a metric is registered: it holds the read lock
  when \<open>CloseEnable\<close> asks for the write lock.
\<close>

theorem metric_Stop_blocks:
  assumes "ReportMetricConfigs rmc \<noteq> []" "\<not> writer (mu rmc)"
  shows "metric_Stop rmc = Blocks"
proof -
  obtain c cs where "ReportMetricConfigs rmc = c # cs" using assms(1) by (cases "ReportMetricConfigs rmc") auto
  with assms(2) show ?thesis by (simp add: metric_Stop_def RLock_def CloseEnable_def Lock_def)
qed

text \<open>Alone, \<open>CloseEnable\<close> stops the ticker of its entry and leaves the others and the lock alone.\<close>

lemma CloseEnable_stops:
  assumes "\<not> writer (mu rmc)" "readers (mu rmc) = 0" "map_of (ReportMetricConfigs rmc) n = Some c" "Ticker c \<noteq> None"
  shows "\<exists>rmc'. CloseEnable n rmc = Returns rmc' \<and> mu rmc' = mu rmc
    \<and> map_of (ReportMetricConfigs rmc') = (map_of (ReportMetricConfigs rmc))(n \<mapsto> c\<lparr>Enable := False, Ticker := Some False\<rparr>)"
  using assms by (auto simp: CloseEnable_def Lock_def Unlock_def update_conv')

theorem metric_Stop_blocks_witness:
  "\<exists>rmc. InitMetricConfig zero_Options \<lparr>mu = \<lparr>readers = 0, writer = False\<rparr>, ReportMetricConfigs = []\<rparr> = Returns rmc
     \<and> metric_Stop rmc = Blocks"
proof -
  obtain rmc where r: "InitMetricConfig zero_Options \<lparr>mu = \<lparr>readers = 0, writer = False\<rparr>, ReportMetricConfigs = []\<rparr> = Returns rmc"
    and n: "ReportMetricConfigs rmc \<noteq> []" "\<not> writer (mu rmc)"
    by (simp add: InitMetricConfig_def MetricRegistry_def Lock_def Unlock_def)
  from metric_Stop_blocks [OF n] r show ?thesis by blast
qed

section \<open>The start of the handlers: correctness\<close>

text \<open>Where the goroutine of a handler with the given result can be.\<close>

fun allowed :: "string option \<Rightarrow> goroutine \<Rightarrow> bool" where
  "allowed None g \<longleftrightarrow> g = Running \<or> g = Finished"
| "allowed (Some err) g \<longleftrightarrow> g = Running \<or> g = Sending err"

lemma allowed_Running [simp]: "allowed r Running"
  by (cases r) simp_all

text \<open>
  the process never exits because a connection handler fails to start: the error channel is nil,
  so the error is never delivered and the goroutine that wants to report it waits for ever.
\<close>

theorem conn_start_never_exits:
  "(conn_step result)\<^sup>*\<^sup>* (Conn_Start c) s \<Longrightarrow>
     \<not> exited s \<and> length (gos s) = length (clientHandlers c)
     \<and> (\<forall>i < length (clientHandlers c). allowed (result i) (gos s ! i))
     \<and> errCh s = None"
proof (induction rule: rtranclp_induct)
  case base
  then show ?case by (simp add: Conn_Start_def)
next
  case (step s s')
  from step.hyps(2) step.IH show ?case
    by (cases rule: conn_step_cases) (auto simp: nth_list_update)
qed

theorem conn_start_never_exits_witness:
  "\<exists>s. (conn_step (\<lambda>_. Some ''refused''))\<^sup>*\<^sup>* (Conn_Start (Conn_Register ''registry'' () NewConn)) s \<and> gos s = [Sending ''refused''] \<and> \<not> exited s"
proof -
  let ?s = "(Conn_Start (Conn_Register ''registry'' () NewConn))\<lparr>gos := [Sending ''refused'']\<rparr>"
  have "conn_step (\<lambda>_. Some ''refused'') (Conn_Start (Conn_Register ''registry'' () NewConn)) ?s"
    using conn_step.start_err [of 0 "Conn_Start (Conn_Register ''registry'' () NewConn)" "\<lambda>_. Some ''refused''" "''refused''"] by (simp add: Conn_Start_def Conn_Register_def NewConn_def)
  then have "(conn_step (\<lambda>_. Some ''refused''))\<^sup>*\<^sup>* (Conn_Start (Conn_Register ''registry'' () NewConn)) ?s" by blast
  with conn_start_never_exits [OF this] show ?thesis by auto
qed

end
