(* ===== verification/Agent_Monitor.thy ===== *)
theory Agent_Monitor
  imports Agent_Conn
begin

text \<open>
  Package \<open>monitor\<close>: the decision to stop or to start again from the history of heartbeats, and the
  loop that reports it. The main lemma says which window of the history decides.
\<close>

section \<open>The checker\<close>

record monitorAction =
  needStop :: bool
  needStart :: bool
  needExit :: bool
  reason :: string

definition recover :: "monitorAction \<Rightarrow> monitorAction" where
  "recover action = action\<lparr>needStart := False, needStop := False, needExit := False, reason := []\<rparr>"

definition hbStopThreshold :: nat where "hbStopThreshold = 12"
definition hbStartThreshold :: nat where "hbStartThreshold = 3"

text \<open>The variables the callback of \<open>checkHeartBeat\<close> updates.\<close>

record hb_walk =
  failCount :: nat
  succCount :: nat
  alreadyStoped :: bool
  act :: monitorAction

definition hb_visit :: "hb_walk \<Rightarrow> bool \<Rightarrow> hb_walk \<times> string option" where
  "hb_visit w success =
     (let w1 = (if \<not> success then w\<lparr>failCount := Suc (failCount w), succCount := 0\<rparr>
                else w\<lparr>succCount := Suc (succCount w), failCount := 0\<rparr>)
      in if failCount w1 = hbStopThreshold \<and> \<not> alreadyStoped w1 then
           (w1\<lparr>alreadyStoped := True, act := (recover (act w1))\<lparr>needStop := True, reason := ''stop because of heartbeat''\<rparr>\<rparr>,
            Some ''nolog'')
         else if failCount w1 = hbStopThreshold \<and> alreadyStoped w1 then (w1, Some ''nolog'')
         else if succCount w1 = hbStartThreshold \<and> alreadyStoped w1 then
           (w1\<lparr>act := (recover (act w1))\<lparr>needStart := True\<rparr>\<rparr>, Some ''nolog'')
         else if succCount w1 = hbStartThreshold \<and> \<not> alreadyStoped w1 then (w1, Some ''nolog'')
         else (w1, None))"

definition checkHeartBeat :: "bool LimitedList \<Rightarrow> bool \<Rightarrow> monitorAction \<Rightarrow> bool \<times> monitorAction" where
  "checkHeartBeat history stoped action =
     (let w = ForeachReverse hb_visit True \<lparr>failCount = 0, succCount = 0, alreadyStoped = stoped, act = action\<rparr> history
      in (alreadyStoped w, act w))"

text \<open>\<open>check\<close>: the flag \<open>hbAlreadyStoped\<close> afterwards and the action.\<close>

definition zero_action :: monitorAction where
  "zero_action = \<lparr>needStop = False, needStart = False, needExit = False, reason = []\<rparr>"

definition check :: "bool LimitedList \<Rightarrow> bool \<Rightarrow> bool \<times> monitorAction" where
  "check history stoped =
     (let (stoped', action) = checkHeartBeat history stoped (recover zero_action)
      in if needStop action then (stoped', action)
         else if needExit action then (stoped', action)
         else if needStart action then (False, action)
         else (stoped', action))"

section \<open>The monitor\<close>

datatype monitor_effect = SendEvent string string | Kill_self

text \<open>One round of \<open>doMonitor\<close>: the flag afterwards and the effects in order.\<close>

definition monitor_round :: "bool LimitedList \<Rightarrow> bool \<Rightarrow> bool \<times> monitor_effect list" where
  "monitor_round history stoped =
     (let (stoped', action) = check history stoped
      in (stoped',
          (if needStop action then [SendEvent ''stop'' (''monitor exception['' @ reason action @ ''], stop'')] else [])
          @ (if needExit action then [Kill_self] else [])
          @ (if needStart action then [SendEvent ''start'' (''recover['' @ reason action @ ''], start'')] else [])))"

text \<open>The rounds over the histories the monitor sees.\<close>

fun doMonitor :: "bool LimitedList list \<Rightarrow> bool \<Rightarrow> monitor_effect list" where
  "doMonitor [] stoped = []"
| "doMonitor (h # hs) stoped = (let (stoped', effs) = monitor_round h stoped in effs @ doMonitor hs stoped')"

definition sendEventToServer :: "env \<Rightarrow> agent \<Rightarrow> string \<Rightarrow> string \<Rightarrow> (Request \<times> Response option \<times> string option) option go" where
  "sendEventToServer e a event why =
     (case uris a API_EVENT of
        None \<Rightarrow> Some None
      | Some uri \<Rightarrow>
          do {
            request \<leftarrow> NewRequest (opts a);
            request \<leftarrow> add_params [(''event'', event), (''reason'', why)] request;
            map_option Some (agent_Invoke e a uri request True)
          })"

section \<open>Which window decides\<close>

text \<open>The lengths of the current runs at the end of the part of the history already seen.\<close>

definition run_of :: "bool \<Rightarrow> bool list \<Rightarrow> nat" where
  "run_of b seen = length (takeWhile ((=) b) (rev seen))"

text \<open>
  The specification, newest entry first: the shortest prefix that ends in a full window of twelve
  failures or of three successes decides; no entry after it is looked at.
\<close>

definition window :: "bool \<Rightarrow> nat \<Rightarrow> bool list \<Rightarrow> bool" where
  "window b n xs \<longleftrightarrow> n \<le> length xs \<and> (\<forall>x \<in> set (take n (rev xs)). x = b)"

definition full_window :: "bool list \<Rightarrow> bool option" where
  "full_window xs =
     (if window False hbStopThreshold xs then Some False
      else if window True hbStartThreshold xs then Some True
      else None)"

fun decide :: "bool list \<Rightarrow> bool list \<Rightarrow> bool option" where
  "decide seen [] = None"
| "decide seen (x # xs) =
     (case full_window (seen @ [x]) of Some b \<Rightarrow> Some b | None \<Rightarrow> decide (seen @ [x]) xs)"

lemma run_of_snoc: "run_of b (seen @ [x]) = (if x = b then Suc (run_of b seen) else 0)"
  by (auto simp: run_of_def)

lemma window_run: "window b n xs \<longleftrightarrow> n \<le> run_of b xs"
proof
  assume w: "window b n xs"
  have "takeWhile ((=) b) (take n (rev xs)) = take n (rev xs)"
    using w by (intro takeWhile_eq_all_conv [THEN iffD2]) (auto simp: window_def)
  moreover have "length (takeWhile ((=) b) (take n (rev xs))) \<le> length (takeWhile ((=) b) (rev xs))"
    by (metis append_take_drop_id le_cases length_append le_add1 takeWhile_append1 takeWhile_append2 takeWhile_eq_all_conv calculation)
  moreover have "length (take n (rev xs)) = n" using w by (simp add: window_def)
  ultimately show "n \<le> run_of b xs" unfolding run_of_def by metis
next
  assume n: "n \<le> run_of b xs"
  then have "take n (rev xs) = take n (takeWhile ((=) b) (rev xs))"
    by (metis append_take_drop_id run_of_def take_append takeWhile_dropWhile_id diff_is_0_eq take_0 append_Nil2)
  moreover have "n \<le> length xs" using n length_takeWhile_le [of "(=) b" "rev xs"] by (simp add: run_of_def)
  ultimately show "window b n xs" by (auto simp: window_def dest: in_set_takeD set_takeWhileD)
qed

text \<open>The actions the checker can take.\<close>

definition stop_action :: monitorAction where
  "stop_action = zero_action\<lparr>needStop := True, reason := ''stop because of heartbeat''\<rparr>"

definition start_action :: monitorAction where
  "start_action = zero_action\<lparr>needStart := True\<rparr>"

definition verdict :: "bool option \<Rightarrow> bool \<Rightarrow> monitorAction \<Rightarrow> bool \<times> monitorAction" where
  "verdict d stoped action =
     (case d of
        Some False \<Rightarrow> if stoped then (stoped, action) else (True, stop_action)
      | Some True \<Rightarrow> if stoped then (stoped, start_action) else (stoped, action)
      | None \<Rightarrow> (stoped, action))"

lemma recover_zero [simp]: "recover a = zero_action"
  by (simp add: recover_def zero_action_def)

lemma full_window_run:
  "full_window xs = (if 12 \<le> run_of False xs then Some False else if 3 \<le> run_of True xs then Some True else None)"
  by (simp add: full_window_def window_run hbStopThreshold_def hbStartThreshold_def)

text \<open>The counting loop computes the specification.\<close>

lemma walk_decide:
  assumes "failCount w = run_of False seen" "succCount w = run_of True seen" "full_window seen = None"
  shows "(alreadyStoped (walk hb_visit True w xs), act (walk hb_visit True w xs)) = verdict (decide seen xs) (alreadyStoped w) (act w)"
  using assms
proof (induction xs arbitrary: w seen)
  case Nil
  then show ?case by (simp add: verdict_def)
next
  case (Cons x xs)
  have lt: "run_of False seen < 12" "run_of True seen < 3"
    using Cons.prems(3) by (auto simp: full_window_run split: if_splits)
  show ?case
  proof (cases "full_window (seen @ [x])")
    case (Some b)
    then have "b = x" using lt by (auto simp: full_window_run run_of_snoc split: if_splits)
    with Some lt Cons.prems(1,2) show ?thesis
      by (cases x) (auto simp: hb_visit_def Let_def hbStopThreshold_def hbStartThreshold_def run_of_snoc full_window_run
          verdict_def stop_action_def start_action_def split: if_splits)
  next
    case None
    define w1 where "w1 = (if \<not> x then w\<lparr>failCount := Suc (failCount w), succCount := 0\<rparr>
      else w\<lparr>succCount := Suc (succCount w), failCount := 0\<rparr>)"
    have v: "hb_visit w x = (w1, None)"
      using None lt Cons.prems(1,2)
      by (auto simp: w1_def hb_visit_def Let_def hbStopThreshold_def hbStartThreshold_def full_window_run run_of_snoc split: if_splits)
    have "failCount w1 = run_of False (seen @ [x])" "succCount w1 = run_of True (seen @ [x])"
      "alreadyStoped w1 = alreadyStoped w" "act w1 = act w"
      using Cons.prems(1,2) by (auto simp: w1_def run_of_snoc)
    with Cons.IH [of w1 "seen @ [x]"] None v show ?thesis by simp
  qed
qed

lemma checkHeartBeat_verdict:
  "checkHeartBeat history stoped action = verdict (decide [] (rev (items history))) stoped action"
proof -
  have "full_window [] = None" by (simp add: full_window_run run_of_def)
  then show ?thesis
    using walk_decide [of "\<lparr>failCount = 0, succCount = 0, alreadyStoped = stoped, act = action\<rparr>" "[]"]
    by (simp add: checkHeartBeat_def ForeachReverse_def Let_def run_of_def)
qed

lemma check_verdict:
  "check history stoped =
     (case decide [] (rev (items history)) of
        Some False \<Rightarrow> if stoped then (True, zero_action) else (True, stop_action)
      | Some True \<Rightarrow> if stoped then (False, start_action) else (False, zero_action)
      | None \<Rightarrow> (stoped, zero_action))"
  by (auto simp: check_def checkHeartBeat_verdict verdict_def zero_action_def stop_action_def start_action_def
      split: option.split bool.split)

text \<open>
  C10: the checker's counting loop implements the window rule: scanning from the newest heartbeat, the
  first full window of twelve failures or three successes decides, a stop is issued only when not
  yet stopped and a start only when stopped, and without a full window nothing changes.
\<close>

theorem check_implements_windows:
  "check history stoped =
     (case decide [] (rev (items history)) of
        Some False \<Rightarrow> if stoped then (True, zero_action) else (True, stop_action)
      | Some True \<Rightarrow> if stoped then (False, start_action) else (False, zero_action)
      | None \<Rightarrow> (stoped, zero_action))"
  by (rule check_verdict)

text \<open>A run at the newest end decides, whatever came before.\<close>

definition threshold :: "bool \<Rightarrow> nat" where
  "threshold b = (if b then hbStartThreshold else hbStopThreshold)"

lemma run_of_replicate: "run_of b (replicate k c) = (if b = c then k else 0)"
proof (induction k)
  case (Suc k)
  have "replicate (Suc k) c = replicate k c @ [c]" by (simp add: replicate_append_same)
  with Suc show ?case by (simp only: run_of_snoc) auto
qed (simp add: run_of_def)

lemma full_window_replicate: "full_window (replicate j b) = (if threshold b \<le> j then Some b else None)"
  by (cases b) (simp_all add: full_window_run run_of_replicate threshold_def hbStopThreshold_def hbStartThreshold_def)

lemma decide_run:
  "k < threshold b \<Longrightarrow> decide (replicate k b) (replicate (threshold b - k) b @ ys) = Some b"
proof (induction "threshold b - k" arbitrary: k)
  case (Suc m)
  have snoc: "replicate k b @ [b] = replicate (Suc k) b" by (simp add: replicate_append_same)
  have "threshold b - k = Suc (threshold b - Suc k)" using Suc.prems by simp
  then have step: "replicate (threshold b - k) b @ ys = b # replicate (threshold b - Suc k) b @ ys" by simp
  have "full_window (replicate (Suc k) b) = (if Suc k = threshold b then Some b else None)"
    using Suc.prems unfolding full_window_replicate by simp
  moreover have "decide (replicate (Suc k) b) (replicate (threshold b - Suc k) b @ ys) = Some b" if "Suc k \<noteq> threshold b"
    using that Suc.prems Suc.hyps(2) by (intro Suc.hyps(1)) auto
  ultimately show ?case unfolding step decide.simps snoc by (cases "Suc k = threshold b") simp_all
qed simp

lemma decide_newest: "threshold b \<le> n \<Longrightarrow> decide [] (replicate n b @ ys) = Some b"
proof -
  assume "threshold b \<le> n"
  then have "replicate n b = replicate (threshold b) b @ replicate (n - threshold b) b"
    by (simp add: replicate_add [symmetric])
  moreover have "0 < threshold b" by (simp add: threshold_def hbStopThreshold_def hbStartThreshold_def)
  ultimately show ?thesis using decide_run [of 0 b "replicate (n - threshold b) b @ ys"] by simp
qed

lemma newest_after_puts:
  assumes "list_inv h" "int n \<le> cap h"
  shows "\<exists>ys. rev (items (limited.puts (replicate n b) h)) = replicate n b @ ys"
proof -
  have "length (items h) + n - nat (cap h) \<le> length (items h)"
    using assms by (simp add: list_inv_def)
  then show ?thesis using limited.puts_window [OF assms(1), of "replicate n b"] by simp
qed

text \<open>
  twelve failed heartbeats in a row make an agent that is not stopped report a stop, once: the
  flag is then set, further failures report nothing, and three successes in a row report the start,
  whatever the history held before.
\<close>

theorem heartbeat_loss_stops_once:
  assumes "list_inv h" "26 \<le> cap h" "12 \<le> n" "n \<le> 26" "3 \<le> m" "m \<le> 26"
  shows "check (foldl (\<lambda>l v. Put v l) h (replicate n False)) False = (True, stop_action)
    \<and> check (foldl (\<lambda>l v. Put v l) h (replicate n False)) True = (True, zero_action)
    \<and> check (foldl (\<lambda>l v. Put v l) (foldl (\<lambda>l v. Put v l) h (replicate n False)) (replicate m True)) True = (False, start_action)"
proof -
  let ?f = "limited.puts (replicate n False) h"
  have i: "list_inv ?f" using assms(1) by (rule limited.puts_inv)
  have "nat (cap ?f) = nat (cap h)" by (rule limited.puts_bound)
  then have c: "26 \<le> cap ?f" using assms(2) by linarith
  obtain ys where f: "rev (items ?f) = replicate n False @ ys"
    using newest_after_puts [OF assms(1), of n False] assms by auto
  obtain zs where t: "rev (items (limited.puts (replicate m True) ?f)) = replicate m True @ zs"
    using newest_after_puts [OF i, of m True] c assms by auto
  have "decide [] (rev (items ?f)) = Some False"
    unfolding f by (rule decide_newest) (use assms in \<open>simp add: threshold_def hbStopThreshold_def\<close>)
  moreover have "decide [] (rev (items (limited.puts (replicate m True) ?f))) = Some True"
    unfolding t by (rule decide_newest) (use assms in \<open>simp add: threshold_def hbStartThreshold_def\<close>)
  ultimately show ?thesis by (simp add: check_verdict limited.puts_def)
qed

theorem heartbeat_loss_stops_once_witness:
  "check (foldl (\<lambda>l v. Put v l) HBSnapshotList (replicate 12 False)) False = (True, stop_action)
   \<and> check (foldl (\<lambda>l v. Put v l) HBSnapshotList (replicate 12 False)) True = (True, zero_action)"
  using heartbeat_loss_stops_once [of HBSnapshotList 12 3] by (simp add: HBSnapshotList_def list_inv_def)

text \<open>The reports of a run alternate, starting with the one the flag allows.\<close>

fun alternates :: "bool \<Rightarrow> monitor_effect list \<Rightarrow> bool" where
  "alternates stoped [] \<longleftrightarrow> True"
| "alternates stoped (SendEvent kind r # es) \<longleftrightarrow> kind = (if stoped then ''start'' else ''stop'') \<and> alternates (\<not> stoped) es"
| "alternates stoped (Kill_self # es) \<longleftrightarrow> False"

lemma alternates_round:
  "monitor_round h stoped = (stoped', effs) \<Longrightarrow> alternates stoped' es \<Longrightarrow> alternates stoped (effs @ es)"
  by (auto simp: monitor_round_def check_verdict zero_action_def stop_action_def start_action_def
      split: option.splits bool.splits if_splits)

text \<open>
  over any sequence of heartbeat histories the monitor's reports alternate between stop and start,
  beginning with a stop, and it never kills the process.
\<close>

theorem monitor_events_alternate: "alternates stoped (doMonitor hs stoped)"
proof (induction hs arbitrary: stoped)
  case (Cons h hs)
  obtain stoped' effs where r: "monitor_round h stoped = (stoped', effs)" by fastforce
  with alternates_round [OF r Cons.IH] show ?case by simp
qed simp

text \<open>
  no event ever reaches the server: the address of the event handler is not among the addresses the
  agent sets up, so \<open>sendEventToServer\<close> returns without a call.
\<close>

theorem events_are_never_sent:
  assumes "uris a = InitTransprotUri o'"
  shows "sendEventToServer e a event why = Some None"
  using assms by (simp add: sendEventToServer_def InitTransprotUri_def api_consts)

theorem events_are_never_sent_witness: "sendEventToServer sample_env sample_agent ''stop'' ''heartbeat'' = Some None"
  by (rule events_are_never_sent [of _ "AddFlags zero_Options"]) (simp add: sample_agent_def)

end
