(* ===== verification/Agent_Collector.thy ===== *)
theory Agent_Collector
  imports Agent_Conn
begin

text \<open>
  The base of the Kubernetes collectors (\<open>collector/kubernetes/kubernetes.go\<close> and \<open>common.go\<close>): the
  cache of resource identifiers, the incremental report every collector makes from it, the report to
  the server and the reset of the cache, and the helpers on services, selectors and list watchers.

  The increment and the sweep are written once, over an interface of the resource's info (its common
  part, its JSON form and the brief form that stands for an unchanged resource); the locale
  \<open>resource_info\<close> states that interface, and each collector's theory interprets it.
\<close>

section \<open>Common data\<close>

record CommonInfo =
  c_Uid :: string
  c_Name :: string
  CreatedTime :: string
  c_Labels :: gomap
  Exist :: bool
  c_Cid :: string

text \<open>The members of a struct with \<open>omitempty\<close>: a zero value is left out.\<close>

definition opt_str :: "string \<Rightarrow> string \<Rightarrow> (string \<times> json) list" where
  "opt_str k s = (if s = [] then [] else [(k, JStr s)])"

definition opt_int :: "string \<Rightarrow> int \<Rightarrow> (string \<times> json) list" where
  "opt_int k n = (if n = 0 then [] else [(k, JNum (Itoa n))])"

definition opt_map :: "string \<Rightarrow> gomap \<Rightarrow> (string \<times> json) list" where
  "opt_map k m = (case m of None \<Rightarrow> [] | Some [] \<Rightarrow> [] | Some al \<Rightarrow> [(k, json_of_map (Some al))])"

definition opt_strs :: "string \<Rightarrow> string list \<Rightarrow> (string \<times> json) list" where
  "opt_strs k xs = (if xs = [] then [] else [(k, JArr (map JStr xs))])"

definition common_members :: "CommonInfo \<Rightarrow> (string \<times> json) list" where
  "common_members c =
     [(''uid'', JStr (c_Uid c)), (''name'', JStr (c_Name c)), (''createdTime'', JStr (CreatedTime c))]
     @ opt_map ''labels'' (c_Labels c) @ [(''exist'', JBool (Exist c))] @ opt_str ''cid'' (c_Cid c)"

definition zero_CommonInfo :: CommonInfo where
  "zero_CommonInfo = \<lparr>c_Uid = [], c_Name = [], CreatedTime = [], c_Labels = None, Exist = False, c_Cid = []\<rparr>"

text \<open>The common part of a brief report: identifiers and existence only.\<close>

definition brief_common :: "string \<Rightarrow> string \<Rightarrow> bool \<Rightarrow> CommonInfo" where
  "brief_common uid cid ex = zero_CommonInfo\<lparr>c_Uid := uid, c_Cid := cid, Exist := ex\<rparr>"

section \<open>The identifier cache\<close>

record ResourceIdentifier =
  r_Uid :: string
  r_Cid :: string
  Md5 :: string
  Curr :: bool
  r_name :: string

type_synonym identifiers = "(string \<times> ResourceIdentifier) list"

text \<open>
  The interface of a resource's info: \<open>common\<close> reads its embedded \<open>CommonInfo\<close>, \<open>brief\<close> is the info with
  nothing but a common part, \<open>enc\<close> its JSON form.
\<close>

definition handleIncrement ::
  "('i \<Rightarrow> CommonInfo) \<Rightarrow> (CommonInfo \<Rightarrow> 'i) \<Rightarrow> ('i \<Rightarrow> json) \<Rightarrow> 'i \<Rightarrow> identifiers \<Rightarrow> 'i \<times> identifiers" where
  "handleIncrement common brief enc info ids =
     (case Md5sumData (Some (enc info)) of
        Inl err \<Rightarrow> (info, ids)
      | Inr sumData \<Rightarrow>
          (let uid = c_Uid (common info) in
           case map_of ids uid of
             Some v \<Rightarrow>
               if Md5 v = sumData \<and> r_Cid v \<noteq> [] then
                 (brief (brief_common (r_Uid v) (r_Cid v) True), AList.update uid (v\<lparr>Curr := True\<rparr>) ids)
               else (info, AList.update uid (v\<lparr>Md5 := sumData, Curr := True\<rparr>) ids)
           | None \<Rightarrow>
               (info, AList.update uid
                  \<lparr>r_Uid = uid, r_Cid = [], Md5 = sumData, Curr = True, r_name = c_Name (common info)\<rparr> ids)))"

text \<open>The loop over the infos of a listing, with the increment of the collector.\<close>

fun collect :: "('i \<Rightarrow> identifiers \<Rightarrow> 'i \<times> identifiers) \<Rightarrow> 'i list \<Rightarrow> identifiers \<Rightarrow> 'i list \<times> identifiers" where
  "collect increment [] ids = ([], ids)"
| "collect increment (i # is) ids =
     (let (m, ids') = increment i ids;
          (ms, ids'') = collect increment is ids'
      in (m # ms, ids''))"

abbreviation increments ::
  "('i \<Rightarrow> CommonInfo) \<Rightarrow> (CommonInfo \<Rightarrow> 'i) \<Rightarrow> ('i \<Rightarrow> json) \<Rightarrow> 'i list \<Rightarrow> identifiers \<Rightarrow> 'i list \<times> identifiers" where
  "increments common brief enc \<equiv> collect (handleIncrement common brief enc)"

text \<open>
  The loop of \<open>reportNotExistResource\<close>: an entry not seen since the last sweep is deleted, and reported
  where the server knows it.
\<close>

fun sweep :: "identifiers \<Rightarrow> (string \<times> string) list \<times> identifiers" where
  "sweep [] = ([], [])"
| "sweep ((k, v) # ids) =
     (let (gone, ids') = sweep ids in
      if Curr v then (gone, (k, v\<lparr>Curr := False\<rparr>) # ids')
      else (if r_Cid v \<noteq> [] then (r_Uid v, r_Cid v) # gone else gone, ids'))"

section \<open>The report\<close>

text \<open>
  The collector. \<open>indexer\<close> says whether the field is set; the transport and the channel to Kubernetes
  are arguments of the operations. \<open>sent\<close> is no field of the struct: it records the requests given to
  the transport, in order, as the transport left them.
\<close>

record K8sBaseCollector =
  resourceName :: string
  indexer :: bool
  identifiers :: identifiers
  secondIdentifiers :: "identifiers option"
  c_uri :: Uri
  ReportHandler :: string
  sent :: "Request list"

definition createK8sBaseCollector :: "string \<Rightarrow> Uri \<Rightarrow> K8sBaseCollector" where
  "createK8sBaseCollector name uri =
     \<lparr>resourceName = name, indexer = False, identifiers = [], secondIdentifiers = Some [], c_uri = uri, ReportHandler = HandlerName uri, sent = []\<rparr>"

text \<open>\<open>getServiceUidByName\<close> returns the first match in the order of the \<open>range\<close> loop.\<close>

definition getServiceUidByName :: "K8sBaseCollector \<Rightarrow> string \<Rightarrow> string" where
  "getServiceUidByName c serviceName =
     (case List.find (\<lambda>(k, v). r_name v = serviceName) (identifiers c) of Some (k, v) \<Rightarrow> k | None \<Rightarrow> [])"

definition resetIdentifierCache :: "K8sBaseCollector \<Rightarrow> K8sBaseCollector" where
  "resetIdentifierCache c = c\<lparr>identifiers := [], secondIdentifiers := map_option (\<lambda>_. []) (secondIdentifiers c)\<rparr>"

text \<open>
  Storing the ids the server assigned. The object is a Go map: the last member of a name counts.
  A value that is not a string panics where its key is in the cache.
\<close>

fun store_cids :: "(string \<times> json) list \<Rightarrow> identifiers \<Rightarrow> identifiers go" where
  "store_cids [] ids = Some ids"
| "store_cids ((key, value) # kvs) ids =
     (case map_of ids key of
        None \<Rightarrow> store_cids kvs ids
      | Some vi \<Rightarrow>
          (case value of
             JStr cid \<Rightarrow> store_cids kvs (AList.update key (vi\<lparr>r_Cid := cid\<rparr>) ids)
           | _ \<Rightarrow> None))"

definition object_map :: "(string \<times> json) list \<Rightarrow> (string \<times> json) list" where
  "object_map kvs = AList.clearjunk (rev kvs)"

definition VirtualNodeHandler :: string where "VirtualNodeHandler = ''k8sVirtualNode''"

text \<open>
  What \<open>reportK8sMetric\<close> does with the result of a report of existing resources. In the branch for
  virtual nodes the second type test is an assertion without a check, so it panics.
\<close>

definition handle_report_result :: "json \<Rightarrow> K8sBaseCollector \<Rightarrow> K8sBaseCollector go" where
  "handle_report_result result c =
     (case as_object (Some result) of
        None \<Rightarrow> Some (resetIdentifierCache c)
      | Some v \<Rightarrow>
          if ReportHandler c = VirtualNodeHandler then
            (case obj_get v ''virtualNodes'' of
               Some (JObj vn) \<Rightarrow>
                 do {
                   ids \<leftarrow> store_cids (object_map vn) (identifiers c);
                   let c = c\<lparr>identifiers := ids\<rparr>;
                   (case obj_get v ''pods'' of
                      None \<Rightarrow> Some c
                    | Some JNull \<Rightarrow> Some c
                    | Some (JObj ps) \<Rightarrow>
                        map_option (\<lambda>x. c\<lparr>secondIdentifiers := Some x\<rparr>)
                          (store_cids (object_map ps) (case secondIdentifiers c of None \<Rightarrow> [] | Some x \<Rightarrow> x))
                    | _ \<Rightarrow> None)
                 }
             | x \<Rightarrow>
                 if x \<noteq> None \<and> x \<noteq> Some JNull then Some (resetIdentifierCache c)
                 else (case obj_get v ''pods'' of
                         None \<Rightarrow> Some c
                       | Some JNull \<Rightarrow> Some c
                       | Some (JObj ps) \<Rightarrow>
                           map_option (\<lambda>x. c\<lparr>secondIdentifiers := Some x\<rparr>)
                             (store_cids (object_map ps) (case secondIdentifiers c of None \<Rightarrow> [] | Some x \<Rightarrow> x))
                       | _ \<Rightarrow> None))
          else map_option (\<lambda>ids. c\<lparr>identifiers := ids\<rparr>) (store_cids (object_map v) (identifiers c)))"

text \<open>The call to the server, with the resources as one JSON text.\<close>

definition invoke_report ::
  "env \<Rightarrow> agent \<Rightarrow> json list \<Rightarrow> K8sBaseCollector \<Rightarrow> (Request \<times> Response option \<times> string option) go" where
  "invoke_report e a resource c = do {
     request \<leftarrow> NewRequest (opts a);
     request \<leftarrow> AddParam (resourceName c) (json_print (JArr resource)) request;
     agent_Invoke e a ((c_uri c)\<lparr>CompressVersion := Itoa 2\<rparr>) request True
   }"

definition reportK8sMetric :: "env \<Rightarrow> agent \<Rightarrow> bool \<Rightarrow> json list \<Rightarrow> K8sBaseCollector \<Rightarrow> K8sBaseCollector go" where
  "reportK8sMetric e a isExists resource c =
     (if resource = [] then Some c
      else do {
        (r, response, err) \<leftarrow> invoke_report e a resource c;
        let c = c\<lparr>sent := sent c @ [r]\<rparr>;
        (case err of
           Some m \<Rightarrow> Some (resetIdentifierCache c)
         | None \<Rightarrow>
             (case response of
                None \<Rightarrow> None
              | Some resp \<Rightarrow>
                  if \<not> Success resp then Some (resetIdentifierCache c)
                  else if isExists then handle_report_result (Result resp) c
                  else Some c))
      })"

text \<open>
  The parts every collector's \<open>Report\<close> has: the reflector is made on the first call, where there is a
  client; the infos are reported, then the resources no longer there.
\<close>

definition ensure_indexer :: "bool \<Rightarrow> K8sBaseCollector \<Rightarrow> K8sBaseCollector option" where
  "ensure_indexer clientSet c =
     (if indexer c then Some c else if clientSet then Some (c\<lparr>indexer := True\<rparr>) else None)"

definition report_gone ::
  "(CommonInfo \<Rightarrow> 'i) \<Rightarrow> ('i \<Rightarrow> json) \<Rightarrow> env \<Rightarrow> agent \<Rightarrow> K8sBaseCollector \<Rightarrow> K8sBaseCollector go" where
  "report_gone brief enc e a c =
     (let (gone, ids) = sweep (identifiers c) in
      reportK8sMetric e a False (map (\<lambda>(uid, cid). enc (brief (brief_common uid cid False))) gone)
        (c\<lparr>identifiers := ids\<rparr>))"

definition report_infos ::
  "(CommonInfo \<Rightarrow> 'i) \<Rightarrow> ('i \<Rightarrow> json) \<Rightarrow> env \<Rightarrow> agent \<Rightarrow> 'i list \<Rightarrow> K8sBaseCollector \<Rightarrow> K8sBaseCollector go" where
  "report_infos brief enc e a infos c =
     do { c \<leftarrow> reportK8sMetric e a True (map enc infos) c; report_gone brief enc e a c }"

definition report_listing ::
  "('i \<Rightarrow> identifiers \<Rightarrow> 'i \<times> identifiers) \<Rightarrow> ('i \<Rightarrow> json)
     \<Rightarrow> (env \<Rightarrow> agent \<Rightarrow> K8sBaseCollector \<Rightarrow> K8sBaseCollector go)
     \<Rightarrow> env \<Rightarrow> agent \<Rightarrow> 'i list \<Rightarrow> K8sBaseCollector \<Rightarrow> K8sBaseCollector go" where
  "report_listing increment enc reportNotExist e a listing c =
     (let (infos, ids) = collect increment listing (identifiers c) in
      do {
        c \<leftarrow> reportK8sMetric e a True (map enc infos) (c\<lparr>identifiers := ids\<rparr>);
        reportNotExist e a c
      })"

section \<open>Helpers\<close>

record ServicePort =
  NodePort :: int
  sp_Port :: int
  Protocol :: string
  sp_Name :: string

definition servicePortsToString :: "ServicePort list \<Rightarrow> string list" where
  "servicePortsToString ports =
     map (\<lambda>p. Itoa (NodePort p) @ ''->'' @ Itoa (sp_Port p) @ ''/'' @ Protocol p @ ''/'' @ sp_Name p) ports"

text \<open>
  \<open>loadBalancerStatusStringer\<close>: the addresses as pairs of IP and host name. \<open>set_list\<close> is
  \<open>sets.String.List\<close> of the Kubernetes library: the distinct strings, sorted.
\<close>

definition loadBalancerWidth :: nat where "loadBalancerWidth = 16"

definition lb_names :: "(string \<times> string) list \<Rightarrow> string list" where
  "lb_names ingress =
     concat (map (\<lambda>(ip, hostname). if ip \<noteq> [] then [ip] else if hostname \<noteq> [] then [hostname] else []) ingress)"

definition loadBalancerStatusStringer :: "(string list \<Rightarrow> string list) \<Rightarrow> (string \<times> string) list \<Rightarrow> bool \<Rightarrow> string" where
  "loadBalancerStatusStringer set_list ingress wide =
     (let r = Join '','' (set_list (lb_names ingress)) in
      if \<not> wide \<and> loadBalancerWidth < length r then take (loadBalancerWidth - 3) r @ ''...'' else r)"

record Service =
  s_UID :: string
  s_Name :: string
  s_Namespace :: string
  s_Created :: string
  s_Labels :: gomap
  s_Type :: string
  ClusterIP :: string
  ExternalIPs :: "string list"
  ExternalName :: string
  s_Ports :: "ServicePort list"
  s_Selector :: gomap
  LoadBalancer :: "(string \<times> string) list"

definition getServiceExternalIP :: "(string list \<Rightarrow> string list) \<Rightarrow> Service \<Rightarrow> bool \<Rightarrow> string" where
  "getServiceExternalIP set_list svc wide =
     (if s_Type svc = ''ClusterIP'' \<or> s_Type svc = ''NodePort'' then
        (if ExternalIPs svc \<noteq> [] then Join '','' (ExternalIPs svc) else ''<none>'')
      else if s_Type svc = ''LoadBalancer'' then
        (let lbIps = loadBalancerStatusStringer set_list (LoadBalancer svc) wide in
         if ExternalIPs svc \<noteq> [] then
           Join '','' ((if lbIps \<noteq> [] then Split (CHR '','') lbIps else []) @ ExternalIPs svc)
         else if lbIps \<noteq> [] then lbIps
         else ''<pending>'')
      else if s_Type svc = ''ExternalName'' then ExternalName svc
      else ''<unknown>'')"

datatype IntOrString = IntVal int | StrVal string

fun getServicePort :: "IntOrString \<Rightarrow> string" where
  "getServicePort (StrVal s) = s"
| "getServicePort (IntVal n) = Itoa n"

text \<open>\<open>NamespaceList.Set\<close> and the choice between one list watcher and several.\<close>

definition NamespaceList_Set :: "string \<Rightarrow> string list \<Rightarrow> string list" where
  "NamespaceList_Set value ns = ns @ filter (\<lambda>n. n \<noteq> []) (map TrimSpace (Split (CHR '','') value))"

definition IsAllNamespaces :: "string list \<Rightarrow> bool" where
  "IsAllNamespaces namespaces \<longleftrightarrow> namespaces = [[]]"

datatype 'w watcher = One 'w | Multi "'w list"

definition MultiNamespaceListerWatcher :: "string list \<Rightarrow> (string \<Rightarrow> 'w) \<Rightarrow> 'w watcher" where
  "MultiNamespaceListerWatcher allowedNamespaces f =
     (if IsAllNamespaces allowedNamespaces \<or> length allowedNamespaces = 1 then One (f (hd allowedNamespaces))
      else Multi (map f allowedNamespaces))"

text \<open>
  \<open>multiListerWatcher.List\<close> over the results of the watchers' lists (items and resource version), and
  the distribution of a combined version by \<open>Watch\<close>.
\<close>

fun multi_List :: "(string + 'o list \<times> string) list \<Rightarrow> string + 'o list \<times> string list" where
  "multi_List [] = Inr ([], [])"
| "multi_List (Inl err # ls) = Inl err"
| "multi_List (Inr (is0, rv) # ls) =
     (case multi_List ls of Inl err \<Rightarrow> Inl err | Inr (its, rvs) \<Rightarrow> Inr (is0 @ its, rv # rvs))"

definition List_all :: "(string + 'o list \<times> string) list \<Rightarrow> string + 'o list \<times> string" where
  "List_all ls = (case multi_List ls of Inl err \<Rightarrow> Inl err | Inr (its, rvs) \<Rightarrow> Inr (its, Join ''/'' rvs))"

definition Watch_versions :: "nat \<Rightarrow> string \<Rightarrow> string + string list" where
  "Watch_versions n resourceVersion =
     (if resourceVersion \<noteq> [] then
        (let rvs = Split (CHR ''/'') resourceVersion in
         if length rvs \<noteq> n
         then Inl (''expected resource version to have '' @ nat_str n @ '' parts to match the number of ListerWatchers'')
         else Inr rvs)
      else Inr (replicate n []))"

section \<open>The identifier cache: what the increment and the sweep come to\<close>

definition digest :: "json \<Rightarrow> string" where
  "digest j = hex (md5 (json_print j))"

lemma Md5sumData_Some [simp]: "Md5sumData (Some j) = Inr (digest j)"
  by (simp add: Md5sumData_def digest_def)

text \<open>The server has given the resource an id.\<close>

definition known :: "identifiers \<Rightarrow> string \<Rightarrow> bool" where
  "known ids uid \<longleftrightarrow> (\<exists>v. map_of ids uid = Some v \<and> r_Cid v \<noteq> [])"

definition ids_inv :: "identifiers \<Rightarrow> bool" where
  "ids_inv ids \<longleftrightarrow> distinct (map fst ids) \<and> (\<forall>k v. map_of ids k = Some v \<longrightarrow> r_Uid v = k)"

lemma ids_inv_Nil [simp]: "ids_inv []"
  by (simp add: ids_inv_def)

lemma ids_inv_lookup: "\<lbrakk>ids_inv ids; map_of ids k = Some v\<rbrakk> \<Longrightarrow> r_Uid v = k"
  by (simp add: ids_inv_def)

lemma ids_inv_update: "\<lbrakk>ids_inv ids; r_Uid v = k\<rbrakk> \<Longrightarrow> ids_inv (AList.update k v ids)"
  by (auto simp: ids_inv_def distinct_update update_conv')

subsection \<open>The sweep\<close>

lemma sweep_keys: "fst ` set (snd (sweep ids)) \<subseteq> fst ` set ids"
proof (induction ids rule: sweep.induct)
  case (2 k v ids)
  then show ?case by (cases "sweep ids") auto
qed simp

lemma sweep_distinct: "distinct (map fst ids) \<Longrightarrow> distinct (map fst (snd (sweep ids)))"
proof (induction ids rule: sweep.induct)
  case (2 k v ids)
  with sweep_keys [of ids] show ?case by (cases "sweep ids") auto
qed simp

lemma sweep_lookup:
  "distinct (map fst ids) \<Longrightarrow>
   map_of (snd (sweep ids)) k =
     (case map_of ids k of Some v \<Rightarrow> if Curr v then Some (v\<lparr>Curr := False\<rparr>) else None | None \<Rightarrow> None)"
proof (induction ids rule: sweep.induct)
  case (2 k' v ids)
  have "k' \<notin> fst ` set ids" using 2(2) by simp
  then have "map_of (snd (sweep ids)) k' = None" "map_of ids k' = None"
    using sweep_keys [of ids] by (auto simp: map_of_eq_None_iff)
  with 2 show ?case by (cases "sweep ids") (auto split: option.splits)
qed simp

lemma sweep_gone:
  "fst (sweep ids) = map (\<lambda>(k, v). (r_Uid v, r_Cid v)) (filter (\<lambda>(k, v). \<not> Curr v \<and> r_Cid v \<noteq> []) ids)"
  by (induction ids rule: sweep.induct) (auto simp: Let_def split: prod.splits)

lemma sweep_clears: "\<forall>(k, v) \<in> set (snd (sweep ids)). \<not> Curr v"
  by (induction ids rule: sweep.induct) (auto simp: Let_def split: prod.splits)

lemma sweep_inv: "ids_inv ids \<Longrightarrow> ids_inv (snd (sweep ids))"
  by (auto simp: ids_inv_def sweep_distinct sweep_lookup split: option.splits if_splits)

lemma sweep_gone_inv:
  assumes "ids_inv ids"
  shows "(uid, cid) \<in> set (fst (sweep ids)) \<longleftrightarrow>
    (\<exists>v. map_of ids uid = Some v \<and> \<not> Curr v \<and> r_Cid v = cid \<and> cid \<noteq> [])"
proof -
  have "(k, v) \<in> set ids \<longleftrightarrow> map_of ids k = Some v" for k v using assms by (simp add: ids_inv_def)
  then show ?thesis using ids_inv_lookup [OF assms] by (auto simp: sweep_gone image_iff) metis
qed

subsection \<open>The ids of a response\<close>

definition cids_ok :: "(string \<times> json) list \<Rightarrow> bool" where
  "cids_ok kvs \<longleftrightarrow> (\<forall>(k, v) \<in> set kvs. \<exists>c. v = JStr c \<and> c \<noteq> [])"

definition with_cid :: "json option \<Rightarrow> ResourceIdentifier \<Rightarrow> ResourceIdentifier" where
  "with_cid j v = (case j of Some (JStr c) \<Rightarrow> v\<lparr>r_Cid := c\<rparr> | _ \<Rightarrow> v)"

lemma with_cid_simps [simp]:
  "with_cid None v = v" "with_cid (Some (JStr c)) v = v\<lparr>r_Cid := c\<rparr>"
  "Curr (with_cid j v) = Curr v" "Md5 (with_cid j v) = Md5 v" "r_Uid (with_cid j v) = r_Uid v"
  by (auto simp: with_cid_def split: option.splits json.splits)

lemma store_cids_total:
  assumes "cids_ok kvs" "distinct (map fst kvs)" "ids_inv ids"
  shows "\<exists>ids'. store_cids kvs ids = Some ids' \<and> ids_inv ids'
    \<and> (\<forall>k. map_of ids' k = map_option (with_cid (map_of kvs k)) (map_of ids k))"
  using assms
proof (induction kvs ids rule: store_cids.induct)
  case (1 ids)
  then show ?case by (simp add: option.map_ident)
next
  case (2 key val kvs ids)
  from 2(3) obtain cid where v: "val = JStr cid" "cids_ok kvs" by (auto simp: cids_ok_def)
  have nk: "map_of kvs key = None" using 2(4) by (simp add: map_of_eq_None_iff)
  show ?case
  proof (cases "map_of ids key")
    case None
    with 2(1) [OF None v(2)] 2(4,5) show ?thesis by fastforce
  next
    case (Some vi)
    have "ids_inv (AList.update key (vi\<lparr>r_Cid := cid\<rparr>) ids)"
      by (rule ids_inv_update) (use 2(5) Some in \<open>simp_all add: ids_inv_lookup\<close>)
    with 2(2) [OF Some v(1,2)] 2(4) obtain ids' where
      s: "store_cids kvs (AList.update key (vi\<lparr>r_Cid := cid\<rparr>) ids) = Some ids'" "ids_inv ids'"
      and l: "\<And>k. map_of ids' k = map_option (with_cid (map_of kvs k)) (map_of (AList.update key (vi\<lparr>r_Cid := cid\<rparr>) ids) k)"
      by auto
    from l nk Some v(1) have "map_of ids' k = map_option (with_cid (map_of ((key, val) # kvs) k)) (map_of ids k)" for k
      by (simp add: update_conv')
    with s Some v(1) show ?thesis by auto
  qed
qed

lemma object_map_distinct [simp]: "distinct (map fst (object_map kvs))"
  by (simp add: object_map_def distinct_clearjunk)

lemma object_map_get [simp]: "map_of (object_map kvs) k = obj_get kvs k"
  by (simp add: object_map_def obj_get_def map_of_clearjunk)

lemma object_map_ok:
  assumes "cids_ok kvs"
  shows "cids_ok (object_map kvs)"
proof -
  have "(k, v) \<in> set kvs" if "(k, v) \<in> set (object_map kvs)" for k v
  proof -
    from that have "map_of (rev kvs) k = Some v" using object_map_distinct map_of_is_SomeI object_map_get obj_get_def by metis
    then show ?thesis using map_of_SomeD by fastforce
  qed
  then show ?thesis using assms by (fastforce simp: cids_ok_def)
qed

lemma obj_get_cid: "cids_ok kvs \<Longrightarrow> obj_get kvs k = None \<or> (\<exists>c. obj_get kvs k = Some (JStr c) \<and> c \<noteq> [])"
  by (cases "obj_get kvs k") (auto simp: cids_ok_def obj_get_def dest!: map_of_SomeD)

section \<open>The server's view of the reports\<close>

text \<open>
  What a reader of the reports knows of each resource: a full info is stored, an info with an id stands
  for the stored one, and an info that does not exist removes it.
\<close>

type_synonym view = "string \<rightharpoonup> json"

definition view_step :: "('i \<Rightarrow> CommonInfo) \<Rightarrow> ('i \<Rightarrow> json) \<Rightarrow> 'i \<Rightarrow> view \<Rightarrow> view" where
  "view_step common enc m view =
     (let c = common m in
      if \<not> Exist c then view(c_Uid c := None)
      else if c_Cid c \<noteq> [] then view
      else view(c_Uid c \<mapsto> enc m))"

definition view_after :: "('i \<Rightarrow> CommonInfo) \<Rightarrow> ('i \<Rightarrow> json) \<Rightarrow> 'i list \<Rightarrow> view \<Rightarrow> view" where
  "view_after common enc ms view = fold (view_step common enc) ms view"

text \<open>
  The cache agrees with a view: the resources the cache has an id for are those of the view, with the
  digest of what the view holds.
\<close>

definition agrees :: "identifiers \<Rightarrow> view \<Rightarrow> bool" where
  "agrees ids view \<longleftrightarrow> ids_inv ids \<and> (\<forall>k v. map_of ids k = Some v \<longrightarrow> \<not> Curr v)
     \<and> (\<forall>k v. map_of ids k = Some v \<and> r_Cid v \<noteq> [] \<longrightarrow> (\<exists>j. view k = Some j \<and> Md5 v = digest j))
     \<and> (\<forall>k \<in> dom view. known ids k)"

text \<open>No two different texts with one digest among what the view holds and what is reported.\<close>

definition no_collision :: "view \<Rightarrow> json list \<Rightarrow> bool" where
  "no_collision view js \<longleftrightarrow> (\<forall>j \<in> ran view. \<forall>j' \<in> set js. digest j = digest j' \<longrightarrow> j = j')"

text \<open>The infos of a listing: distinct resources, all existing and without an id.\<close>

definition fresh_infos :: "('i \<Rightarrow> CommonInfo) \<Rightarrow> 'i list \<Rightarrow> bool" where
  "fresh_infos common infos \<longleftrightarrow> distinct (map (c_Uid \<circ> common) infos)
     \<and> (\<forall>i \<in> set infos. Exist (common i) \<and> c_Cid (common i) = [])"

section \<open>The interface of a resource's info\<close>

lemma map_of_keyed_None: "k \<notin> f ` set xs \<Longrightarrow> map_of (map (\<lambda>x. (f x, g x)) xs) k = None"
  by (simp add: map_of_eq_None_iff image_image)

lemma Md5_same: "Md5 v = d \<Longrightarrow> v\<lparr>Md5 := d, Curr := b\<rparr> = v\<lparr>Curr := b\<rparr>"
  by (cases v) simp

lemma increments_Cons:
  "collect increment (i # infos) ids =
     (let h = increment i ids; hs = collect increment infos (snd h) in (fst h # fst hs, snd hs))"
  by (simp add: Let_def split: prod.splits)

declare collect.simps(2) [simp del]

locale resource_info =
  fixes common :: "'i \<Rightarrow> CommonInfo"
    and brief :: "CommonInfo \<Rightarrow> 'i"
    and enc :: "'i \<Rightarrow> json"
  assumes common_brief: "common (brief c) = c"
begin

lemma increment_cases:
  "handleIncrement common brief enc i ids =
     (let uid = c_Uid (common i); d = digest (enc i) in
      case map_of ids uid of
        Some v \<Rightarrow> (if Md5 v = d \<and> r_Cid v \<noteq> [] then brief (brief_common (r_Uid v) (r_Cid v) True) else i,
                   AList.update uid (v\<lparr>Md5 := d, Curr := True\<rparr>) ids)
      | None \<Rightarrow> (i, AList.update uid \<lparr>r_Uid = uid, r_Cid = [], Md5 = d, Curr = True, r_name = c_Name (common i)\<rparr> ids))"
  by (simp add: handleIncrement_def Let_def Md5_same split: option.splits)

lemma increment_inv: "ids_inv ids \<Longrightarrow> ids_inv (snd (handleIncrement common brief enc i ids))"
  by (auto simp: increment_cases Let_def ids_inv_lookup intro!: ids_inv_update split: option.splits)

lemma increment_lookup:
  "map_of (snd (handleIncrement common brief enc i ids)) k =
     (if k = c_Uid (common i) then
        Some (case map_of ids k of
                Some v \<Rightarrow> v\<lparr>Md5 := digest (enc i), Curr := True\<rparr>
              | None \<Rightarrow> \<lparr>r_Uid = k, r_Cid = [], Md5 = digest (enc i), Curr = True, r_name = c_Name (common i)\<rparr>)
      else map_of ids k)"
  by (auto simp: increment_cases Let_def update_conv' split: option.splits)

lemma increments_inv: "ids_inv ids \<Longrightarrow> ids_inv (snd (increments common brief enc infos ids))"
proof (induction infos arbitrary: ids)
  case (Cons i infos)
  from increment_inv [OF Cons.prems, of i] Cons.IH show ?case by (simp add: increments_Cons Let_def)
qed simp

lemma increments_other:
  "k \<notin> (c_Uid \<circ> common) ` set infos \<Longrightarrow> map_of (snd (increments common brief enc infos ids)) k = map_of ids k"
proof (induction infos arbitrary: ids)
  case (Cons i infos)
  have "map_of (snd (handleIncrement common brief enc i ids)) k = map_of ids k"
    using Cons.prems by (auto simp: increment_lookup)
  with Cons show ?case by (simp add: increments_Cons Let_def)
qed simp

lemma increments_member:
  assumes "distinct (map (c_Uid \<circ> common) infos)" "i \<in> set infos"
  shows "map_of (snd (increments common brief enc infos ids)) (c_Uid (common i)) =
     map_of (snd (handleIncrement common brief enc i ids)) (c_Uid (common i))"
  using assms
proof (induction infos arbitrary: ids)
  case (Cons i' infos)
  let ?h = "handleIncrement common brief enc i' ids"
  have step: "map_of (snd (increments common brief enc (i' # infos) ids)) k
      = map_of (snd (increments common brief enc infos (snd ?h))) k" for k
    by (simp add: increments_Cons Let_def)
  show ?case
  proof (cases "i = i'")
    case True
    with Cons.prems(1) have "c_Uid (common i) \<notin> (c_Uid \<circ> common) ` set infos" by auto
    then show ?thesis using True by (simp add: step increments_other)
  next
    case False
    then have i: "i \<in> set infos" using Cons.prems(2) by simp
    then have "c_Uid (common i) \<noteq> c_Uid (common i')" using Cons.prems(1) by (auto simp: image_iff)
    with Cons.IH [of "snd ?h"] Cons.prems(1) i show ?thesis by (simp add: step increment_lookup)
  qed
qed simp

lemma view_after_increments:
  assumes "ids_inv ids" "fresh_infos common infos"
    and "\<forall>i \<in> set infos. \<forall>v. map_of ids (c_Uid (common i)) = Some v \<and> r_Cid v \<noteq> [] \<and> Md5 v = digest (enc i)
           \<longrightarrow> view (c_Uid (common i)) = Some (enc i)"
  shows "view_after common enc (fst (increments common brief enc infos ids)) view
           = view ++ map_of (map (\<lambda>i. (c_Uid (common i), enc i)) infos)"
  using assms
proof (induction infos arbitrary: ids view)
  case Nil
  then show ?case by (simp add: view_after_def)
next
  case (Cons i infos)
  let ?u = "c_Uid (common i)" and ?h = "handleIncrement common brief enc i ids"
  have i: "Exist (common i)" "c_Cid (common i) = []" and f: "fresh_infos common infos"
    and d: "?u \<notin> (\<lambda>i. c_Uid (common i)) ` set infos"
    using Cons.prems(2) by (auto simp: fresh_infos_def comp_def)
  have v: "view_step common enc (fst ?h) view = view(?u \<mapsto> enc i)"
  proof (cases "\<exists>v. map_of ids ?u = Some v \<and> r_Cid v \<noteq> [] \<and> Md5 v = digest (enc i)")
    case True
    then have "view ?u = Some (enc i)" using Cons.prems(3) by simp
    then have "view(?u \<mapsto> enc i) = view" by (simp add: fun_upd_idem)
    with True show ?thesis
      by (auto simp: increment_cases view_step_def common_brief brief_common_def Let_def)
  next
    case False
    then have "fst ?h = i" by (auto simp: increment_cases Let_def split: option.splits)
    with i show ?thesis by (simp add: view_step_def)
  qed
  have "\<forall>i' \<in> set infos. \<forall>v. map_of (snd ?h) (c_Uid (common i')) = Some v \<and> r_Cid v \<noteq> [] \<and> Md5 v = digest (enc i')
           \<longrightarrow> (view(?u \<mapsto> enc i)) (c_Uid (common i')) = Some (enc i')"
  proof -
    have "c_Uid (common i') \<noteq> ?u" if "i' \<in> set infos" for i' using d that by (metis image_eqI)
    then show ?thesis using Cons.prems(3) by (simp add: increment_lookup)
  qed
  from Cons.IH [OF increment_inv [OF Cons.prems(1)] f, of i "view(?u \<mapsto> enc i)"] this
  have "view_after common enc (fst (increments common brief enc infos (snd ?h))) (view(?u \<mapsto> enc i))
      = view(?u \<mapsto> enc i) ++ map_of (map (\<lambda>i. (c_Uid (common i), enc i)) infos)" by blast
  moreover have "view(?u \<mapsto> enc i) ++ map_of (map (\<lambda>i. (c_Uid (common i), enc i)) infos)
      = view ++ map_of (map (\<lambda>i. (c_Uid (common i), enc i)) (i # infos))"
    using map_of_keyed_None [OF d, of enc] by (intro ext) (simp add: map_add_def split: option.splits)
  moreover have "view_after common enc (fst (increments common brief enc (i # infos) ids)) view
      = view_after common enc (fst (increments common brief enc infos (snd ?h))) (view(?u \<mapsto> enc i))"
    by (simp only: view_after_def increments_Cons Let_def v fst_conv fold_simps)
  ultimately show ?case by metis
qed

lemma view_after_gone:
  "view_after common enc (map (\<lambda>(u, c). brief (brief_common u c False)) gone) view = view |` (- fst ` set gone)"
proof (induction gone arbitrary: view)
  case (Cons g gone)
  have "view_step common enc (brief (brief_common (fst g) (snd g) False)) view = view(fst g := None)"
    by (simp add: view_step_def common_brief brief_common_def Let_def)
  with Cons show ?case by (auto simp: view_after_def restrict_map_def fun_eq_iff split: prod.splits)
qed (simp add: view_after_def restrict_map_def)

text \<open>
  One accepted cycle of reports: the view becomes the listing, and the cache agrees with it again.
\<close>

lemma cycle_synchronises:
  fixes kvs :: "(string \<times> json) list"
  assumes agr: "agrees ids view" and fresh: "fresh_infos common infos" and nc: "no_collision view (map enc infos)"
    and ok: "cids_ok kvs" and given: "\<forall>i \<in> set infos. known ids (c_Uid (common i)) \<or> obj_get kvs (c_Uid (common i)) \<noteq> None"
    and inc: "increments common brief enc infos ids = (ms, ids1)"
    and sto: "store_cids (object_map kvs) ids1 = Some ids2"
    and swp: "sweep ids2 = (gone, ids3)"
  shows "view_after common enc (ms @ map (\<lambda>(u, c). brief (brief_common u c False)) gone) view
           = map_of (map (\<lambda>i. (c_Uid (common i), enc i)) infos)" (is "?L = ?new")
    and "agrees ids3 (map_of (map (\<lambda>i. (c_Uid (common i), enc i)) infos))"
proof -
  let ?uids = "(\<lambda>i. c_Uid (common i)) ` set infos"
  have inv: "ids_inv ids" using agr by (simp add: agrees_def)
  have inv1: "ids_inv ids1" using increments_inv [OF inv, of infos] inc by simp
  from store_cids_total [OF object_map_ok [OF ok] object_map_distinct inv1] sto
  have inv2: "ids_inv ids2" and l2: "\<And>k. map_of ids2 k = map_option (with_cid (obj_get kvs k)) (map_of ids1 k)" by auto
  have out: "map_of ids1 k = map_of ids k" if "k \<notin> ?uids" for k
    using increments_other [of k infos ids] that inc by (simp add: comp_def)
  have mem: "map_of ids1 (c_Uid (common i)) = map_of (snd (handleIncrement common brief enc i ids)) (c_Uid (common i))"
    if "i \<in> set infos" for i
    using increments_member [of infos i ids] that fresh inc by (simp add: fresh_infos_def)
  have keep: "r_Cid (with_cid (obj_get kvs k) v) \<noteq> []" if "r_Cid v \<noteq> []" for k v
    using obj_get_cid [OF ok, of k] that by (auto simp: with_cid_def split: option.splits json.splits)
  have entry: "\<exists>v. map_of ids2 (c_Uid (common i)) = Some v \<and> Curr v \<and> r_Cid v \<noteq> [] \<and> Md5 v = digest (enc i)"
    if i: "i \<in> set infos" for i
  proof -
    let ?u = "c_Uid (common i)"
    have m: "map_of ids2 ?u = map_option (with_cid (obj_get kvs ?u)) (map_of (snd (handleIncrement common brief enc i ids)) ?u)"
      using mem [OF i] by (simp add: l2)
    have g: "known ids ?u \<or> obj_get kvs ?u \<noteq> None" using given i by blast
    show ?thesis
    proof (cases "obj_get kvs ?u")
      case None
      with g obtain v where "map_of ids ?u = Some v" "r_Cid v \<noteq> []" by (auto simp: known_def)
      with m None show ?thesis by (simp add: increment_lookup)
    next
      case (Some j)
      with obj_get_cid [OF ok, of ?u] obtain c where "obj_get kvs ?u = Some (JStr c)" "c \<noteq> []" by auto
      with m show ?thesis by (simp add: increment_lookup split: option.splits)
    qed
  qed
  have gone: "fst ` set gone = {k. \<exists>v. map_of ids2 k = Some v \<and> \<not> Curr v \<and> r_Cid v \<noteq> []}"
  proof -
    have "k \<in> fst ` set gone \<longleftrightarrow> (\<exists>c. (k, c) \<in> set gone)" for k by force
    then show ?thesis using sweep_gone_inv [OF inv2] swp by auto
  qed
  have stale: "k \<in> fst ` set gone" if "k \<in> dom view" "k \<notin> ?uids" for k
  proof -
    have "known ids k" using agr that(1) by (simp add: agrees_def)
    then obtain v where "map_of ids k = Some v" "r_Cid v \<noteq> []" "\<not> Curr v" using agr by (auto simp: agrees_def known_def)
    then show ?thesis using keep out [OF that(2)] by (simp add: gone l2)
  qed
  have live: "k \<notin> fst ` set gone" if "k \<in> ?uids" for k
  proof -
    from that obtain i where "i \<in> set infos" "k = c_Uid (common i)" by blast
    with entry [of i] show ?thesis by (auto simp: gone)
  qed
  have "view_after common enc ms view = view ++ ?new"
  proof -
    have "view (c_Uid (common i)) = Some (enc i)"
      if "i \<in> set infos" "map_of ids (c_Uid (common i)) = Some v" "r_Cid v \<noteq> []" "Md5 v = digest (enc i)" for i v
    proof -
      have "\<exists>j. view (c_Uid (common i)) = Some j \<and> Md5 v = digest j"
        using agr that(2,3) by (simp add: agrees_def)
      then obtain j where j: "view (c_Uid (common i)) = Some j" "Md5 v = digest j" by blast
      then have "j \<in> ran view" "enc i \<in> set (map enc infos)" "digest j = digest (enc i)"
        using that by (auto intro: ranI)
      with nc j show ?thesis by (auto simp: no_collision_def)
    qed
    with view_after_increments [OF inv fresh, of view] inc show ?thesis by simp
  qed
  then have "?L = (view ++ ?new) |` (- fst ` set gone)"
    using view_after_gone [of gone "view_after common enc ms view"] by (simp add: view_after_def)
  also have "\<dots> = ?new"
  proof
    fix k
    show "((view ++ ?new) |` (- fst ` set gone)) k = ?new k"
    proof (cases "k \<in> ?uids")
      case True
      then have "?new k \<noteq> None" by (auto simp: map_of_eq_None_iff image_image)
      with live [OF True] show ?thesis by (auto simp: restrict_map_def map_add_def)
    next
      case False
      then show ?thesis using map_of_keyed_None [OF False, of enc] stale
        by (cases "view k") (auto simp: restrict_map_def map_add_def)
    qed
  qed
  finally show "?L = ?new" .
  have new: "?new (c_Uid (common i)) = Some (enc i)" if "i \<in> set infos" for i
    using fresh that by (auto simp: fresh_infos_def comp_def intro!: map_of_is_SomeI)
  have d2: "distinct (map fst ids2)" using inv2 by (simp add: ids_inv_def)
  have l3: "map_of ids3 k = (case map_of ids2 k of Some v \<Rightarrow> if Curr v then Some (v\<lparr>Curr := False\<rparr>) else None | None \<Rightarrow> None)" for k
    using sweep_lookup [OF d2, of k] swp by simp
  have only: "k \<in> ?uids" if "map_of ids3 k = Some v" for k v
  proof (rule ccontr)
    assume "k \<notin> ?uids"
    then show False using that agr by (auto simp: l3 l2 out agrees_def split: option.splits if_splits)
  qed
  have mem3: "\<exists>v. map_of ids3 (c_Uid (common i)) = Some v \<and> \<not> Curr v \<and> r_Cid v \<noteq> [] \<and> Md5 v = digest (enc i)"
    if "i \<in> set infos" for i
    using entry [OF that] by (auto simp: l3)
  have "ids_inv ids3" using sweep_inv [OF inv2] swp by simp
  moreover have "\<not> Curr v" if "map_of ids3 k = Some v" for k v
    using that by (auto simp: l3 split: option.splits if_splits)
  moreover have "\<exists>j. ?new k = Some j \<and> Md5 v = digest j" if "map_of ids3 k = Some v" for k v
  proof -
    from only [OF that] obtain i where i: "i \<in> set infos" "k = c_Uid (common i)" by blast
    with mem3 [OF i(1)] new [OF i(1)] that show ?thesis by auto
  qed
  moreover have "known ids3 k" if "k \<in> dom ?new" for k
  proof -
    from that have "k \<in> ?uids" by (simp add: dom_map_of_conv_image_fst image_image)
    then obtain i where i: "i \<in> set infos" "k = c_Uid (common i)" by blast
    with mem3 [OF i(1)] show ?thesis by (auto simp: known_def)
  qed
  ultimately show "agrees ids3 ?new" by (simp add: agrees_def)
qed

end

section \<open>The reports as calls to the server\<close>

text \<open>The server accepts a report of existing resources with the ids \<open>kvs\<close>, or takes a report of vanished ones.\<close>

definition accepted :: "env \<Rightarrow> agent \<Rightarrow> K8sBaseCollector \<Rightarrow> json list \<Rightarrow> (string \<times> json) list \<Rightarrow> bool" where
  "accepted e a c resource kvs \<longleftrightarrow>
     (if resource = [] then kvs = []
      else \<exists>r resp. invoke_report e a resource c = Some (r, Some resp, None) \<and> Success resp \<and> Result resp = JObj kvs)"

definition taken :: "env \<Rightarrow> agent \<Rightarrow> K8sBaseCollector \<Rightarrow> json list \<Rightarrow> bool" where
  "taken e a c resource \<longleftrightarrow>
     resource = [] \<or> (\<exists>r resp. invoke_report e a resource c = Some (r, Some resp, None) \<and> Success resp)"

text \<open>The call fails: a transport error, or an answer without success.\<close>

definition refused :: "env \<Rightarrow> agent \<Rightarrow> K8sBaseCollector \<Rightarrow> json list \<Rightarrow> bool" where
  "refused e a c resource \<longleftrightarrow> resource \<noteq> [] \<and>
     (\<exists>r resp err. invoke_report e a resource c = Some (r, resp, err) \<and> (err \<noteq> None \<or> (\<exists>x. resp = Some x \<and> \<not> Success x)))"

text \<open>
  A cycle of reports of a listing that the server goes along with: it gives an id to every resource it
  does not know, and takes the report of what is gone.
\<close>

definition accepted_cycle ::
  "('i \<Rightarrow> CommonInfo) \<Rightarrow> (CommonInfo \<Rightarrow> 'i) \<Rightarrow> ('i \<Rightarrow> json) \<Rightarrow> env \<Rightarrow> agent \<Rightarrow> K8sBaseCollector \<Rightarrow> 'i list \<Rightarrow> bool" where
  "accepted_cycle common brief enc e a c infos \<longleftrightarrow>
     (\<exists>ms ids1 kvs ids2 gone ids3.
        increments common brief enc infos (identifiers c) = (ms, ids1)
        \<and> accepted e a c (map enc ms) kvs \<and> cids_ok kvs
        \<and> (\<forall>i \<in> set infos. known (identifiers c) (c_Uid (common i)) \<or> obj_get kvs (c_Uid (common i)) \<noteq> None)
        \<and> store_cids (object_map kvs) ids1 = Some ids2 \<and> sweep ids2 = (gone, ids3)
        \<and> taken e a c (map (\<lambda>(u, cid). enc (brief (brief_common u cid False))) gone))"

text \<open>
  What the server is told: the requests of a run from \<open>c\<close> to \<open>c'\<close> carry, one after the other, the JSON texts of the
  reports that are not empty, each as the parameter named after the resource.
\<close>

definition sends :: "K8sBaseCollector \<Rightarrow> json list list \<Rightarrow> K8sBaseCollector \<Rightarrow> bool" where
  "sends c reports c' \<longleftrightarrow> (\<exists>new. sent c' = sent c @ new
     \<and> map (\<lambda>r. gget (Params r) (resourceName c)) new = map (\<lambda>rs. json_print (JArr rs)) (filter (\<lambda>rs. rs \<noteq> []) reports))"

text \<open>After the messages the server holds the infos of the listing, and the cache agrees with that.\<close>

definition synchronised :: "('i \<Rightarrow> CommonInfo) \<Rightarrow> ('i \<Rightarrow> json) \<Rightarrow> 'i list \<Rightarrow> 'i list \<Rightarrow> view \<Rightarrow> identifiers \<Rightarrow> bool" where
  "synchronised common enc infos msgs view ids \<longleftrightarrow>
     (let now = map_of (map (\<lambda>i. (c_Uid (common i), enc i)) infos)
      in view_after common enc msgs view = now \<and> agrees ids now)"

lemma invoke_report_fields [simp]:
  "invoke_report e a resource (c\<lparr>identifiers := ids\<rparr>) = invoke_report e a resource c"
  "invoke_report e a resource (c\<lparr>indexer := b\<rparr>) = invoke_report e a resource c"
  "invoke_report e a resource (c\<lparr>sent := rs\<rparr>) = invoke_report e a resource c"
  by (simp_all add: invoke_report_def)

lemma report_predicates_fields [simp]:
  "accepted e a (c\<lparr>identifiers := ids\<rparr>) resource kvs = accepted e a c resource kvs"
  "taken e a (c\<lparr>identifiers := ids\<rparr>) resource = taken e a c resource"
  "refused e a (c\<lparr>identifiers := ids\<rparr>) resource = refused e a c resource"
  "accepted e a (c\<lparr>indexer := b\<rparr>) resource kvs = accepted e a c resource kvs"
  "taken e a (c\<lparr>indexer := b\<rparr>) resource = taken e a c resource"
  "taken e a (c\<lparr>sent := rs\<rparr>) resource = taken e a c resource"
  by (simp_all add: accepted_def taken_def refused_def)

lemma accepted_cycle_indexer [simp]:
  "accepted_cycle common brief enc e a (c\<lparr>indexer := b\<rparr>) infos = accepted_cycle common brief enc e a c infos"
  by (simp add: accepted_cycle_def)

lemma sends_fields [simp]:
  "sends (c\<lparr>indexer := b\<rparr>) reports c' = sends c reports c'" "sends (c\<lparr>identifiers := ids\<rparr>) reports c' = sends c reports c'"
  by (simp_all add: sends_def)

text \<open>The transport keeps the parameters of a request, its time stamp apart.\<close>

lemma Invoke_params:
  assumes "Invoke ks now uuid chan uri r b = Some (r', x)" "k \<noteq> TimestampKey"
  shows "gget (Params r') k = gget (Params r) k"
proof -
  have add: "gget (Params r2) k = gget (Params r1) k" if "AddParam TimestampKey v r1 = Some r2" for v r1 r2
    using that assms(2) by (cases "Params r1") (auto simp: AddParam_def gset_def gget_def update_conv' split: if_splits)
  have head: "Params r2 = Params r1" if "AddHeader h v r1 = Some r2" for h v r1 r2
    using that by (auto simp: AddHeader_def split: if_splits)
  show ?thesis using assms(1)
    by (auto simp: Invoke_def BuildInterceptor_def bind_eq_Some_conv dest!: add head split: if_splits option.splits)
qed

lemma invoke_report_text:
  assumes "invoke_report e a resource c = Some (r, x)" "resourceName c \<notin> {[], TimestampKey}"
  shows "gget (Params r) (resourceName c) = json_print (JArr resource)"
proof -
  obtain r0 r1 where "AddParam (resourceName c) (json_print (JArr resource)) r0 = Some r1"
    "Invoke (keys a) (e_now e) (e_uuid e) (e_chan e) ((c_uri c)\<lparr>CompressVersion := Itoa 2\<rparr>) r1 True = Some (r, x)"
    using assms(1) by (auto simp: invoke_report_def agent_Invoke_def bind_eq_Some_conv)
  with Invoke_params [OF this(2), of "resourceName c"] assms(2) show ?thesis
    by (cases "Params r0") (auto simp: AddParam_def gset_def gget_def update_conv')
qed

lemma store_cids_sent:
  "handle_report_result result c = Some c' \<Longrightarrow> sent c' = sent c \<and> resourceName c' = resourceName c"
  by (auto simp: handle_report_result_def resetIdentifierCache_def bind_eq_Some_conv Let_def
      split: option.splits json.splits if_splits)

text \<open>Whatever the server answers, a report is sent once, and an empty one is not.\<close>

lemma reportK8sMetric_sends:
  assumes "reportK8sMetric e a isExists resource c = Some c'" "resourceName c \<notin> {[], TimestampKey}"
  shows "sends c [resource] c' \<and> resourceName c' = resourceName c"
proof (cases "resource = []")
  case False
  then obtain r response err where i: "invoke_report e a resource c = Some (r, response, err)"
    using assms(1) by (auto simp: reportK8sMetric_def bind_eq_Some_conv)
  have "sent c' = sent c @ [r] \<and> resourceName c' = resourceName c"
    using assms(1) False i
    by (auto simp: reportK8sMetric_def resetIdentifierCache_def Let_def dest: store_cids_sent split: option.splits if_splits)
  then show ?thesis using False invoke_report_text [OF i assms(2)] by (simp add: sends_def)
qed (use assms in \<open>simp add: reportK8sMetric_def sends_def\<close>)

lemma sends_trans:
  "sends c rs c' \<Longrightarrow> sends c' rs' c'' \<Longrightarrow> resourceName c' = resourceName c \<Longrightarrow> sends c (rs @ rs') c''"
  by (auto simp: sends_def)

lemma report_infos_sends:
  assumes "report_infos brief enc e a infos c = Some c'" "reportK8sMetric e a True (map enc infos) c = Some c1"
    and "sweep (identifiers c1) = (gone, ids)" "resourceName c \<notin> {[], TimestampKey}"
  shows "sends c [map enc infos, map (\<lambda>(u, cid). enc (brief (brief_common u cid False))) gone] c'"
proof -
  note 1 = reportK8sMetric_sends [OF assms(2,4)]
  have "reportK8sMetric e a False (map (\<lambda>(u, cid). enc (brief (brief_common u cid False))) gone) (c1\<lparr>identifiers := ids\<rparr>) = Some c'"
    using assms(1-3) by (simp add: report_infos_def report_gone_def)
  from reportK8sMetric_sends [OF this] 1 assms(4) show ?thesis using sends_trans [of c "[map enc infos]" c1] by fastforce
qed

lemma ensure_indexer_client [simp]: "ensure_indexer True c = Some (c\<lparr>indexer := True\<rparr>)"
  by (cases c) (simp add: ensure_indexer_def)

lemma sent_last: "c\<lparr>sent := rs, identifiers := ids\<rparr> = c\<lparr>identifiers := ids, sent := rs\<rparr>"
  by (cases c) simp

lemma reportK8sMetric_accepted:
  assumes "accepted e a c resource kvs" "ReportHandler c \<noteq> VirtualNodeHandler"
    "store_cids (object_map kvs) (identifiers c) = Some ids"
  shows "\<exists>rs. reportK8sMetric e a True resource c = Some (c\<lparr>identifiers := ids, sent := rs\<rparr>)"
proof (cases "resource = []")
  case True
  with assms have "ids = identifiers c" by (simp add: accepted_def object_map_def)
  with True show ?thesis by (intro exI [of _ "sent c"]) (simp add: reportK8sMetric_def)
next
  case False
  with assms show ?thesis by (auto simp: accepted_def reportK8sMetric_def handle_report_result_def sent_last)
qed

lemma reportK8sMetric_taken: "taken e a c resource \<Longrightarrow> \<exists>rs. reportK8sMetric e a False resource c = Some (c\<lparr>sent := rs\<rparr>)"
  by (cases "resource = []") (auto simp: taken_def reportK8sMetric_def intro: exI [of _ "sent c"])

lemma reportK8sMetric_refused:
  "refused e a c resource \<Longrightarrow> \<exists>rs. reportK8sMetric e a isExists resource c = Some (resetIdentifierCache (c\<lparr>sent := rs\<rparr>))"
  by (auto simp: refused_def reportK8sMetric_def Let_def split: option.splits)

lemma report_infos_accepted:
  assumes "accepted e a c (map enc infos) kvs" "ReportHandler c \<noteq> VirtualNodeHandler" "resourceName c \<notin> {[], TimestampKey}"
    and "store_cids (object_map kvs) (identifiers c) = Some ids2" "sweep ids2 = (gone, ids3)"
    and "taken e a c (map (\<lambda>(u, cid). enc (brief (brief_common u cid False))) gone)"
  shows "\<exists>c'. report_infos brief enc e a infos c = Some c' \<and> identifiers c' = ids3
    \<and> sends c [map enc infos, map (\<lambda>(u, cid). enc (brief (brief_common u cid False))) gone] c'"
proof -
  obtain rs where 1: "reportK8sMetric e a True (map enc infos) c = Some (c\<lparr>identifiers := ids2, sent := rs\<rparr>)"
    using reportK8sMetric_accepted [OF assms(1,2,4)] by blast
  obtain rs' where 2: "report_infos brief enc e a infos c = Some (c\<lparr>identifiers := ids3, sent := rs'\<rparr>)"
    using reportK8sMetric_taken [of e a "c\<lparr>identifiers := ids3, sent := rs\<rparr>"] assms(5,6) 1
    by (auto simp: report_infos_def report_gone_def sent_last)
  from report_infos_sends [OF 2 1, of gone ids3] assms(3,5) 2 show ?thesis by simp
qed

text \<open>A report of a registered agent is answered by what the channel returns; none panics.\<close>

lemma invoke_report_registered:
  assumes "GetAccessKey (keys a) \<noteq> []" "GetSecureKey (keys a) \<noteq> []"
  shows "\<exists>r body. invoke_report e a resource c
    = Some (r, answer (e_chan e) ((c_uri c)\<lparr>CompressVersion := Itoa 2, RequestId := e_uuid e\<rparr>) body)"
proof -
  obtain r0 where r0: "NewRequest (opts a) = Some r0" by (simp add: NewRequest_eq)
  obtain r1 where r1: "AddParam (resourceName c) (json_print (JArr resource)) r0 = Some r1" "live r1"
    using AddParam_live [OF NewRequest_live [OF r0]] by blast
  from agent_Invoke_registered [OF r1(2) assms, of e "(c_uri c)\<lparr>CompressVersion := Itoa 2\<rparr>"] r0 r1(1)
  show ?thesis by (auto simp: invoke_report_def)
qed

lemma invoke_report_constant:
  assumes "GetAccessKey (keys a) \<noteq> []" "GetSecureKey (keys a) \<noteq> []"
    and "e_chan e = (\<lambda>u b. Inr (json_print (json_of_response resp)))" "response_ok resp"
  shows "\<exists>r. invoke_report e a resource c = Some (r, Some resp, None)"
  using invoke_report_registered [OF assms(1,2), of e resource c] unmarshal_json_of_response [OF assms(4)] assms(3)
  by (auto simp: answer_def unmarshal_response_def)

text \<open>After a reset nothing is left to be reported as gone: the next listing is all that is cached.\<close>

lemma resetIdentifierCache_empty [simp]: "identifiers (resetIdentifierCache c) = []"
  by (simp add: resetIdentifierCache_def)

context resource_info
begin

lemma report_synchronises:
  assumes "agrees (identifiers c) view" "fresh_infos common infos" "no_collision view (map enc infos)"
    and "ReportHandler c \<noteq> VirtualNodeHandler" "resourceName c \<notin> {[], TimestampKey}"
    and "increments common brief enc infos (identifiers c) = (ms, ids1)"
    and "accepted e a c (map enc ms') kvs" "cids_ok kvs"
    and "\<forall>i \<in> set infos. known (identifiers c) (c_Uid (common i)) \<or> obj_get kvs (c_Uid (common i)) \<noteq> None"
    and "store_cids (object_map kvs) ids1 = Some ids2" "sweep ids2 = (gone, ids3)"
    and "taken e a c (map (\<lambda>(u, cid). enc (brief (brief_common u cid False))) gone)"
  shows "\<exists>c' bs. report_infos brief enc e a ms' (c\<lparr>identifiers := ids1\<rparr>) = Some c'
    \<and> bs = map (\<lambda>(u, cid). brief (brief_common u cid False)) gone \<and> sends c [map enc ms', map enc bs] c'
    \<and> synchronised common enc infos (ms @ bs) view (identifiers c')"
proof -
  obtain c' where c': "report_infos brief enc e a ms' (c\<lparr>identifiers := ids1\<rparr>) = Some c'" "identifiers c' = ids3"
    "sends c [map enc ms', map (\<lambda>(u, cid). enc (brief (brief_common u cid False))) gone] c'"
    using report_infos_accepted [of e a "c\<lparr>identifiers := ids1\<rparr>" enc ms' kvs ids2 gone ids3 brief] assms(4,5,7,10-12) by auto
  have "(\<lambda>(u, cid). enc (brief (brief_common u cid False))) = enc \<circ> (\<lambda>(u, cid). brief (brief_common u cid False))" by auto
  with c' cycle_synchronises [OF assms(1-3,8,9,6,10,11)] show ?thesis by (auto simp: synchronised_def)
qed

lemma listing_synchronises:
  assumes "agrees (identifiers c) view" "fresh_infos common infos" "no_collision view (map enc infos)"
    and "ReportHandler c \<noteq> VirtualNodeHandler" "resourceName c \<notin> {[], TimestampKey}" "accepted_cycle common brief enc e a c infos"
  shows "\<exists>c' listed gone. report_listing (handleIncrement common brief enc) enc (report_gone brief enc) e a infos c = Some c'
    \<and> sends c [map enc listed, map enc gone] c' \<and> synchronised common enc infos (listed @ gone) view (identifiers c')"
proof -
  from assms(6) obtain ms ids1 kvs ids2 gone ids3 where
    c: "increments common brief enc infos (identifiers c) = (ms, ids1)" "accepted e a c (map enc ms) kvs" "cids_ok kvs"
      "\<forall>i \<in> set infos. known (identifiers c) (c_Uid (common i)) \<or> obj_get kvs (c_Uid (common i)) \<noteq> None"
      "store_cids (object_map kvs) ids1 = Some ids2" "sweep ids2 = (gone, ids3)"
      "taken e a c (map (\<lambda>(u, cid). enc (brief (brief_common u cid False))) gone)"
    unfolding accepted_cycle_def by blast
  from report_synchronises [OF assms(1-5) c] obtain c' bs where
    "report_infos brief enc e a ms (c\<lparr>identifiers := ids1\<rparr>) = Some c'" "sends c [map enc ms, map enc bs] c'"
    "synchronised common enc infos (ms @ bs) view (identifiers c')" by blast
  with c(1) show ?thesis by (intro exI [of _ c'] exI [of _ ms] exI [of _ bs]) (simp add: report_listing_def report_infos_def)
qed

lemma increments_all_current:
  assumes "ids_inv ids" "\<forall>k v. map_of ids k = Some v \<longrightarrow> Curr v"
  shows "\<forall>k v. map_of (snd (increments common brief enc infos ids)) k = Some v \<longrightarrow> Curr v"
  using assms
proof (induction infos arbitrary: ids)
  case (Cons i infos)
  have "\<forall>k v. map_of (snd (handleIncrement common brief enc i ids)) k = Some v \<longrightarrow> Curr v"
    using Cons.prems(2) by (auto simp: increment_lookup split: option.splits if_splits)
  with Cons.IH [OF increment_inv [OF Cons.prems(1), of i]] show ?case by (simp add: increments_Cons Let_def)
qed simp

lemma no_gone_after_reset: "fst (sweep (snd (increments common brief enc infos []))) = []"
proof -
  let ?ids = "snd (increments common brief enc infos [])"
  have i: "ids_inv ?ids" by (simp add: increments_inv)
  have "\<forall>k v. map_of ?ids k = Some v \<longrightarrow> Curr v" by (rule increments_all_current) simp_all
  then have "(u, cid) \<notin> set (fst (sweep ?ids))" for u cid using sweep_gone_inv [OF i] by auto
  then show ?thesis by (metis list.set_intros(1) neq_Nil_conv old.prod.exhaust)
qed

lemma increments_from_reset:
  "distinct (map (c_Uid \<circ> common) infos) \<Longrightarrow> fst (increments common brief enc infos []) = infos"
proof -
  have "fst (increments common brief enc infos ids) = infos"
    if "distinct (map (c_Uid \<circ> common) infos)" "\<forall>i \<in> set infos. map_of ids (c_Uid (common i)) = None" for ids
    using that
  proof (induction infos arbitrary: ids)
    case (Cons i infos)
    have "fst (handleIncrement common brief enc i ids) = i" using Cons.prems(2) by (simp add: increment_cases Let_def)
    moreover have "\<forall>j \<in> set infos. map_of (snd (handleIncrement common brief enc i ids)) (c_Uid (common j)) = None"
      using Cons.prems by (auto simp: increment_lookup image_iff)
    ultimately show ?case using Cons.IH Cons.prems(1) by (simp add: increments_Cons Let_def)
  qed simp
  then show "distinct (map (c_Uid \<circ> common) infos) \<Longrightarrow> ?thesis" by simp
qed

end

section \<open>Several list watchers\<close>

lemma multi_List_lengths:
  "multi_List ls = Inr (its, rvs) \<Longrightarrow>
     length rvs = length ls \<and> its = concat (map (fst \<circ> projr) ls) \<and> rvs = map (snd \<circ> projr) ls"
  by (induction ls arbitrary: its rvs rule: multi_List.induct) (fastforce split: sum.splits)+

text \<open>
  the combined resource version \<open>List\<close> makes of two or more watchers is taken apart by \<open>Watch\<close> into the
  version of each watcher, in order, and the combined items are those of the watchers in order,
  provided that no version contains the separator.
\<close>

theorem list_watch_versions:
  assumes "List_all ls = Inr (its, rv)" "2 \<le> length ls"
    and "\<forall>l \<in> set ls. CHR ''/'' \<notin> set (snd (projr l))"
  shows "its = concat (map (fst \<circ> projr) ls) \<and> Watch_versions (length ls) rv = Inr (map (snd \<circ> projr) ls)"
proof -
  from assms(1) obtain rvs where m: "multi_List ls = Inr (its, rvs)" and rv: "rv = Join ''/'' rvs"
    by (auto simp: List_all_def split: sum.splits)
  note l = multi_List_lengths [OF m]
  obtain x y zs where r: "rvs = x # y # zs" using l assms(2) by (metis Suc_le_length_iff numeral_2_eq_2)
  then have "rv \<noteq> []" by (simp add: rv)
  moreover have "Split (CHR ''/'') rv = rvs"
    unfolding rv by (rule Split_Join) (use l assms(3) r in auto)
  ultimately show ?thesis using l by (simp add: Watch_versions_def)
qed

theorem list_watch_versions_witness:
  "Watch_versions 2 ''10/7'' = Inr [''10'', ''7'']"
proof -
  have "List_all [Inr ([1, 2], ''10''), Inr ([3], ''7'')] = Inr ([1, 2, 3 :: nat], ''10/7'')"
    by (simp add: List_all_def)
  from list_watch_versions [OF this] show ?thesis by (simp add: numeral_2_eq_2)
qed

end
