(* ===== verification/Agent_Watch.thy ===== *)
theory Agent_Watch
  imports Agent_Collector
begin

text \<open>
  The list watch functions of the collectors and the combined watch of \<open>collector/kubernetes/kubernetes.go\<close>: \<open>multiListerWatcher.Watch\<close>, \<open>newMultiWatch\<close> and
  \<open>multiWatch.Stop\<close>. One goroutine per watch copies its events to a common unbuffered channel until the
  watch ends or the combination is stopped; another closes that channel once all of them have ended.
  The goroutines, the reader, the watches and the callers of \<open>Stop\<close> interleave as a step relation.
\<close>

section \<open>Opening the watches\<close>

text \<open>
  A watcher takes the resource version and may refuse. The result is the number of goroutines that
  were started and the error; the version is read by index, out of range a panic.
\<close>

fun open_watches :: "(string \<Rightarrow> string option) list \<Rightarrow> string list \<Rightarrow> nat \<Rightarrow> (nat \<times> string option) go" where
  "open_watches [] rvs n = Some (n, None)"
| "open_watches (lw # lws) [] n = None"
| "open_watches (lw # lws) (rv # rvs) n =
     (case lw rv of Some err \<Rightarrow> Some (n, Some err) | None \<Rightarrow> open_watches lws rvs (Suc n))"

text \<open>
  A goroutine with the watch it reads: the events the watch has produced, those in its channel,
  whether the channel is closed, the event the goroutine holds, and whether it has returned.
\<close>

record 'e sender =
  w_emitted :: "'e list"
  w_queue :: "'e list"
  w_ended :: bool
  w_held :: "'e option"
  w_exited :: bool

record 'e multiWatch =
  senders :: "'e sender list"
  mw_received :: "(nat \<times> 'e) list"
  mw_closed :: bool
  mw_stopped :: bool
  mw_stopping :: nat
  mw_crashed :: bool

definition new_sender :: "'e sender" where
  "new_sender = \<lparr>w_emitted = [], w_queue = [], w_ended = False, w_held = None, w_exited = False\<rparr>"

definition fresh_watch :: "nat \<Rightarrow> 'e multiWatch" where
  "fresh_watch n = \<lparr>senders = replicate n new_sender, mw_received = [], mw_closed = False, mw_stopped = False, mw_stopping = 0, mw_crashed = False\<rparr>"

definition newMultiWatch :: "(string \<Rightarrow> string option) list \<Rightarrow> string list \<Rightarrow> (string + 'e multiWatch) go" where
  "newMultiWatch lws resourceVersions =
     do {
       (n, err) \<leftarrow> open_watches lws resourceVersions 0;
       Some (case err of Some e \<Rightarrow> Inl e | None \<Rightarrow> Inr (fresh_watch n))
     }"

definition multi_Watch :: "(string \<Rightarrow> string option) list \<Rightarrow> string \<Rightarrow> (string + 'e multiWatch) go" where
  "multi_Watch mlw resourceVersion =
     (case Watch_versions (length mlw) resourceVersion of
        Inl err \<Rightarrow> Some (Inl err)
      | Inr rvs \<Rightarrow> newMultiWatch mlw rvs)"

section \<open>List watch functions\<close>

text \<open>
  The options of a list or watch that the code sets, and a client of the cluster: for each kind of resource
  what \<open>List\<close> and \<open>Watch\<close> answer in a name space (all of them for the empty one).
\<close>

record ListOptions =
  ResourceVersion :: string
  FieldSelector :: string

record ('l, 'w) ListWatch =
  ListFunc :: "ListOptions \<Rightarrow> 'l"
  WatchFunc :: "ListOptions \<Rightarrow> 'w"

type_synonym ('l, 'w) resource_client = "string \<Rightarrow> ('l, 'w) ListWatch"

record ('l, 'w) kube_client =
  kube_namespaces :: "('l, 'w) resource_client"
  kube_nodes :: "('l, 'w) resource_client"
  kube_pods :: "('l, 'w) resource_client"
  kube_services :: "('l, 'w) resource_client"
  kube_deployments :: "('l, 'w) resource_client"
  kube_replicasets :: "('l, 'w) resource_client"
  kube_daemonsets :: "('l, 'w) resource_client"
  kube_ingresses :: "('l, 'w) resource_client"

type_synonym ('l, 'w) listWatchFunc = "('l, 'w) kube_client \<Rightarrow> string \<Rightarrow> ListOptions \<Rightarrow> ('l, 'w) ListWatch"

text \<open>
  The functions take the options of the call as \<open>o1\<close> and pass on the ones they were made with. Nodes and
  name spaces are not in a name space.
\<close>

definition createNamespaceListWatch :: "('l, 'w) listWatchFunc" where
  "createNamespaceListWatch kubeClient ns options =
     \<lparr>ListFunc = (\<lambda>o1. ListFunc (kube_namespaces kubeClient []) options), WatchFunc = (\<lambda>o1. WatchFunc (kube_namespaces kubeClient []) options)\<rparr>"

definition createNodeListWatch :: "('l, 'w) listWatchFunc" where
  "createNodeListWatch kubeClient ns options =
     \<lparr>ListFunc = (\<lambda>o1. ListFunc (kube_nodes kubeClient []) options), WatchFunc = (\<lambda>o1. WatchFunc (kube_nodes kubeClient []) options)\<rparr>"

definition createVirtualnodeListWatch :: "('l, 'w) listWatchFunc" where
  "createVirtualnodeListWatch kubeClient ns options =
     \<lparr>ListFunc = (\<lambda>o1. ListFunc (kube_nodes kubeClient []) options), WatchFunc = (\<lambda>o1. WatchFunc (kube_nodes kubeClient []) options)\<rparr>"

definition createPodListWatch :: "('l, 'w) listWatchFunc" where
  "createPodListWatch kubeClient ns options =
     \<lparr>ListFunc = (\<lambda>o1. ListFunc (kube_pods kubeClient ns) options), WatchFunc = (\<lambda>o1. WatchFunc (kube_pods kubeClient ns) options)\<rparr>"

definition createVirtualnodepodListWatch :: "('l, 'w) listWatchFunc" where
  "createVirtualnodepodListWatch kubeClient ns options =
     \<lparr>ListFunc = (\<lambda>o1. ListFunc (kube_pods kubeClient ns) options), WatchFunc = (\<lambda>o1. WatchFunc (kube_pods kubeClient ns) options)\<rparr>"

definition createServiceListWatch :: "('l, 'w) listWatchFunc" where
  "createServiceListWatch kubeClient ns options =
     \<lparr>ListFunc = (\<lambda>o1. ListFunc (kube_services kubeClient ns) options), WatchFunc = (\<lambda>o1. WatchFunc (kube_services kubeClient ns) options)\<rparr>"

definition createDeploymentListWatch :: "('l, 'w) listWatchFunc" where
  "createDeploymentListWatch kubeClient ns options =
     \<lparr>ListFunc = (\<lambda>o1. ListFunc (kube_deployments kubeClient ns) options), WatchFunc = (\<lambda>o1. WatchFunc (kube_deployments kubeClient ns) options)\<rparr>"

definition createReplicaSetListWatch :: "('l, 'w) listWatchFunc" where
  "createReplicaSetListWatch kubeClient ns options =
     \<lparr>ListFunc = (\<lambda>o1. ListFunc (kube_replicasets kubeClient ns) options), WatchFunc = (\<lambda>o1. WatchFunc (kube_replicasets kubeClient ns) options)\<rparr>"

definition createDaemonSetListWatch :: "('l, 'w) listWatchFunc" where
  "createDaemonSetListWatch kubeClient ns options =
     \<lparr>ListFunc = (\<lambda>o1. ListFunc (kube_daemonsets kubeClient ns) options), WatchFunc = (\<lambda>o1. WatchFunc (kube_daemonsets kubeClient ns) options)\<rparr>"

definition createIngressListWatch :: "('l, 'w) listWatchFunc" where
  "createIngressListWatch kubeClient ns options =
     \<lparr>ListFunc = (\<lambda>o1. ListFunc (kube_ingresses kubeClient ns) options), WatchFunc = (\<lambda>o1. WatchFunc (kube_ingresses kubeClient ns) options)\<rparr>"

text \<open>
  \<open>reflectorPreNamespace\<close>: the watcher the reflector runs on, one per name space; indexer and reflector are the
  library's.
\<close>

definition reflectorPreNamespace ::
  "string list \<Rightarrow> ('l, 'w) kube_client \<Rightarrow> ListOptions \<Rightarrow> ('l, 'w) listWatchFunc \<Rightarrow> ('l, 'w) ListWatch watcher" where
  "reflectorPreNamespace ns clientset options listWatch = MultiNamespaceListerWatcher ns (\<lambda>n. listWatch clientset n options)"

section \<open>The steps\<close>

definition with_sender :: "nat \<Rightarrow> ('e sender \<Rightarrow> 'e sender) \<Rightarrow> 'e multiWatch \<Rightarrow> 'e multiWatch" where
  "with_sender i f s = s\<lparr>senders := (senders s)[i := f (senders s ! i)]\<rparr>"

text \<open>
  \<open>Emit\<close> and \<open>End\<close> are the watches', \<open>Take\<close>, \<open>Leave\<close>, \<open>Send\<close> and \<open>Quit\<close> the goroutine's (a receive, the closed
  channel, the two arms of its \<open>select\<close>; a send on the closed result would crash), \<open>Close\<close> the last
  goroutine's after \<open>wg.Wait\<close>. A caller of \<open>Stop\<close> first looks at \<open>stopped\<close>, then calls the stoppers and closes
  it, where a second close crashes; \<open>conc\<close> says whether two callers may overlap. The result is an unbuffered channel:
  an event can be sent only where somebody receives, \<open>reads\<close>.
\<close>

inductive mw_step :: "bool \<Rightarrow> bool \<Rightarrow> 'e multiWatch \<Rightarrow> 'e multiWatch \<Rightarrow> bool" for conc reads where
  Emit: "i < length (senders s) \<Longrightarrow> \<not> w_ended (senders s ! i) \<Longrightarrow>
    mw_step conc reads s (with_sender i (\<lambda>w. w\<lparr>w_emitted := w_emitted w @ [e], w_queue := w_queue w @ [e]\<rparr>) s)"
| End: "i < length (senders s) \<Longrightarrow> mw_step conc reads s (with_sender i (\<lambda>w. w\<lparr>w_ended := True\<rparr>) s)"
| Take: "i < length (senders s) \<Longrightarrow> \<not> w_exited (senders s ! i) \<Longrightarrow> w_held (senders s ! i) = None \<Longrightarrow> w_queue (senders s ! i) = e # q \<Longrightarrow>
    mw_step conc reads s (with_sender i (\<lambda>w. w\<lparr>w_held := Some e, w_queue := q\<rparr>) s)"
| Leave: "i < length (senders s) \<Longrightarrow> \<not> w_exited (senders s ! i) \<Longrightarrow> w_held (senders s ! i) = None \<Longrightarrow> w_queue (senders s ! i) = [] \<Longrightarrow>
    w_ended (senders s ! i) \<Longrightarrow> mw_step conc reads s (with_sender i (\<lambda>w. w\<lparr>w_exited := True\<rparr>) s)"
| Send: "reads \<Longrightarrow> i < length (senders s) \<Longrightarrow> \<not> w_exited (senders s ! i) \<Longrightarrow> w_held (senders s ! i) = Some e \<Longrightarrow> \<not> mw_closed s \<Longrightarrow>
    mw_step conc reads s ((with_sender i (\<lambda>w. w\<lparr>w_held := None\<rparr>) s)\<lparr>mw_received := mw_received s @ [(i, e)]\<rparr>)"
| Send_closed: "i < length (senders s) \<Longrightarrow> \<not> w_exited (senders s ! i) \<Longrightarrow> w_held (senders s ! i) = Some e \<Longrightarrow> mw_closed s \<Longrightarrow>
    mw_step conc reads s (s\<lparr>mw_crashed := True\<rparr>)"
| Quit: "i < length (senders s) \<Longrightarrow> \<not> w_exited (senders s ! i) \<Longrightarrow> w_held (senders s ! i) = Some e \<Longrightarrow> mw_stopped s \<Longrightarrow>
    mw_step conc reads s (with_sender i (\<lambda>w. w\<lparr>w_exited := True\<rparr>) s)"
| Close: "list_all w_exited (senders s) \<Longrightarrow> \<not> mw_closed s \<Longrightarrow> mw_step conc reads s (s\<lparr>mw_closed := True\<rparr>)"
| Stop_look: "\<not> mw_stopped s \<Longrightarrow> conc \<or> mw_stopping s = 0 \<Longrightarrow> mw_step conc reads s (s\<lparr>mw_stopping := Suc (mw_stopping s)\<rparr>)"
| Stop_close: "mw_stopping s = Suc k \<Longrightarrow>
    mw_step conc reads s (if mw_stopped s then s\<lparr>mw_stopping := k, mw_crashed := True\<rparr> else s\<lparr>mw_stopping := k, mw_stopped := True\<rparr>)"

inductive_cases mw_step_cases: "mw_step conc reads s s'"

section \<open>Events are neither lost nor reordered\<close>

definition delivered :: "nat \<Rightarrow> 'e multiWatch \<Rightarrow> 'e list" where
  "delivered i s = map snd (filter (\<lambda>p. fst p = i) (mw_received s))"

definition sender_inv :: "bool \<Rightarrow> 'e list \<Rightarrow> 'e sender \<Rightarrow> bool" where
  "sender_inv st dl w \<longleftrightarrow>
     w_emitted w = dl @ (case w_held w of None \<Rightarrow> [] | Some e \<Rightarrow> [e]) @ w_queue w
     \<and> (w_exited w \<and> \<not> st \<longrightarrow> w_held w = None \<and> w_queue w = [] \<and> w_ended w)"

definition watch_inv :: "'e multiWatch \<Rightarrow> bool" where
  "watch_inv s \<longleftrightarrow>
     (\<forall>i < length (senders s). sender_inv (mw_stopped s) (delivered i s) (senders s ! i))
     \<and> (mw_closed s \<longrightarrow> list_all w_exited (senders s))"

lemma with_sender_simps [simp]:
  "mw_received (with_sender i f s) = mw_received s" "mw_stopped (with_sender i f s) = mw_stopped s" "mw_stopping (with_sender i f s) = mw_stopping s"
  "mw_closed (with_sender i f s) = mw_closed s" "mw_crashed (with_sender i f s) = mw_crashed s"
  "length (senders (with_sender i f s)) = length (senders s)" "delivered j (with_sender i f s) = delivered j s"
  "j < length (senders s) \<Longrightarrow> senders (with_sender i f s) ! j = (if i = j then f (senders s ! j) else senders s ! j)"
  by (auto simp: with_sender_def delivered_def)

lemma delivered_Send [simp]:
  "delivered j (s\<lparr>mw_received := mw_received t @ [(i, e)]\<rparr>) = delivered j t @ (if i = j then [e] else [])"
  by (simp add: delivered_def)

lemma watch_inv_fresh: "watch_inv (fresh_watch n)"
  by (auto simp: watch_inv_def fresh_watch_def new_sender_def sender_inv_def delivered_def list_all_length)

lemma delivered_frame [simp]:
  "delivered j (s\<lparr>mw_crashed := b\<rparr>) = delivered j s" "delivered j (s\<lparr>mw_closed := b\<rparr>) = delivered j s"
  "delivered j (s\<lparr>mw_stopping := k\<rparr>) = delivered j s" "delivered j (s\<lparr>mw_stopped := b\<rparr>) = delivered j s"
  by (simp_all add: delivered_def)

lemma watch_inv_step:
  assumes "mw_step conc reads s s'" "watch_inv s"
  shows "watch_inv s'"
proof -
  have inv: "sender_inv (mw_stopped s) (delivered i s) (senders s ! i)" if "i < length (senders s)" for i
    using assms(2) that by (simp add: watch_inv_def)
  have cl: "w_exited (senders s ! i)" if "mw_closed s" "i < length (senders s)" for i
    using assms(2) that by (simp add: watch_inv_def list_all_length)
  from assms(1) show ?thesis
  proof (cases rule: mw_step.cases)
    case Stop_close
    then show ?thesis using inv cl by (auto simp: watch_inv_def sender_inv_def list_all_length)
  qed (use inv cl in \<open>force simp: watch_inv_def sender_inv_def list_all_length\<close>)+
qed

lemma watch_inv_reachable: "(mw_step conc reads)\<^sup>*\<^sup>* (fresh_watch n) s \<Longrightarrow> watch_inv s"
  by (induction rule: rtranclp_induct) (auto intro: watch_inv_fresh watch_inv_step)

lemma senders_length: "(mw_step conc reads)\<^sup>*\<^sup>* s s' \<Longrightarrow> length (senders s') = length (senders s)"
  by (induction rule: rtranclp_induct) (auto elim!: mw_step_cases split: if_splits)

lemma open_watches_count: "open_watches lws rvs n = Some (m, None) \<Longrightarrow> m = n + length lws"
  by (induction lws rvs n rule: open_watches.induct) (auto split: option.splits)

lemma multi_Watch_fresh: "multi_Watch mlw rv = Some (Inr s) \<Longrightarrow> s = fresh_watch (length mlw)"
  by (auto simp: multi_Watch_def newMultiWatch_def bind_eq_Some_conv dest!: open_watches_count
      split: sum.splits option.splits prod.splits)

text \<open>
  C33: the combined watch neither loses nor reorders events: whatever the schedule, what the reader has got
  of each watch is a prefix of what that watch has produced, and when the result is closed although
  nobody stopped it, the reader has got everything.
\<close>

theorem combined_watch_keeps_events:
  assumes "multi_Watch mlw rv = Some (Inr s0)" "(mw_step conc reads)\<^sup>*\<^sup>* s0 s" "i < length mlw"
  shows "prefix (delivered i s) (w_emitted (senders s ! i))
    \<and> (mw_closed s \<and> \<not> mw_stopped s \<longrightarrow> delivered i s = w_emitted (senders s ! i))"
proof -
  have s0: "s0 = fresh_watch (length mlw)" using assms(1) by (rule multi_Watch_fresh)
  have "i < length (senders s)" using senders_length [OF assms(2)] assms(3) by (simp add: s0 fresh_watch_def)
  then have "sender_inv (mw_stopped s) (delivered i s) (senders s ! i)" "mw_closed s \<Longrightarrow> w_exited (senders s ! i)"
    using watch_inv_reachable [OF assms(2) [unfolded s0]] by (auto simp: watch_inv_def list_all_length)
  then show ?thesis by (auto simp: sender_inv_def)
qed

section \<open>The version of a watch\<close>

text \<open>
  The watchers of several name spaces as \<open>newMultiWatch\<close> calls them: with a copy of the options that has the
  resource version for each.
\<close>

definition opened_with :: "ListOptions \<Rightarrow> ('l, string option) ListWatch \<Rightarrow> string \<Rightarrow> string option" where
  "opened_with options lw rv = WatchFunc lw (options\<lparr>ResourceVersion := rv\<rparr>)"

lemma open_watches_fixed:
  "length rvs1 = length lws \<Longrightarrow> length rvs2 = length lws \<Longrightarrow> (\<And>lw rv1 rv2. lw \<in> set lws \<Longrightarrow> lw rv1 = lw rv2) \<Longrightarrow>
     open_watches lws rvs1 n = open_watches lws rvs2 n"
proof (induction lws arbitrary: rvs1 rvs2 n)
  case (Cons lw lws)
  from Cons.prems obtain r1 q1 r2 q2 where rvs: "rvs1 = r1 # q1" "rvs2 = r2 # q2" by (metis length_Suc_conv)
  have "lw r1 = lw r2" by (rule Cons.prems(3)) simp
  moreover have "open_watches lws q1 m = open_watches lws q2 m" for m
  proof (rule Cons.IH)
    show "length q1 = length lws" "length q2 = length lws" using Cons.prems(1,2) rvs by simp_all
    show "l v1 = l v2" if "l \<in> set lws" for l v1 v2 by (rule Cons.prems(3)) (use that in simp)
  qed
  ultimately show ?case unfolding rvs by (simp split: option.split)
qed simp

lemma Watch_versions_length: "Watch_versions n rv = Inr rvs \<Longrightarrow> length rvs = n"
  by (auto simp: Watch_versions_def Let_def split: if_splits)

text \<open>
  The version a reflector asks for has no effect: with the list watch functions of the collectors a combined
  watch opens its watches in the same way for every version it can take apart.
\<close>

theorem watch_version_is_dropped:
  assumes "listWatch \<in> {createPodListWatch, createServiceListWatch, createDeploymentListWatch, createReplicaSetListWatch,
      createDaemonSetListWatch, createIngressListWatch, createVirtualnodepodListWatch}"
    and "Watch_versions (length ns) rv1 = Inr rvs1" "Watch_versions (length ns) rv2 = Inr rvs2"
  shows "multi_Watch (map (\<lambda>n. opened_with o1 (listWatch kube n options)) ns) rv1
    = multi_Watch (map (\<lambda>n. opened_with o1 (listWatch kube n options)) ns) rv2"
proof -
  have f: "opened_with o1 (listWatch kube n options) r1 = opened_with o1 (listWatch kube n options) r2" for n r1 r2
    using assms(1) by (elim insertE) (simp_all add: opened_with_def createPodListWatch_def createServiceListWatch_def
      createDeploymentListWatch_def createReplicaSetListWatch_def createDaemonSetListWatch_def createIngressListWatch_def
      createVirtualnodepodListWatch_def)
  have "open_watches (map (\<lambda>n. opened_with o1 (listWatch kube n options)) ns) rvs1 0
      = open_watches (map (\<lambda>n. opened_with o1 (listWatch kube n options)) ns) rvs2 0"
  proof (rule open_watches_fixed)
    fix lw r1 r2
    assume "lw \<in> set (map (\<lambda>n. opened_with o1 (listWatch kube n options)) ns)"
    then obtain n where "lw = opened_with o1 (listWatch kube n options)" by auto
    then show "lw r1 = lw r2" by (simp only: f [of n r1 r2])
  qed (use Watch_versions_length [OF assms(2)] Watch_versions_length [OF assms(3)] in simp_all)
  with assms(2,3) show ?thesis by (simp add: multi_Watch_def newMultiWatch_def)
qed

section \<open>Stopping\<close>

text \<open>Where the calls of \<open>Stop\<close> do not overlap, nothing crashes.\<close>

definition seq_inv :: "'e multiWatch \<Rightarrow> bool" where
  "seq_inv s \<longleftrightarrow> \<not> mw_crashed s \<and> mw_stopping s \<le> 1 \<and> (mw_stopped s \<longrightarrow> mw_stopping s = 0) \<and> watch_inv s"

lemma seq_inv_step:
  assumes "mw_step False reads s s'" "seq_inv s"
  shows "seq_inv s'"
proof -
  have "watch_inv s'" using watch_inv_step assms by (auto simp: seq_inv_def)
  moreover from assms have "\<not> mw_crashed s' \<and> mw_stopping s' \<le> 1 \<and> (mw_stopped s' \<longrightarrow> mw_stopping s' = 0)"
    by (cases rule: mw_step.cases) (auto simp: seq_inv_def watch_inv_def list_all_length)
  ultimately show ?thesis by (simp add: seq_inv_def)
qed

lemma seq_inv_reachable: "(mw_step False reads)\<^sup>*\<^sup>* (fresh_watch n) s \<Longrightarrow> seq_inv s"
proof (induction rule: rtranclp_induct)
  case base
  show ?case using watch_inv_fresh by (simp add: seq_inv_def fresh_watch_def)
qed (rule seq_inv_step)

text \<open>
  calls of \<open>Stop\<close> may overlap: two callers that both find the watch running both close \<open>stopped\<close>, and the
  second one crashes the process.
\<close>

theorem concurrent_stops_crash: "\<exists>s. (mw_step True reads)\<^sup>*\<^sup>* (fresh_watch n :: 'e multiWatch) s \<and> mw_crashed s"
proof -
  let ?s0 = "fresh_watch n :: 'e multiWatch"
  have "mw_step True reads ?s0 (?s0\<lparr>mw_stopping := 1\<rparr>)" using Stop_look [of ?s0 True reads] by (simp add: fresh_watch_def)
  moreover have "mw_step True reads (?s0\<lparr>mw_stopping := 1\<rparr>) (?s0\<lparr>mw_stopping := 2\<rparr>)"
    using Stop_look [of "?s0\<lparr>mw_stopping := 1\<rparr>" True reads] by (simp add: fresh_watch_def numeral_2_eq_2)
  moreover have "mw_step True reads (?s0\<lparr>mw_stopping := 2\<rparr>) (?s0\<lparr>mw_stopping := 1, mw_stopped := True\<rparr>)"
    using Stop_close [of "?s0\<lparr>mw_stopping := 2\<rparr>" 1 True reads] by (simp add: fresh_watch_def numeral_2_eq_2)
  moreover have "mw_step True reads (?s0\<lparr>mw_stopping := 1, mw_stopped := True\<rparr>) (?s0\<lparr>mw_stopping := 0, mw_stopped := True, mw_crashed := True\<rparr>)"
    using Stop_close [of "?s0\<lparr>mw_stopping := 1, mw_stopped := True\<rparr>" 0 True reads] by (simp add: fresh_watch_def)
  ultimately have "(mw_step True reads)\<^sup>*\<^sup>* ?s0 (?s0\<lparr>mw_stopping := 0, mw_stopped := True, mw_crashed := True\<rparr>)"
    by (meson converse_rtranclp_into_rtranclp rtranclp.rtrancl_refl)
  then show ?thesis by (intro exI conjI) (assumption, simp)
qed

text \<open>What the goroutines still have to do once the watch is stopped.\<close>

definition sender_work :: "'e sender \<Rightarrow> nat" where
  "sender_work w = (if w_exited w then 0 else Suc (2 * length (w_queue w) + (if w_held w = None then 0 else 1)))"

definition work :: "'e multiWatch \<Rightarrow> nat" where
  "work s = sum_list (map sender_work (senders s)) + (if mw_closed s then 0 else 1)"

definition winding_down :: "'e multiWatch \<Rightarrow> bool" where
  "winding_down s \<longleftrightarrow> seq_inv s \<and> mw_stopped s \<and> list_all w_ended (senders s)"

lemma work_with_sender:
  assumes "i < length (senders s)" "sender_work (f (senders s ! i)) < sender_work (senders s ! i)"
  shows "work (with_sender i f s) < work s"
proof -
  have "sender_work (senders s ! i) \<le> sum_list (map sender_work (senders s))"
    using assms(1) by (intro member_le_sum_list) auto
  with assms show ?thesis by (simp add: work_def with_sender_def map_update sum_list_update)
qed

lemma winding_down_step:
  assumes "mw_step False reads s s'" "winding_down s"
  shows "winding_down s' \<and> (s' = s \<or> work s' < work s)"
proof -
  have inv: "seq_inv s'" using seq_inv_step assms by (auto simp: winding_down_def)
  have n: "w_ended (senders s ! i)" if "i < length (senders s)" for i
    using assms(2) that by (simp add: winding_down_def list_all_length)
  from assms(1) show ?thesis
  proof (cases rule: mw_step.cases)
    case (End i)
    have "(senders s ! i)\<lparr>w_ended := True\<rparr> = senders s ! i" using n [OF End(2)] by (cases "senders s ! i") simp
    then have "s' = s" unfolding End(1) with_sender_def by (cases s) simp
    then show ?thesis using assms(2) by simp
  next
    case Close
    then have "work s' < work s" by (simp add: work_def)
    then show ?thesis using inv assms(2) Close by (simp add: winding_down_def)
  next
    case (Send i e)
    let ?t = "with_sender i (\<lambda>w. w\<lparr>w_held := None\<rparr>) s"
    have "work ?t < work s" using Send by (intro work_with_sender) (auto simp: sender_work_def)
    moreover have "work s' = work ?t" unfolding Send(1) by (simp add: work_def)
    ultimately show ?thesis using inv assms(2) n Send by (auto simp: winding_down_def list_all_length with_sender_def nth_list_update)
  qed (use inv assms(2) n in \<open>auto simp: winding_down_def list_all_length sender_work_def seq_inv_def watch_inv_def
      intro!: work_with_sender\<close>)
qed

lemma winding_down_progress:
  assumes "winding_down s" "\<not> mw_closed s"
  shows "\<exists>s'. mw_step False reads s s' \<and> s' \<noteq> s"
proof (cases "list_all w_exited (senders s)")
  case True
  then have "mw_step False reads s (s\<lparr>mw_closed := True\<rparr>)" using assms(2) by (rule Close)
  moreover have "s\<lparr>mw_closed := True\<rparr> \<noteq> s" using assms(2) by (cases s) simp
  ultimately show ?thesis by blast
next
  case False
  then obtain i where i: "i < length (senders s)" "\<not> w_exited (senders s ! i)" by (auto simp: list_all_length)
  have e: "w_ended (senders s ! i)" "mw_stopped s" using assms(1) i(1) by (auto simp: winding_down_def list_all_length)
  have ne: "with_sender i f s \<noteq> s" if "f (senders s ! i) \<noteq> senders s ! i" for f
    using that i(1) with_sender_simps(8) [of i s i f] by metis
  consider (h) x where "w_held (senders s ! i) = Some x" | (q) x q where "w_held (senders s ! i) = None" "w_queue (senders s ! i) = x # q"
    | (n) "w_held (senders s ! i) = None" "w_queue (senders s ! i) = []" by (metis list.exhaust option.exhaust)
  then show ?thesis
  proof cases
    case h
    have "(senders s ! i)\<lparr>w_exited := True\<rparr> \<noteq> senders s ! i" using i(2) by (cases "senders s ! i") simp
    then show ?thesis using ne Quit [OF i h e(2)] by blast
  next
    case (q x r)
    have "(senders s ! i)\<lparr>w_held := Some x, w_queue := r\<rparr> \<noteq> senders s ! i" using q by (cases "senders s ! i") simp
    then show ?thesis using ne [of "\<lambda>w. w\<lparr>w_held := Some x, w_queue := r\<rparr>"] Take [OF i q] by blast
  next
    case n
    have "(senders s ! i)\<lparr>w_exited := True\<rparr> \<noteq> senders s ! i" using i(2) by (cases "senders s ! i") simp
    then show ?thesis using ne Leave [OF i n e(1)] by blast
  qed
qed

text \<open>
  C34: a stopped watch comes to rest: once \<open>Stop\<close> has been called (by one caller at a time) and the watches have
  closed their channels, every run that does not idle while a step is possible closes the result, and
  nothing crashes; this holds where the result is still read, and also where nobody reads it any more, so
  that no event that is held can be sent.
\<close>

theorem stop_closes_result:
  assumes "multi_Watch mlw rv = Some (Inr s0)" "(mw_step False True)\<^sup>*\<^sup>* s0 (run 0)" "mw_stopped (run 0)"
    and "list_all w_ended (senders (run 0))"
    and "\<And>k. (mw_step False reads (run k) (run (Suc k)) \<and> run (Suc k) \<noteq> run k)
          \<or> run (Suc k) = run k \<and> \<not> (\<exists>s'. mw_step False reads (run k) s' \<and> s' \<noteq> run k)"
  shows "\<exists>k. mw_closed (run k) \<and> \<not> mw_crashed (run k)"
proof (rule ccontr)
  assume no: "\<nexists>k. mw_closed (run k) \<and> \<not> mw_crashed (run k)"
  have "winding_down (run 0)"
    using seq_inv_reachable assms(2-4) multi_Watch_fresh [OF assms(1)] by (auto simp: winding_down_def)
  then have w: "winding_down (run k)" for k
    by (induction k) (use assms(5) winding_down_step in metis)+
  have dec: "work (run (Suc k)) < work (run k)" for k
  proof -
    have "\<not> mw_closed (run k)" using no w [of k] by (auto simp: winding_down_def seq_inv_def)
    with winding_down_progress [OF w, of k reads] assms(5) [of k] have "mw_step False reads (run k) (run (Suc k))" "run (Suc k) \<noteq> run k" by blast+
    with winding_down_step w show ?thesis by blast
  qed
  have "work (run k) + k \<le> work (run 0)" for k
  proof (induction k)
    case (Suc k)
    then show ?case using dec [of k] by linarith
  qed simp
  from this [of "Suc (work (run 0))"] show False by simp
qed

section \<open>Examples\<close>

definition one_watch :: "nat sender \<Rightarrow> (nat \<times> nat) list \<Rightarrow> bool \<Rightarrow> bool \<Rightarrow> nat multiWatch" where
  "one_watch w got st cl = \<lparr>senders = [w], mw_received = got, mw_closed = cl, mw_stopped = st, mw_stopping = 0, mw_crashed = False\<rparr>"

lemma one_watch_fresh: "multi_Watch [\<lambda>rv. None] [] = Some (Inr (one_watch new_sender [] False False))"
  by (simp add: multi_Watch_def Watch_versions_def newMultiWatch_def fresh_watch_def one_watch_def)

lemma combined_watch_keeps_events_witness:
  "\<exists>s. (mw_step True True)\<^sup>*\<^sup>* (one_watch new_sender [] False False) s \<and> delivered 0 s = [7]
    \<and> prefix (delivered 0 s) (w_emitted (senders s ! 0))"
proof -
  let ?w1 = "new_sender\<lparr>w_emitted := [7], w_queue := [7 :: nat]\<rparr>" and ?w2 = "new_sender\<lparr>w_emitted := [7], w_held := Some (7 :: nat)\<rparr>"
    and ?w3 = "new_sender\<lparr>w_emitted := [7 :: nat]\<rparr>"
  have "mw_step True True (one_watch new_sender [] False False) (one_watch ?w1 [] False False)"
    using Emit [of 0 "one_watch new_sender [] False False" True True 7] by (simp add: one_watch_def with_sender_def new_sender_def)
  moreover have "mw_step True True (one_watch ?w1 [] False False) (one_watch ?w2 [] False False)"
    using Take [of 0 "one_watch ?w1 [] False False" 7 "[]" True True] by (simp add: one_watch_def with_sender_def new_sender_def)
  moreover have "mw_step True True (one_watch ?w2 [] False False) (one_watch ?w3 [(0, 7)] False False)"
    using Send [of True 0 "one_watch ?w2 [] False False" 7 True] by (simp add: one_watch_def with_sender_def new_sender_def)
  ultimately have r: "(mw_step True True)\<^sup>*\<^sup>* (one_watch new_sender [] False False) (one_watch ?w3 [(0, 7)] False False)"
    by (meson converse_rtranclp_into_rtranclp rtranclp.rtrancl_refl)
  have "prefix (delivered 0 (one_watch ?w3 [(0, 7)] False False)) (w_emitted (senders (one_watch ?w3 [(0, 7)] False False) ! 0))"
    using combined_watch_keeps_events [OF one_watch_fresh r, of 0] by simp
  moreover have "delivered 0 (one_watch ?w3 [(0, 7)] False False) = [7]" by (simp add: delivered_def one_watch_def)
  ultimately show ?thesis using r by blast
qed

text \<open>A stopped watch that still holds an event which nobody receives.\<close>

definition stop_run :: "nat \<Rightarrow> nat multiWatch" where
  "stop_run k = one_watch (new_sender\<lparr>w_emitted := [7], w_held := Some 7, w_ended := True, w_exited := 0 < k\<rparr>) [] True (1 < k)"

lemma stop_run_reached: "(mw_step False True)\<^sup>*\<^sup>* (one_watch new_sender [] False False) (stop_run 0)"
proof -
  let ?w1 = "new_sender\<lparr>w_emitted := [7], w_queue := [7 :: nat]\<rparr>" and ?w2 = "new_sender\<lparr>w_emitted := [7], w_held := Some (7 :: nat)\<rparr>"
  have "mw_step False True (one_watch new_sender [] False False) (one_watch ?w1 [] False False)"
    using Emit [of 0 "one_watch new_sender [] False False" False True 7] by (simp add: one_watch_def with_sender_def new_sender_def)
  moreover have "mw_step False True (one_watch ?w1 [] False False) (one_watch ?w2 [] False False)"
    using Take [of 0 "one_watch ?w1 [] False False" 7 "[]" False True] by (simp add: one_watch_def with_sender_def new_sender_def)
  moreover have "mw_step False True (one_watch ?w2 [] False False) ((one_watch ?w2 [] False False)\<lparr>mw_stopping := 1\<rparr>)"
    using Stop_look [of "one_watch ?w2 [] False False" False True] by (simp add: one_watch_def)
  moreover have "mw_step False True ((one_watch ?w2 [] False False)\<lparr>mw_stopping := 1\<rparr>) (one_watch ?w2 [] True False)"
    using Stop_close [of "(one_watch ?w2 [] False False)\<lparr>mw_stopping := 1\<rparr>" 0 False True] by (simp add: one_watch_def)
  moreover have "mw_step False True (one_watch ?w2 [] True False) (stop_run 0)"
    using End [of 0 "one_watch ?w2 [] True False" False True] by (simp add: one_watch_def with_sender_def stop_run_def new_sender_def)
  ultimately show ?thesis by (meson converse_rtranclp_into_rtranclp rtranclp.rtrancl_refl)
qed

theorem stop_closes_result_witness: "\<exists>k. mw_closed (stop_run k) \<and> \<not> mw_crashed (stop_run k)"
proof (rule stop_closes_result [where run = stop_run and reads = False, OF one_watch_fresh stop_run_reached])
  show "mw_stopped (stop_run 0)" "list_all w_ended (senders (stop_run 0))" by (simp_all add: stop_run_def one_watch_def)
  fix k :: nat
  consider "k = 0" | "k = 1" | "1 < k" by linarith
  then show "(mw_step False False (stop_run k) (stop_run (Suc k)) \<and> stop_run (Suc k) \<noteq> stop_run k)
      \<or> stop_run (Suc k) = stop_run k \<and> \<not> (\<exists>s'. mw_step False False (stop_run k) s' \<and> s' \<noteq> stop_run k)"
  proof cases
    case 1
    then show ?thesis using Quit [of 0 "stop_run 0" 7 False False] by (simp add: stop_run_def one_watch_def new_sender_def with_sender_def)
  next
    case 2
    then show ?thesis using Close [of "stop_run 1" False False] by (simp add: stop_run_def one_watch_def new_sender_def)
  next
    case 3
    then show ?thesis by (auto simp: stop_run_def one_watch_def new_sender_def with_sender_def elim!: mw_step_cases)
  qed
qed

end
