(* ===== verification/Agent_Chaosblade.thy ===== *)
theory Agent_Chaosblade
  imports Agent_Conn
begin

text \<open>
  The chaosblade handler (\<open>web/handler/chaosblade.go\<close>): running a blade command, reading its result,
  the table of running experiments, the goroutines that poll a status and report it, and the wait for
  the operator of a Kubernetes experiment. The answers of the shell and the ticks of the timers are
  arguments; a call is one of three things: it panics, it still waits, or it returns.
\<close>

datatype 'a run = Panic | Waiting | Ret 'a

fun run_of_go :: "'a go \<Rightarrow> 'a run" where
  "run_of_go None = Panic"
| "run_of_go (Some a) = Ret a"

fun run_bind :: "'a run \<Rightarrow> ('a \<Rightarrow> 'b run) \<Rightarrow> 'b run" where
  "run_bind Panic f = Panic"
| "run_bind Waiting f = Waiting"
| "run_bind (Ret a) f = f a"

section \<open>Reading a command line\<close>

definition JavaType :: string where "JavaType = ''jvm''"

definition isCreateOrPrepareCmd :: "string \<Rightarrow> bool" where
  "isCreateOrPrepareCmd command \<longleftrightarrow> PrepareOperation command \<or> CreateOperation command"

definition isDestroyOrRevokeCmd :: "string \<Rightarrow> bool" where
  "isDestroyOrRevokeCmd command \<longleftrightarrow> RevokeOperation command \<or> DestroyOperation command"

definition isJavaAgentInstall :: "string \<Rightarrow> string \<Rightarrow> bool" where
  "isJavaAgentInstall command agentType \<longleftrightarrow> PrepareOperation command \<and> agentType = JavaType"

definition isRevokeOperation :: "string \<Rightarrow> bool" where
  "isRevokeOperation command \<longleftrightarrow> RevokeOperation command"

fun has_async :: "string list \<Rightarrow> bool" where
  "has_async [] \<longleftrightarrow> False"
| "has_async (v # vs) \<longleftrightarrow>
     (if \<not> prefix ''--'' v then has_async vs
      else if AsyncParamer (drop 2 v) then True
      else has_async vs)"

text \<open>\<open>isAsyncCreate\<close>: \<^const>\<open>None\<close> is the panic of \<open>cmds[0]\<close> on a blank command.\<close>

definition isAsyncCreate :: "string \<Rightarrow> bool go" where
  "isAsyncCreate cmd =
     (case Fields cmd of
        [] \<Rightarrow> None
      | c # cs \<Rightarrow> if \<not> CreateOperation c then Some False else Some (has_async (c # cs)))"

definition isK8sCreateCmd :: "string \<Rightarrow> string \<Rightarrow> bool" where
  "isK8sCreateCmd cmd command =
     (if \<not> CreateOperation command then False
      else (let fields = Fields cmd in
            if length fields < 2 then False else EqualFold (fields ! 1) ''k8s''))"

section \<open>Reading a result\<close>

definition parseResult :: "string \<Rightarrow> Response" where
  "parseResult result =
     (case unmarshal_response_into zero_Response result of
        (response, True) \<Rightarrow> response
      | (response, False) \<Rightarrow>
          (case from_index (CHR ''{'') result of
             None \<Rightarrow> ReturnFail ServerError [''execute success, but parse result err, result: '' @ result]
           | Some jsonStr \<Rightarrow>
               (case unmarshal_response_into response jsonStr of
                  (response', True) \<Rightarrow> response'
                | (response', False) \<Rightarrow>
                    ReturnFail ServerError [''execute success, but unmarshal result err with parsing, result: '' @ result])))"

definition nonempty :: "string option \<Rightarrow> string option" where
  "nonempty x = (case x of Some u \<Rightarrow> if u \<noteq> [] then Some u else None | None \<Rightarrow> None)"

definition extractUidFromRawResult :: "string \<Rightarrow> string" where
  "extractUidFromRawResult rawResult =
     (case decode_map rawResult of
        None \<Rightarrow> []
      | Some resultMap \<Rightarrow>
          (case (case as_object (obj_get resultMap ''result'') of
                   Some result \<Rightarrow> nonempty (as_string (obj_get result ''uid''))
                 | None \<Rightarrow> None) of
             Some uid \<Rightarrow> uid
           | None \<Rightarrow>
               (case nonempty (as_string (obj_get resultMap ''uid'')) of Some uid \<Rightarrow> uid | None \<Rightarrow> [])))"

text \<open>The \<open>response == nil\<close> branch is the argument \<^const>\<open>None\<close>.\<close>

definition extractUidFromResponse :: "Response option \<Rightarrow> string \<Rightarrow> string" where
  "extractUidFromResponse response rawResult =
     (case response of
        None \<Rightarrow> extractUidFromRawResult rawResult
      | Some r \<Rightarrow>
          (case nonempty (as_string (Some (Result r))) of
             Some uid \<Rightarrow> uid
           | None \<Rightarrow>
               (case (case as_object (Some (Result r)) of
                        Some resultMap \<Rightarrow> nonempty (as_string (obj_get resultMap ''uid''))
                      | None \<Rightarrow> None) of
                  Some uid \<Rightarrow> uid
                | None \<Rightarrow>
                    (case (case as_string (Some (Result r)) of
                             Some resultStr \<Rightarrow>
                               (case decode_map resultStr of
                                  Some resultMap \<Rightarrow> nonempty (as_string (obj_get resultMap ''uid''))
                                | None \<Rightarrow> None)
                           | None \<Rightarrow> None) of
                       Some uid \<Rightarrow> uid
                     | None \<Rightarrow> extractUidFromRawResult rawResult))))"

section \<open>Status queries\<close>

record preparation =
  p_Uid :: string
  ProgramType :: string
  Status :: string
  p_Error :: string

text \<open>The world a handler runs in: platform, shell, files.\<close>

record world =
  goos :: string
  sh :: shell
  wfs :: fs

definition blade :: "world \<Rightarrow> ctx \<Rightarrow> string \<Rightarrow> string \<times> string \<times> bool" where
  "blade w c args = ExecScript (goos w) (sh w) (wfs w) c BladeBinPath args"

text \<open>\<open>if x, ok := fields[k]; ok { field = x.(string) }\<close>: a panic where the member is not a string.\<close>

definition string_field :: "(string \<times> json) list \<Rightarrow> string \<Rightarrow> string go" where
  "string_field members k = (case obj_get members k of None \<Rightarrow> Some [] | v \<Rightarrow> as_string v)"

text \<open>
  \<open>queryPreparationStatus\<close>: an error or a record (it never returns a nil record without an error, so
  the callers' tests for nil are not reached). The text of an unknown result is not printed.
\<close>

definition queryPreparationStatus :: "world \<Rightarrow> string \<Rightarrow> (string + preparation) go" where
  "queryPreparationStatus w uid =
     (case blade w (Other_ctx None) (''status '' @ uid) of
        (result, errorMsg, False) \<Rightarrow> Some (Inl (''invoke blade error, '' @ errorMsg))
      | (result, errorMsg, True) \<Rightarrow>
          (case Result (parseResult result) of
             JNull \<Rightarrow> Some (Inl ''cannot get record'')
           | JObj members \<Rightarrow>
               do {
                 programType \<leftarrow> string_field members ''ProgramType'';
                 status \<leftarrow> string_field members ''Status'';
                 err \<leftarrow> string_field members ''Error'';
                 Some (Inr \<lparr>p_Uid = uid, ProgramType = programType, Status = status, p_Error = err\<rparr>)
               }
           | _ \<Rightarrow> Some (Inl ''unknown type of response, '')))"

text \<open>
  \<open>timingCheckStatus\<close> over the ticks of its timer: at each one either the minute is over or the
  status is asked for in the world of that moment.
\<close>

datatype tick = Deadline | Tick world

fun timing_loop :: "string \<Rightarrow> string \<Rightarrow> tick list \<Rightarrow> (string \<times> string) run" where
  "timing_loop uid status [] = Waiting"
| "timing_loop uid status (Deadline # ts) = Ret (status, [])"
| "timing_loop uid status (Tick w # ts) =
     (case queryPreparationStatus w uid of
        None \<Rightarrow> Panic
      | Some (Inl err) \<Rightarrow> timing_loop uid status ts
      | Some (Inr rec) \<Rightarrow>
          if EqualFold (Status rec) ''Created'' then timing_loop uid (Status rec) ts
          else Ret (Status rec, (if EqualFold (Status rec) ''Error'' then p_Error rec else [])))"

definition timingCheckStatus :: "string \<Rightarrow> tick list \<Rightarrow> (string \<times> string) run" where
  "timingCheckStatus uid ticks = timing_loop uid ''Unknown'' ticks"

section \<open>The wait for a Kubernetes experiment\<close>

text \<open>Whether an object has a non-empty \<open>statuses\<close> array, and whether its \<open>success\<close> is true.\<close>

definition has_statuses :: "(string \<times> json) list \<Rightarrow> bool" where
  "has_statuses m = (case as_array (obj_get m ''statuses'') of Some vs \<Rightarrow> vs \<noteq> [] | None \<Rightarrow> False)"

definition has_success :: "(string \<times> json) list \<Rightarrow> bool" where
  "has_success m = (as_bool (obj_get m ''success'') = Some True)"

text \<open>
  Whether one query ends the wait. Where the result object says \<open>success\<close> without statuses the code
  waits a second, asks again and ends the wait whatever the second answer is.
\<close>

definition k8s_ready :: "world \<Rightarrow> string \<Rightarrow> bool" where
  "k8s_ready w uid =
     (case blade w (Other_ctx None) (''query k8s create '' @ uid) of
        (result, errMsg, False) \<Rightarrow> False
      | (result, errMsg, True) \<Rightarrow>
          (let response = parseResult result in
           if \<not> Success response then False
           else (case Result response of
                   JObj m \<Rightarrow> if has_statuses m then True else has_success m
                 | JStr s \<Rightarrow>
                     (case decode_map s of
                        Some m \<Rightarrow> if has_statuses m then True else has_success m
                      | None \<Rightarrow> False)
                 | JArr vs \<Rightarrow> vs \<noteq> []
                 | _ \<Rightarrow> False)))"

fun waitForK8sStatus :: "string \<Rightarrow> tick list \<Rightarrow> unit run" where
  "waitForK8sStatus uid [] = Waiting"
| "waitForK8sStatus uid (Deadline # ts) = Ret ()"
| "waitForK8sStatus uid (Tick w # ts) = (if k8s_ready w uid then Ret () else waitForK8sStatus uid ts)"

section \<open>The table of running experiments\<close>

type_synonym running = "(string \<times> string) list"

text \<open>The goroutines a command starts.\<close>

datatype job = JavaInstall string | Async string | JavaUninstall string

definition handleCacheAndSafePoint ::
  "world \<Rightarrow> string \<Rightarrow> string \<Rightarrow> string \<Rightarrow> Response \<Rightarrow> running \<Rightarrow> (running \<times> job list) go" where
  "handleCacheAndSafePoint w cmdline command arg response rn =
     (if isCreateOrPrepareCmd command then
        do {
          uid \<leftarrow> as_string (Some (Result response));
          let rn' = AList.update uid cmdline rn;
          let java = (if isJavaAgentInstall command arg then [JavaInstall uid] else []);
          async \<leftarrow> isAsyncCreate cmdline;
          Some (rn', java @ (if async then [Async uid] else []))
        }
      else if isDestroyOrRevokeCmd command then
        (let rn' = AList.delete arg rn in
         if isRevokeOperation command then
           (case queryPreparationStatus w arg of
              None \<Rightarrow> None
            | Some (Inl err) \<Rightarrow> Some (rn', [])
            | Some (Inr rec) \<Rightarrow> Some (rn', (if ProgramType rec = JavaType then [JavaUninstall arg] else [])))
         else Some (rn', []))
      else Some (rn, []))"

text \<open>Waiting for the operator, where the command creates a Kubernetes experiment with a known id.\<close>

definition wait_if_k8s :: "string \<Rightarrow> string \<Rightarrow> string \<Rightarrow> tick list \<Rightarrow> unit run" where
  "wait_if_k8s cmd command uid ticks =
     (if isK8sCreateCmd cmd command \<and> uid \<noteq> [] then waitForK8sStatus uid ticks else Ret ())"

definition exec :: "world \<Rightarrow> tick list \<Rightarrow> string \<Rightarrow> running \<Rightarrow> (running \<times> Response \<times> job list) run" where
  "exec w ticks cmd rn =
     (case Fields cmd of
        [] \<Rightarrow> Ret (rn, ReturnFail ParameterLess [''command''], [])
      | command # rest \<Rightarrow>
          if \<not> IsExist (wfs w) BladeBinPath then Ret (rn, ReturnFail ChaosbladeFileNotFound [], [])
          else (case blade w Background cmd of
            (result, errMsg, True) \<Rightarrow>
              (let response = parseResult result;
                   uid = extractUidFromResponse (Some response) result
               in if \<not> Success response then
                    run_bind (wait_if_k8s cmd command uid ticks) (\<lambda>_. Ret (rn, response, []))
                  else
                    run_bind (wait_if_k8s cmd command uid ticks) (\<lambda>_.
                      (case rest of
                         [] \<Rightarrow> Panic
                       | arg # args \<Rightarrow>
                           run_bind (run_of_go (handleCacheAndSafePoint w cmd command arg response rn))
                             (\<lambda>(rn', jobs). Ret (rn', response, jobs)))))
          | (result, errMsg, False) \<Rightarrow>
              (case unmarshal_response result of
                 (response, False) \<Rightarrow>
                   run_bind (wait_if_k8s cmd command (extractUidFromRawResult result) ticks)
                     (\<lambda>_. Ret (rn, ReturnFail ResultUnmarshalFailed [result, errMsg], []))
               | (response, True) \<Rightarrow>
                   run_bind (wait_if_k8s cmd command (extractUidFromResponse (Some response) result) ticks)
                     (\<lambda>_. Ret (rn, response, [])))))"

text \<open>
  The part of \<open>exec\<close> before the lock: a response, or the command, its argument and the tool's reply with which
  \<open>handleCacheAndSafePoint\<close> is called; and the table its locked section leaves, also where it panics after
  the change.
\<close>

definition exec_head :: "world \<Rightarrow> tick list \<Rightarrow> string \<Rightarrow> (Response + string \<times> string \<times> Response) run" where
  "exec_head w ticks cmd =
     (case Fields cmd of
        [] \<Rightarrow> Ret (Inl (ReturnFail ParameterLess [''command'']))
      | command # rest \<Rightarrow>
          if \<not> IsExist (wfs w) BladeBinPath then Ret (Inl (ReturnFail ChaosbladeFileNotFound []))
          else (case blade w Background cmd of
            (result, errMsg, True) \<Rightarrow>
              (let response = parseResult result in
               run_bind (wait_if_k8s cmd command (extractUidFromResponse (Some response) result) ticks) (\<lambda>_.
                 if \<not> Success response then Ret (Inl response)
                 else (case rest of [] \<Rightarrow> Panic | arg # args \<Rightarrow> Ret (Inr (command, arg, response)))))
          | (result, errMsg, False) \<Rightarrow>
              (case unmarshal_response result of
                 (response, False) \<Rightarrow>
                   run_bind (wait_if_k8s cmd command (extractUidFromRawResult result) ticks)
                     (\<lambda>_. Ret (Inl (ReturnFail ResultUnmarshalFailed [result, errMsg])))
               | (response, True) \<Rightarrow>
                   run_bind (wait_if_k8s cmd command (extractUidFromResponse (Some response) result) ticks)
                     (\<lambda>_. Ret (Inl response)))))"

definition locked_table :: "string \<Rightarrow> string \<Rightarrow> string \<Rightarrow> Response \<Rightarrow> running \<Rightarrow> running" where
  "locked_table cmdline command arg response rn =
     (if isCreateOrPrepareCmd command then
        (case as_string (Some (Result response)) of None \<Rightarrow> rn | Some uid \<Rightarrow> AList.update uid cmdline rn)
      else if isDestroyOrRevokeCmd command then AList.delete arg rn
      else rn)"

definition chaosblade_Handle :: "world \<Rightarrow> tick list \<Rightarrow> Request \<Rightarrow> running \<Rightarrow> (running \<times> Response \<times> job list) run" where
  "chaosblade_Handle w ticks request rn =
     (let cmd = gget (Params request) ''cmd'' in
      if cmd = [] then Ret (rn, ReturnFail ParameterEmpty [''cmd''], []) else exec w ticks cmd rn)"

section \<open>The goroutines\<close>

definition deleteCallback :: "string \<Rightarrow> string \<Rightarrow> running \<Rightarrow> running" where
  "deleteCallback uid status rn = (if EqualFold status ''Error'' then AList.delete uid rn else rn)"

text \<open>\<open>reportStatusFunc\<close>: what the report comes to, for the environment and agent of that moment.\<close>

definition reportStatusFunc :: "env \<Rightarrow> agent \<Rightarrow> string \<Rightarrow> string \<Rightarrow> string \<Rightarrow> Uri
    \<Rightarrow> (Request \<times> Response option \<times> string option) go" where
  "reportStatusFunc e a uid status errorMsg uri = ReportStatus e a uid status errorMsg [] uri"

text \<open>
  A goroutine to its end: the table afterwards and the report, \<^const>\<open>None\<close> where the address of the
  report is missing.
\<close>

type_synonym report = "(Request \<times> Response option \<times> string option) option"

definition checkAndReportJavaAgentStatus :: "env \<Rightarrow> agent \<Rightarrow> tick list \<Rightarrow> string \<Rightarrow> running \<Rightarrow> (running \<times> report) run" where
  "checkAndReportJavaAgentStatus e a ticks uid rn =
     run_bind (timingCheckStatus uid ticks) (\<lambda>(status, errorMsg).
       let rn' = deleteCallback uid status rn in
       (case uris a API_JAVA_INSTALL of
          None \<Rightarrow> Ret (rn', None)
        | Some uri \<Rightarrow> run_bind (run_of_go (reportStatusFunc e a uid status errorMsg uri)) (\<lambda>r. Ret (rn', Some r))))"

definition checkAndReportJavaAgentUninstallStatus :: "env \<Rightarrow> agent \<Rightarrow> tick list \<Rightarrow> string \<Rightarrow> running \<Rightarrow> (running \<times> report) run" where
  "checkAndReportJavaAgentUninstallStatus e a ticks uid rn =
     run_bind (timingCheckStatus uid ticks) (\<lambda>(status, errorMsg).
       (case uris a API_JAVA_UNINSTALL of
          None \<Rightarrow> Ret (rn, None)
        | Some uri \<Rightarrow> run_bind (run_of_go (reportStatusFunc e a uid status errorMsg uri)) (\<lambda>r. Ret (rn, Some r))))"

definition checkAndReportAsyncStatus :: "env \<Rightarrow> agent \<Rightarrow> tick list \<Rightarrow> string \<Rightarrow> running \<Rightarrow> (running \<times> report) run" where
  "checkAndReportAsyncStatus e a ticks uid rn =
     run_bind (timingCheckStatus uid ticks) (\<lambda>(status, errorMsg).
       run_bind (run_of_go (reportStatusFunc e a uid status errorMsg (uri_of a API_CHAOSBLADE_ASYNC))) (\<lambda>r. Ret (rn, Some r)))"

fun run_job :: "env \<Rightarrow> agent \<Rightarrow> tick list \<Rightarrow> job \<Rightarrow> running \<Rightarrow> (running \<times> report) run" where
  "run_job e a ticks (JavaInstall uid) rn = checkAndReportJavaAgentStatus e a ticks uid rn"
| "run_job e a ticks (JavaUninstall uid) rn = checkAndReportJavaAgentUninstallStatus e a ticks uid rn"
| "run_job e a ticks (Async uid) rn = checkAndReportAsyncStatus e a ticks uid rn"

section \<open>Results with text before the JSON object\<close>

text \<open>A byte with which no JSON text starts: neither white space nor the start of a token.\<close>

definition not_json_start :: "char \<Rightarrow> bool" where
  "not_json_start c \<longleftrightarrow> c \<notin> set (''{}[]:,tfn-'' @ [CHR 0x20, CHR 0x09, CHR 0x0A, CHR 0x0D, CHR 0x22]) \<and> \<not> is_digit c"

lemma json_parse_not_start: "not_json_start c \<Longrightarrow> json_parse (c # s) = None"
proof -
  assume n: "not_json_start c"
  have z: "is_digit (CHR ''0'')" by (simp add: is_digit_def)
  have d: "\<not> is_digit c" "c \<noteq> CHR ''-''" using n unfolding not_json_start_def by simp_all
  then have "c \<noteq> CHR ''0''" using z by metis
  with d have "lex_number (c # s) = None" by (simp add: lex_number_def)
  with n show ?thesis by (simp add: json_parse_def tokenize.simps(2) not_json_start_def)
qed

lemma parseResult_plain: "response_ok r \<Longrightarrow> parseResult (json_print (json_of_response r)) = r"
  by (simp add: parseResult_def unmarshal_json_of_response)

text \<open>
  log text before the JSON object of a result does not matter: where the text holds no brace and
  does not start like a JSON value (as the warnings of the shell and of the Kubernetes client do
  not), \<open>parseResult\<close> returns the response that the object encodes.
\<close>

theorem parseResult_skips_log_text:
  assumes "pre \<noteq> []" "not_json_start (hd pre)" "CHR ''{'' \<notin> set pre" "response_ok r"
  shows "parseResult (pre @ json_print (json_of_response r)) = r"
proof -
  obtain c pre' where pre: "pre = c # pre'" using assms(1) by (cases pre) auto
  obtain t where t: "json_print (json_of_response r) = CHR ''{'' # t" by (simp add: json_of_response_def)
  have "unmarshal_response_into zero_Response (pre @ json_print (json_of_response r)) = (zero_Response, False)"
    using json_parse_not_start [of c] assms(2) pre by (simp add: unmarshal_response_into_def)
  moreover have "from_index (CHR ''{'') (pre @ json_print (json_of_response r)) = Some (json_print (json_of_response r))"
    unfolding t using assms(3) by (rule from_index_append)
  ultimately show ?thesis using unmarshal_json_of_response [OF assms(4)] by (simp add: parseResult_def)
qed

lemma ReturnSuccess_ok: "response_ok ReturnSuccess"
proof -
  have "valid_utf8 ''success''" by (auto intro!: valid_utf8_ascii)
  then show ?thesis by (simp add: response_ok_def ReturnSuccess_def OK_def max_depth_def)
qed

theorem parseResult_skips_log_text_witness:
  "parseResult (''Throttling request'' @ json_print (json_of_response ReturnSuccess)) = ReturnSuccess"
  by (rule parseResult_skips_log_text) (auto simp: not_json_start_def is_digit_def ReturnSuccess_ok)

section \<open>The table of running experiments: correctness\<close>

lemma blade_ok_exists: "blade w c args = (out, msg, True) \<Longrightarrow> IsExist (wfs w) BladeBinPath"
  unfolding blade_def using ExecScript_ok by blast

text \<open>The specification: what a successful command does to the set of running experiments.\<close>

definition running_effect :: "string \<Rightarrow> string \<Rightarrow> string \<Rightarrow> Response \<Rightarrow> (string \<rightharpoonup> string) \<Rightarrow> (string \<rightharpoonup> string)" where
  "running_effect cmdline command arg response m =
     (if isCreateOrPrepareCmd command then (case Result response of JStr uid \<Rightarrow> m(uid \<mapsto> cmdline) | _ \<Rightarrow> m)
      else if isDestroyOrRevokeCmd command then m(arg := None)
      else m)"

lemma handleCache_effect:
  assumes "handleCacheAndSafePoint w cmdline command arg response rn = Some (rn', jobs)"
  shows "map_of rn' = running_effect cmdline command arg response (map_of rn)"
  using assms
  by (auto simp: handleCacheAndSafePoint_def running_effect_def bind_eq_Some_conv Let_def update_conv' delete_conv'
      split: if_splits option.splits sum.splits)

lemma run_bind_Ret [simp]: "run_bind x f = Ret b \<longleftrightarrow> (\<exists>a. x = Ret a \<and> f a = Ret b)"
  by (cases x) auto

lemma run_of_go_Ret [simp]: "run_of_go x = Ret a \<longleftrightarrow> x = Some a"
  by (cases x) auto

lemma handleCache_table:
  "handleCacheAndSafePoint w cmdline command arg response rn = Some (rn', jobs) \<Longrightarrow> rn' = locked_table cmdline command arg response rn"
  by (auto simp: handleCacheAndSafePoint_def locked_table_def bind_eq_Some_conv Let_def split: if_splits option.splits sum.splits)

text \<open>\<open>exec\<close> is its first part, then the locked section.\<close>

lemma exec_split:
  "exec w ticks cmd rn = run_bind (exec_head w ticks cmd) (\<lambda>r.
     case r of
       Inl resp \<Rightarrow> Ret (rn, resp, [])
     | Inr (command, arg, response) \<Rightarrow>
         run_bind (run_of_go (handleCacheAndSafePoint w cmd command arg response rn)) (\<lambda>(rn', jobs). Ret (rn', response, jobs)))"
proof (cases "Fields cmd")
  case (Cons command rest)
  obtain result msg ok where b: "blade w Background cmd = (result, msg, ok)" by (metis prod.exhaust)
  have assoc: "run_bind (run_bind x f) g = run_bind x (\<lambda>a. run_bind (f a) g)" for x :: "unit run"
    and f :: "unit \<Rightarrow> (Response + string \<times> string \<times> Response) run" and g :: "_ \<Rightarrow> (running \<times> Response \<times> job list) run"
    by (cases x) simp_all
  show ?thesis
  proof (cases ok)
    case True
    then show ?thesis using Cons b
      by (cases rest) (simp_all add: exec_def exec_head_def Let_def assoc cong: if_cong)
  next
    case False
    obtain response k where "unmarshal_response result = (response, k)" by fastforce
    with False Cons b show ?thesis by (cases k) (simp_all add: exec_def exec_head_def assoc)
  qed
qed (simp add: exec_def exec_head_def)

lemma exec_head_fields: "exec_head w ticks cmd = Ret (Inr (command, arg, response)) \<Longrightarrow> \<exists>args. Fields cmd = command # arg # args"
  by (auto simp: exec_head_def Let_def split: list.splits if_splits prod.splits bool.splits)

lemma exec_cases:
  assumes "exec w ticks cmd rn = Ret (rn', resp, jobs)"
  obtains (unchanged) "rn' = rn" "jobs = []"
      "\<not> (snd (snd (blade w Background cmd)) \<and> Success resp \<and> Fields cmd \<noteq> [])"
    | (updated) result msg command arg args where "Fields cmd = command # arg # args"
      "blade w Background cmd = (result, msg, True)" "resp = parseResult result" "Success resp"
      "handleCacheAndSafePoint w cmd command arg resp rn = Some (rn', jobs)"
proof (cases "Fields cmd")
  case Nil
  with assms that(1) show thesis by (simp add: exec_def)
next
  case (Cons command rest)
  obtain result msg ok where b: "blade w Background cmd = (result, msg, ok)" by (metis prod.exhaust)
  show thesis
  proof (cases "ok \<and> Success (parseResult result)")
    case False
    with assms Cons b have "rn' = rn" "jobs = []" "\<not> (ok \<and> Success resp)"
      using blade_ok_exists by (auto simp: exec_def Let_def split: if_splits prod.splits bool.splits)
    with that(1) b show thesis by auto
  next
    case True
    then have "IsExist (wfs w) BladeBinPath" using b blade_ok_exists [of w Background cmd result msg] by simp
    with True assms Cons b that(2) show thesis by (auto simp: exec_def Let_def split: list.splits)
  qed
qed

text \<open>
  C12: the handler keeps the table of running experiments as the commands say: a successful create or
  prepare adds the id of the response with its command line, a successful destroy or revoke removes
  the id it names, and a command that fails, whose result says failure, or of another kind leaves the
  table alone.
\<close>

theorem exec_keeps_running_table:
  assumes "exec w ticks cmd rn = Ret (rn', resp, jobs)" "Fields cmd = command # arg # args"
  shows "map_of rn' =
    (if snd (snd (blade w Background cmd)) \<and> Success resp
     then running_effect cmd command arg resp (map_of rn) else map_of rn)"
  using assms(1)
proof (cases rule: exec_cases)
  case unchanged
  then show ?thesis using assms(2) by auto
next
  case (updated result msg command' arg' args')
  then show ?thesis using assms(2) handleCache_effect by auto
qed

definition sample_world :: "Response \<Rightarrow> world" where
  "sample_world r = \<lparr>goos = ''linux'', sh = (\<lambda>c. (json_print (json_of_response r), None)),
     wfs = plain_fs\<lparr>content := [BladeBinPath \<mapsto> []]\<rparr>\<rparr>"

lemma blade_sample: "blade (sample_world r) c args = (json_print (json_of_response r), [], True)"
  by (simp add: blade_def ExecScript_def IsExist_def sample_world_def Let_def IsWindows_def)

definition created :: Response where "created = ReturnSuccessWithResult (JStr ''e7'')"

lemma created_ok: "response_ok created"
proof -
  have "valid_utf8 ''e7''" by (auto intro!: valid_utf8_ascii)
  then show ?thesis by (simp add: response_ok_def created_def ReturnSuccessWithResult_def OK_def max_depth_def)
qed

lemma sample_fields: "Fields ''create cpu load'' = [''create'', ''cpu'', ''load'']" "Fields ''create k8s'' = [''create'', ''k8s'']"
  "Fields ''status'' = [''status'']"
  by code_simp+

lemma sample_create:
  "exec (sample_world created) [] ''create cpu load'' [] = Ret ([(''e7'', ''create cpu load'')], created, [])"
proof -
  have f: "\<not> EqualFold ''cpu'' ''k8s''" by (simp add: EqualFold_def ascii_lower_def)
  have "IsExist (wfs (sample_world created)) BladeBinPath" by (simp add: sample_world_def IsExist_def)
  moreover have "isAsyncCreate ''create cpu load'' = Some False"
    by (simp add: isAsyncCreate_def sample_fields operation_defs)
  ultimately show ?thesis
    using parseResult_plain [OF created_ok] f
    by (simp add: exec_def sample_fields blade_sample Let_def wait_if_k8s_def isK8sCreateCmd_def operation_defs
        handleCacheAndSafePoint_def isCreateOrPrepareCmd_def isJavaAgentInstall_def)
      (simp add: created_def ReturnSuccessWithResult_def)
qed

theorem exec_keeps_running_table_witness:
  "exec (sample_world created) [] ''create cpu load'' [] = Ret ([(''e7'', ''create cpu load'')], created, [])
   \<and> map_of [(''e7'', ''create cpu load'')] = running_effect ''create cpu load'' ''create'' ''cpu'' created Map.empty"
  using exec_keeps_running_table [OF sample_create sample_fields(1)] sample_create
  by (simp add: blade_sample created_def ReturnSuccessWithResult_def)

section \<open>Interleavings of requests and goroutines\<close>

text \<open>
  A step of the handler's table: a request that is answered, a goroutine that ends, or a request that
  panics in the locked section. Each is one action here; \<open>Agent_Threads\<close> takes the requests apart and shows in what
  order requests that overlap take effect.
\<close>

inductive handler_step :: "running \<Rightarrow> running \<Rightarrow> bool" where
  request: "chaosblade_Handle w ticks req rn = Ret (rn', resp, jobs) \<Longrightarrow> handler_step rn rn'"
| goroutine: "run_job e a ticks j rn = Ret (rn', rep) \<Longrightarrow> handler_step rn rn'"
| panic: "exec_head w ticks cmd = Ret (Inr (command, arg, response)) \<Longrightarrow>
    handleCacheAndSafePoint w cmd command arg response rn = None \<Longrightarrow> handler_step rn (locked_table cmd command arg response rn)"

text \<open>Every running experiment was started by a create or prepare command, under one id.\<close>

definition running_inv :: "running \<Rightarrow> bool" where
  "running_inv rn \<longleftrightarrow> distinct (map fst rn)
     \<and> (\<forall>(uid, cmd) \<in> set rn. \<exists>c cs. Fields cmd = c # cs \<and> isCreateOrPrepareCmd c)"

lemma set_update_subset: "set (AList.update k v al) \<subseteq> insert (k, v) (set al)"
  by (induction al) auto

lemma set_delete_subset: "set (AList.delete k al) \<subseteq> set al"
  by (induction al) auto

lemma running_inv_delete: "running_inv rn \<Longrightarrow> running_inv (AList.delete uid rn)"
  using set_delete_subset [of uid rn] by (auto simp: running_inv_def distinct_delete)

lemma running_inv_update:
  "running_inv rn \<Longrightarrow> Fields cmd = c # cs \<Longrightarrow> isCreateOrPrepareCmd c \<Longrightarrow> running_inv (AList.update uid cmd rn)"
  using set_update_subset [of uid cmd rn] by (auto simp: running_inv_def distinct_update)

lemma locked_table_inv:
  "Fields cmd = command # rest \<Longrightarrow> running_inv rn \<Longrightarrow> running_inv (locked_table cmd command arg response rn)"
  using running_inv_update running_inv_delete by (auto simp: locked_table_def split: option.splits)

lemma exec_inv: "exec w ticks cmd rn = Ret (rn', resp, jobs) \<Longrightarrow> running_inv rn \<Longrightarrow> running_inv rn'"
  by (erule exec_cases) (auto dest: handleCache_table intro: locked_table_inv)

lemma run_job_inv: "run_job e a ticks j rn = Ret (rn', rep) \<Longrightarrow> running_inv rn \<Longrightarrow> running_inv rn'"
  by (cases j) (auto simp: checkAndReportJavaAgentStatus_def checkAndReportJavaAgentUninstallStatus_def
      checkAndReportAsyncStatus_def deleteCallback_def Let_def running_inv_delete split: prod.splits option.splits)

text \<open>
  C11: in every state the handler can reach, under any interleaving of requests and status goroutines,
  the table of running experiments has one entry per id and each entry was made by a create or
  prepare command.
\<close>

theorem reachable_running_table:
  assumes "handler_step\<^sup>*\<^sup>* [] rn"
  shows "running_inv rn"
  using assms
proof (induction rule: rtranclp_induct)
  case base
  then show ?case by (simp add: running_inv_def)
next
  case (step rn rn')
  from step.hyps(2) show ?case
  proof (cases rule: handler_step.cases)
    case (request w ticks req resp jobs)
    then show ?thesis using step.IH exec_inv by (auto simp: chaosblade_Handle_def Let_def split: if_splits)
  next
    case (goroutine e a ticks j rep)
    then show ?thesis using step.IH by (rule run_job_inv)
  next
    case (panic w ticks cmd command arg response)
    then show ?thesis using step.IH exec_head_fields locked_table_inv by blast
  qed
qed

theorem reachable_running_table_witness: "running_inv [(''e7'', ''create cpu load'')]"
proof (rule reachable_running_table)
  have "chaosblade_Handle (sample_world created) [] \<lparr>Headers = None, Params = Some [(''cmd'', ''create cpu load'')]\<rparr> []
      = Ret ([(''e7'', ''create cpu load'')], created, [])"
    using sample_create by (simp add: chaosblade_Handle_def gget_def)
  then have "handler_step [] [(''e7'', ''create cpu load'')]" by (rule handler_step.request)
  then show "handler_step\<^sup>*\<^sup>* [] [(''e7'', ''create cpu load'')]" by blast
qed

section \<open>The timers\<close>

lemma waitForK8sStatus_ends: "Deadline \<in> set ticks \<Longrightarrow> waitForK8sStatus uid ticks = Ret ()"
  by (induction uid ticks rule: waitForK8sStatus.induct) auto

lemma timing_loop_result:
  "timing_loop uid st0 ticks = Ret (status, err) \<Longrightarrow> \<not> EqualFold st0 ''Error'' \<Longrightarrow>
     (err \<noteq> [] \<longrightarrow> EqualFold status ''Error'')
     \<and> (status = st0 \<or> (\<exists>w rec. Tick w \<in> set ticks \<and> queryPreparationStatus w uid = Some (Inr rec) \<and> status = Status rec))
     \<and> (Deadline \<notin> set ticks \<longrightarrow> \<not> EqualFold status ''Created'')"
proof (induction uid st0 ticks rule: timing_loop.induct)
  case (3 uid st0 w ts)
  have ce: "EqualFold x ''Created'' \<Longrightarrow> \<not> EqualFold x ''Error''" for x
    by (auto simp: EqualFold_def ascii_lower_def)
  obtain q where q: "queryPreparationStatus w uid = Some q" using 3 by (cases "queryPreparationStatus w uid") auto
  show ?case
  proof (cases q)
    case (Inl m)
    with 3 q show ?thesis by (auto)
  next
    case (Inr rec)
    with 3 q ce show ?thesis by (cases "EqualFold (Status rec) ''Created''") (auto split: if_splits)
  qed
qed auto

text \<open>
  C29: the status a goroutine reports is one that a query returned, or \<open>Unknown\<close>; an error text comes
  only with the status \<open>Error\<close>; and \<open>Created\<close> is reported only when the minute was over.
\<close>

theorem timingCheckStatus_reports:
  assumes "timingCheckStatus uid ticks = Ret (status, err)"
  shows "(err \<noteq> [] \<longrightarrow> EqualFold status ''Error'')
     \<and> (status = ''Unknown'' \<or> (\<exists>w rec. Tick w \<in> set ticks \<and> queryPreparationStatus w uid = Some (Inr rec) \<and> status = Status rec))
     \<and> (Deadline \<notin> set ticks \<longrightarrow> \<not> EqualFold status ''Created'')"
  by (rule timing_loop_result [OF assms [unfolded timingCheckStatus_def]]) (simp add: EqualFold_def ascii_lower_def)

definition status_reply :: "json \<Rightarrow> Response" where
  "status_reply err = ReturnSuccessWithResult (JObj [(''Status'', JStr ''Error''), (''Error'', err)])"

lemma status_reply_ok: "err = JNull \<or> err = JStr ''boom'' \<Longrightarrow> response_ok (status_reply err)"
proof -
  assume e: "err = JNull \<or> err = JStr ''boom''"
  have "valid_utf8 ''Status''" "valid_utf8 ''Error''" "valid_utf8 ''boom''" by (auto intro!: valid_utf8_ascii)
  with e show ?thesis
    by (auto simp: response_ok_def status_reply_def ReturnSuccessWithResult_def OK_def max_depth_def)
qed

lemma query_sample:
  "queryPreparationStatus (sample_world (status_reply (JStr ''boom''))) uid
   = Some (Inr \<lparr>p_Uid = uid, ProgramType = [], Status = ''Error'', p_Error = ''boom''\<rparr>)"
  using parseResult_plain [OF status_reply_ok, of "JStr ''boom''"]
  by (simp add: queryPreparationStatus_def blade_sample)
    (simp add: status_reply_def ReturnSuccessWithResult_def string_field_def obj_get_def)

theorem timingCheckStatus_reports_witness:
  "timingCheckStatus ''u1'' [Tick (sample_world (status_reply (JStr ''boom'')))] = Ret (''Error'', ''boom'')
   \<and> EqualFold ''Error'' ''Error''"
proof -
  have f: "\<not> EqualFold ''Error'' ''Created''" by (simp add: EqualFold_def ascii_lower_def)
  have r: "timingCheckStatus ''u1'' [Tick (sample_world (status_reply (JStr ''boom'')))] = Ret (''Error'', ''boom'')"
    using f by (simp add: timingCheckStatus_def query_sample)
  from timingCheckStatus_reports [OF r] r show ?thesis by simp
qed

section \<open>Panics\<close>

text \<open>
  a command of one word whose result says success makes the handler panic: it reads the second
  word of the command without asking whether there is one.
\<close>

theorem one_word_command_panics:
  assumes "Fields cmd = [command]" "blade w Background cmd = (result, msg, True)" "Success (parseResult result)"
  shows "exec w ticks cmd rn = Panic"
proof -
  have "IsExist (wfs w) BladeBinPath" using assms(2) by (rule blade_ok_exists)
  moreover have "wait_if_k8s cmd command uid ticks = Ret ()" for uid
    using assms(1) by (simp add: wait_if_k8s_def isK8sCreateCmd_def)
  ultimately show ?thesis using assms by (simp add: exec_def Let_def)
qed

theorem one_word_command_panics_witness: "exec (sample_world ReturnSuccess) [] ''status'' [] = Panic"
  by (rule one_word_command_panics [OF sample_fields(3) blade_sample])
    (simp add: parseResult_plain ReturnSuccess_ok, simp add: ReturnSuccess_def)

text \<open>
  a status reply in which \<open>Error\<close> is present but not a string (for example null) panics in the
  goroutine that polls the status, which nothing recovers.
\<close>

theorem status_error_not_string_panics:
  assumes "blade w (Other_ctx None) (''status '' @ uid) = (result, msg, True)"
    and "Result (parseResult result) = JObj members"
    and "obj_get members ''Error'' = Some v" "\<forall>s. v \<noteq> JStr s"
  shows "timingCheckStatus uid (Tick w # ticks) = Panic"
proof -
  have "string_field members ''Error'' = None"
    using assms(3,4) by (cases v) (simp_all add: string_field_def)
  then have "queryPreparationStatus w uid = None"
    using assms(1,2) by (auto simp: queryPreparationStatus_def bind_eq_None_conv)
  then show ?thesis by (simp add: timingCheckStatus_def)
qed

theorem status_error_not_string_panics_witness:
  "timingCheckStatus ''u1'' [Tick (sample_world (status_reply JNull))] = Panic"
proof -
  have p: "parseResult (json_print (json_of_response (status_reply JNull))) = status_reply JNull"
    by (rule parseResult_plain [OF status_reply_ok]) simp
  show ?thesis
    by (rule status_error_not_string_panics [OF blade_sample, of "status_reply JNull" "[(''Status'', JStr ''Error''), (''Error'', JNull)]" JNull])
      (simp_all add: p, simp_all add: status_reply_def ReturnSuccessWithResult_def obj_get_def)
qed

section \<open>Asynchronous commands\<close>

lemma has_async_iff: "has_async fs' \<longleftrightarrow> ''--async'' \<in> set fs' \<or> ''--a'' \<in> set fs'"
proof (induction fs')
  case (Cons v vs)
  have "prefix ''--'' v \<and> AsyncParamer (drop 2 v) \<longleftrightarrow> v = ''--async'' \<or> v = ''--a''"
    by (auto simp: AsyncParamer_def prefix_def)
  with Cons show ?case by auto
qed simp

text \<open>
  a command is taken to be asynchronous exactly when its first word is \<open>create\<close> or \<open>c\<close> and one of
  its words is \<open>--async\<close> or \<open>--a\<close>; \<open>--async=true\<close> and \<open>-a\<close> are not recognised.
\<close>

theorem isAsyncCreate_iff:
  assumes "Fields cmd = c # cs"
  shows "isAsyncCreate cmd = Some ((c = ''create'' \<or> c = ''c'') \<and> (''--async'' \<in> set (c # cs) \<or> ''--a'' \<in> set (c # cs)))"
  using assms has_async_iff [of "c # cs"] by (auto simp: isAsyncCreate_def CreateOperation_def)

theorem isAsyncCreate_iff_witness:
  "isAsyncCreate ''create cpu load'' = Some False"
  using isAsyncCreate_iff [OF sample_fields(1)] by simp

end
