(* ===== verification/Agent_Threads.thy ===== *)
theory Agent_Threads
  imports Agent_Chaosblade "HOL-Library.Multiset"
begin

text \<open>
  Concurrent requests to the chaosblade handler (\<open>web/handler/chaosblade.go\<close>): the HTTP server runs each in a
  goroutine of its own, the tool runs outside the lock, \<open>handleCacheAndSafePoint\<close> changes the table under
  \<open>mutex\<close>, and \<open>deleteCallback\<close> changes it without. A change of a Go map sets a flag; another access that
  meets the flag ends the process.
\<close>

section \<open>Goroutines and their steps\<close>

text \<open>What \<open>handleCacheAndSafePoint\<close> is called with, and the world the call runs in.\<close>

record locked =
  l_world :: world
  l_cmdline :: string
  l_command :: string
  l_arg :: string
  l_response :: Response

text \<open>The part of \<open>Handle\<close> before the lock.\<close>

definition handle_head :: "world \<Rightarrow> tick list \<Rightarrow> Request \<Rightarrow> (Response + locked) run" where
  "handle_head w ticks req =
     (let cmd = gget (Params req) ''cmd'' in
      if cmd = [] then Ret (Inl (ReturnFail ParameterEmpty [''cmd'']))
      else run_bind (exec_head w ticks cmd) (\<lambda>r.
        Ret (case r of
               Inl resp \<Rightarrow> Inl resp
             | Inr (command, arg, response) \<Rightarrow>
                 Inr \<lparr>l_world = w, l_cmdline = cmd, l_command = command, l_arg = arg, l_response = response\<rparr>)))"

text \<open>
  The places of a goroutine: a request before the tool has answered, before the lock, with the lock, and
  in the change of the table; a status goroutine of a Java agent while it asks, and in the change.
\<close>

datatype thread =
    Called world "tick list" Request | Waits locked | Holds locked | Stores locked
  | Checks string | Erases string | Over

text \<open>\<open>h_tool\<close> lists the commands that succeeded in the order in which the tool has answered them.\<close>

record handler =
  h_running :: running
  h_lock :: "nat option"
  h_threads :: "thread list"
  h_tool :: "locked list"
  h_crashed :: bool

fun writing :: "thread \<Rightarrow> bool" where
  "writing (Stores l) = True" | "writing (Erases uid) = True" | "writing t = False"

definition busy :: "handler \<Rightarrow> bool" where
  "busy s \<longleftrightarrow> list_ex writing (h_threads s)"

definition at_thread :: "nat \<Rightarrow> thread \<Rightarrow> handler \<Rightarrow> bool" where
  "at_thread i t s \<longleftrightarrow> \<not> h_crashed s \<and> i < length (h_threads s) \<and> h_threads s ! i = t"

definition goes_to :: "nat \<Rightarrow> thread \<Rightarrow> handler \<Rightarrow> handler" where
  "goes_to i t s = s\<lparr>h_threads := (h_threads s)[i := t]\<rparr>"

text \<open>How the locked section meets the table: not at all, only to look whether the id is there, or to change it.\<close>

datatype map_access = Untouched | Looked | Changed

definition access :: "locked \<Rightarrow> running \<Rightarrow> map_access" where
  "access l rn =
     (if isCreateOrPrepareCmd (l_command l) then
        (if as_string (Some (Result (l_response l))) = None then Untouched else Changed)
      else if isDestroyOrRevokeCmd (l_command l) then (if map_of rn (l_arg l) = None then Looked else Changed)
      else Untouched)"

definition stored :: "locked \<Rightarrow> running \<Rightarrow> running" where
  "stored l rn = locked_table (l_cmdline l) (l_command l) (l_arg l) (l_response l) rn"

text \<open>The status goroutines of Java agents; the others never touch the table.\<close>

definition spawned :: "locked \<Rightarrow> running \<Rightarrow> thread list" where
  "spawned l rn =
     (case handleCacheAndSafePoint (l_world l) (l_cmdline l) (l_command l) (l_arg l) (l_response l) rn of
        None \<Rightarrow> []
      | Some (rn', jobs) \<Rightarrow> concat (map (\<lambda>j. case j of JavaInstall uid \<Rightarrow> [Checks uid] | _ \<Rightarrow> []) jobs))"

text \<open>
  \<open>admits\<close> says which requests arrive, \<open>polls\<close> what the status goroutines may be told by the tool at their ticks,
  \<open>overlap\<close> whether a request may arrive while others are under way. A panic of a
  request is caught by the server, one of a status goroutine ends the process. The deferred unlock is part
  of the step that leaves the table; the status query of a revoke, which shares nothing, is part of it too.
\<close>

inductive ch_step :: "(Request \<Rightarrow> bool) \<Rightarrow> (tick list \<Rightarrow> bool) \<Rightarrow> bool \<Rightarrow> handler \<Rightarrow> handler \<Rightarrow> bool" for admits polls overlap where
  Call: "\<not> h_crashed s \<Longrightarrow> admits req \<Longrightarrow> overlap \<or> list_all (\<lambda>t. t = Over) (h_threads s) \<Longrightarrow>
    ch_step admits polls overlap s (s\<lparr>h_threads := h_threads s @ [Called w ticks req]\<rparr>)"
| Answer: "at_thread i (Called w ticks req) s \<Longrightarrow> handle_head w ticks req = Ret (Inl resp) \<or> handle_head w ticks req = Panic \<Longrightarrow>
    ch_step admits polls overlap s (goes_to i Over s)"
| Ran: "at_thread i (Called w ticks req) s \<Longrightarrow> handle_head w ticks req = Ret (Inr l) \<Longrightarrow>
    ch_step admits polls overlap s (goes_to i (Waits l) (s\<lparr>h_tool := h_tool s @ [l]\<rparr>))"
| Lock: "at_thread i (Waits l) s \<Longrightarrow> h_lock s = None \<Longrightarrow> ch_step admits polls overlap s (goes_to i (Holds l) (s\<lparr>h_lock := Some i\<rparr>))"
| Pass: "at_thread i (Holds l) s \<Longrightarrow> access l (h_running s) = Untouched \<Longrightarrow>
    ch_step admits polls overlap s (goes_to i Over (s\<lparr>h_lock := None\<rparr>))"
| Look: "at_thread i (Holds l) s \<Longrightarrow> access l (h_running s) = Looked \<Longrightarrow> \<not> busy s \<Longrightarrow>
    ch_step admits polls overlap s (goes_to i Over (s\<lparr>h_lock := None\<rparr>))"
| Begin: "at_thread i (Holds l) s \<Longrightarrow> access l (h_running s) = Changed \<Longrightarrow> \<not> busy s \<Longrightarrow>
    ch_step admits polls overlap s (goes_to i (Stores l) s)"
| Clash: "at_thread i (Holds l) s \<Longrightarrow> access l (h_running s) \<noteq> Untouched \<Longrightarrow> busy s \<Longrightarrow>
    ch_step admits polls overlap s (s\<lparr>h_crashed := True\<rparr>)"
| Finish: "at_thread i (Stores l) s \<Longrightarrow>
    ch_step admits polls overlap s (s\<lparr>h_running := stored l (h_running s), h_lock := None,
      h_threads := (h_threads s)[i := Over] @ spawned l (h_running s)\<rparr>)"
| Status: "at_thread i (Checks uid) s \<Longrightarrow> polls ticks \<Longrightarrow> timingCheckStatus uid ticks = Ret (status, msg) \<Longrightarrow>
    ch_step admits polls overlap s
      (if \<not> EqualFold status ''Error'' then goes_to i Over s
       else if busy s then s\<lparr>h_crashed := True\<rparr>
       else if map_of (h_running s) uid = None then goes_to i Over s
       else goes_to i (Erases uid) s)"
| Status_panic: "at_thread i (Checks uid) s \<Longrightarrow> polls ticks \<Longrightarrow> timingCheckStatus uid ticks = Panic \<Longrightarrow>
    ch_step admits polls overlap s (s\<lparr>h_crashed := True\<rparr>)"
| Erase: "at_thread i (Erases uid) s \<Longrightarrow>
    ch_step admits polls overlap s (goes_to i Over (s\<lparr>h_running := AList.delete uid (h_running s)\<rparr>))"

definition NewChaosbladeHandler :: handler where
  "NewChaosbladeHandler = \<lparr>h_running = [], h_lock = None, h_threads = [], h_tool = [], h_crashed = False\<rparr>"

lemma goes_to_simps [simp]:
  "h_running (goes_to i t s) = h_running s" "h_lock (goes_to i t s) = h_lock s" "h_tool (goes_to i t s) = h_tool s"
  "h_crashed (goes_to i t s) = h_crashed s" "h_threads (goes_to i t s) = (h_threads s)[i := t]"
  by (simp_all add: goes_to_def)

section \<open>Steps of the goroutines\<close>

lemma handle_head_ok:
  assumes "handle_head w ticks req = Ret (Inr l)"
  shows "exec_head (l_world l) ticks (l_cmdline l) = Ret (Inr (l_command l, l_arg l, l_response l))
     \<and> l_cmdline l = gget (Params req) ''cmd''"
proof -
  obtain r where r: "exec_head w ticks (gget (Params req) ''cmd'') = Ret r" using assms by (auto simp: handle_head_def Let_def split: if_splits)
  then show ?thesis using assms by (cases r) (auto simp: handle_head_def Let_def split: if_splits)
qed

lemma in_update: "x \<in> set (ts[i := y]) \<Longrightarrow> x = y \<or> x \<in> set ts"
  using set_update_subset_insert [of ts i y] by blast

lemma all_update: "\<forall>t \<in> set ts. P t \<Longrightarrow> P x \<Longrightarrow> \<forall>t \<in> set (ts[i := x]). P t"
  using in_update by metis

lemma at_thread_in: "at_thread i t s \<Longrightarrow> t \<in> set (h_threads s)"
  by (auto simp: at_thread_def)

section \<open>The lock\<close>

text \<open>Requests that install no Java agent, so that no status goroutine touches the table.\<close>

definition java_install :: "Request \<Rightarrow> bool" where
  "java_install req =
     (case Fields (gget (Params req) ''cmd'') of command # arg # args \<Rightarrow> isJavaAgentInstall command arg | _ \<Rightarrow> False)"

fun calm :: "thread \<Rightarrow> bool" where
  "calm (Called w ticks req) \<longleftrightarrow> \<not> java_install req"
| "calm (Waits l) \<longleftrightarrow> \<not> isJavaAgentInstall (l_command l) (l_arg l)"
| "calm (Holds l) \<longleftrightarrow> \<not> isJavaAgentInstall (l_command l) (l_arg l)"
| "calm (Stores l) \<longleftrightarrow> \<not> isJavaAgentInstall (l_command l) (l_arg l)"
| "calm Over \<longleftrightarrow> True"
| "calm t \<longleftrightarrow> False"

fun guarded :: "thread \<Rightarrow> bool" where
  "guarded (Holds l) = True" | "guarded (Stores l) = True" | "guarded t = False"

definition lock_inv :: "handler \<Rightarrow> bool" where
  "lock_inv s \<longleftrightarrow> \<not> h_crashed s \<and> (\<forall>t \<in> set (h_threads s). calm t)
     \<and> (\<forall>i. h_lock s = Some i \<longleftrightarrow> i < length (h_threads s) \<and> guarded (h_threads s ! i))"

lemma handle_head_calm:
  "handle_head w ticks req = Ret (Inr l) \<Longrightarrow> \<not> java_install req \<Longrightarrow> \<not> isJavaAgentInstall (l_command l) (l_arg l)"
  using handle_head_ok exec_head_fields by (fastforce simp: java_install_def)

lemma spawned_calm: "\<not> isJavaAgentInstall (l_command l) (l_arg l) \<Longrightarrow> spawned l rn = []"
  by (auto simp: spawned_def handleCacheAndSafePoint_def bind_eq_Some_conv Let_def split: option.splits if_splits sum.splits)

lemma guarded_writing: "calm t \<Longrightarrow> writing t \<Longrightarrow> \<exists>l. t = Stores l"
  by (cases t) auto

lemma lock_inv_not_busy:
  assumes "lock_inv s" "at_thread i (Holds l) s"
  shows "\<not> busy s"
proof
  assume "busy s"
  then obtain j where j: "j < length (h_threads s)" "writing (h_threads s ! j)" by (auto simp: busy_def list_ex_length)
  then obtain l' where "h_threads s ! j = Stores l'" using assms(1) guarded_writing by (force simp: lock_inv_def)
  then have "h_lock s = Some j" "h_threads s ! j \<noteq> Holds l" using assms(1) j by (auto simp: lock_inv_def)
  moreover have "h_lock s = Some i" "h_threads s ! i = Holds l" using assms by (auto simp: lock_inv_def at_thread_def)
  ultimately show False by simp
qed

lemma lock_inv_Finish:
  assumes "lock_inv s" "at_thread i (Stores l) s"
  shows "spawned l rn = []"
proof -
  have "calm (Stores l)" using assms at_thread_in [OF assms(2)] unfolding lock_inv_def by blast
  then show ?thesis by (intro spawned_calm) simp
qed

text \<open>A goroutine moves on: its new place is calm, and the lock goes with it.\<close>

lemma lock_inv_move:
  assumes "lock_inv s" "at_thread i t s" "calm t'" "\<not> h_crashed s'" "h_threads s' = (h_threads s)[i := t']"
    and "h_lock s' = (if guarded t' then Some i else if guarded t then None else h_lock s)" "guarded t' \<Longrightarrow> h_lock s \<in> {None, Some i}"
  shows "lock_inv s'"
proof -
  have i: "i < length (h_threads s)" "h_threads s ! i = t" using assms(2) by (auto simp: at_thread_def)
  have l: "h_lock s = Some j \<longleftrightarrow> j < length (h_threads s) \<and> guarded (h_threads s ! j)" for j using assms(1) by (simp add: lock_inv_def)
  have "h_lock s' = Some j \<longleftrightarrow> j < length (h_threads s) \<and> guarded ((h_threads s)[i := t'] ! j)" for j
  proof (cases "j = i")
    case True
    then show ?thesis using assms(6) i l [of i] by auto
  next
    case False
    then show ?thesis using assms(6,7) i l [of i] l [of j] by auto
  qed
  moreover have "\<forall>u \<in> set (h_threads s'). calm u" using assms(1,3,5) all_update [of "h_threads s" calm t' i] by (simp add: lock_inv_def)
  ultimately show ?thesis using assms(4,5) by (simp add: lock_inv_def)
qed

lemma lock_inv_step:
  assumes "ch_step admits polls overlap s s'" "lock_inv s" "\<And>req. admits req \<Longrightarrow> \<not> java_install req"
  shows "lock_inv s'"
proof -
  have calm: "calm t" if "at_thread i t s" for i t using assms(2) at_thread_in [OF that] by (simp add: lock_inv_def)
  have lock: "h_lock s = Some i" if "at_thread i t s" "guarded t" for i t using assms(2) that by (simp add: lock_inv_def at_thread_def)
  have up: "\<not> h_crashed s" using assms(2) by (simp add: lock_inv_def)
  from assms(1) show ?thesis
  proof (cases rule: ch_step.cases)
    case (Call req w ticks)
    then show ?thesis using assms(2,3) by (auto simp: lock_inv_def nth_append less_Suc_eq)
  next
    case (Answer i w ticks req resp)
    then show ?thesis using up by (intro lock_inv_move [OF assms(2) Answer(2), of Over]) simp_all
  next
    case (Ran i w ticks req l)
    then have "calm (Waits l)" using calm [OF Ran(2)] handle_head_calm by simp
    then show ?thesis using up Ran by (intro lock_inv_move [OF assms(2) Ran(2), of "Waits l"]) simp_all
  next
    case (Lock i l)
    then show ?thesis using up calm [OF Lock(2)] by (intro lock_inv_move [OF assms(2) Lock(2), of "Holds l"]) simp_all
  next
    case (Pass i l)
    then show ?thesis using up by (intro lock_inv_move [OF assms(2) Pass(2), of Over]) simp_all
  next
    case (Look i l)
    then show ?thesis using up by (intro lock_inv_move [OF assms(2) Look(2), of Over]) simp_all
  next
    case (Begin i l)
    then show ?thesis using up calm [OF Begin(2)] lock [OF Begin(2)]
      by (intro lock_inv_move [OF assms(2) Begin(2), of "Stores l"]) simp_all
  next
    case (Clash i l)
    then show ?thesis using lock_inv_not_busy [OF assms(2)] by blast
  next
    case (Finish i l)
    then show ?thesis using up lock_inv_Finish [OF assms(2) Finish(2)]
      by (intro lock_inv_move [OF assms(2) Finish(2), of Over]) simp_all
  qed (use calm in fastforce)+
qed

lemma lock_inv_reachable:
  assumes "(ch_step admits polls overlap)\<^sup>*\<^sup>* NewChaosbladeHandler s" "\<And>req. admits req \<Longrightarrow> \<not> java_install req"
  shows "lock_inv s"
  using assms(1)
proof (induction rule: rtranclp_induct)
  case (step s s')
  then show ?case using lock_inv_step assms(2) by blast
qed (simp add: lock_inv_def NewChaosbladeHandler_def)

lemma lock_released:
  assumes "lock_inv s"
  shows "\<exists>s'. (ch_step admits polls overlap)\<^sup>*\<^sup>* s s' \<and> h_lock s' = None"
proof (cases "h_lock s")
  case (Some i)
  then have i: "i < length (h_threads s)" "guarded (h_threads s ! i)" "\<not> h_crashed s" using assms by (auto simp: lock_inv_def)
  have once: "\<exists>s'. (ch_step admits polls overlap)\<^sup>*\<^sup>* s s' \<and> h_lock s' = None" if "ch_step admits polls overlap s t" "h_lock t = None" for t
    using that by blast
  have finish: "\<exists>s'. ch_step admits polls overlap t s' \<and> h_lock s' = None" if "at_thread i (Stores l) t" for t l
    using ch_step.Finish [OF that, of admits polls overlap] by (intro exI conjI, assumption) simp
  consider l where "at_thread i (Holds l) s" | l where "at_thread i (Stores l) s"
    using i by (cases "h_threads s ! i") (auto simp: at_thread_def)
  then show ?thesis
  proof cases
    case (1 l)
    note nb = lock_inv_not_busy [OF assms 1]
    show ?thesis
    proof (cases "access l (h_running s)")
      case Untouched
      then show ?thesis using once [OF ch_step.Pass [OF 1 Untouched]] by simp
    next
      case Looked
      then show ?thesis using once [OF ch_step.Look [OF 1 Looked nb]] by simp
    next
      case Changed
      have b: "ch_step admits polls overlap s (goes_to i (Stores l) s)" by (rule ch_step.Begin [OF 1 Changed nb])
      have "at_thread i (Stores l) (goes_to i (Stores l) s)" using 1 by (simp add: at_thread_def)
      then show ?thesis using finish b by (meson converse_rtranclp_into_rtranclp r_into_rtranclp)
    qed
  next
    case (2 l)
    then show ?thesis using finish by (meson r_into_rtranclp)
  qed
qed blast

text \<open>
  C8: the lock does its work as long as no Java agent is installed: whatever requests run at the same time,
  only one of them is in the locked section, the process never dies of two accesses to the table at
  once, and the lock is always given back.
\<close>

theorem requests_exclude_each_other:
  assumes "(ch_step admits polls overlap)\<^sup>*\<^sup>* NewChaosbladeHandler s" "\<forall>req. admits req \<longrightarrow> \<not> java_install req"
  shows "\<not> h_crashed s \<and> length (filter guarded (h_threads s)) \<le> 1
    \<and> (\<exists>s'. (ch_step admits polls overlap)\<^sup>*\<^sup>* s s' \<and> h_lock s' = None)"
proof -
  have inv: "lock_inv s" using lock_inv_reachable assms by blast
  have "i = j" if "i < length (h_threads s)" "guarded (h_threads s ! i)" "j < length (h_threads s)" "guarded (h_threads s ! j)" for i j
    using inv that unfolding lock_inv_def by (metis option.inject)
  then have "card {i. i < length (h_threads s) \<and> guarded (h_threads s ! i)} \<le> Suc 0"
    by (intro card_le_Suc0_iff_eq [THEN iffD2]) auto
  then have "length (filter guarded (h_threads s)) \<le> 1" by (simp add: length_filter_conv_card)
  with inv lock_released show ?thesis by (auto simp: lock_inv_def)
qed

section \<open>Requests one at a time\<close>

text \<open>The experiments of the tool by the commands it has answered, and the table while a request is under way.\<close>

definition tool_table :: "locked list \<Rightarrow> (string \<rightharpoonup> string)" where
  "tool_table ls = foldl (\<lambda>m l. running_effect (l_cmdline l) (l_command l) (l_arg l) (l_response l) m) Map.empty ls"

fun follows :: "thread list \<Rightarrow> locked list \<Rightarrow> (string \<rightharpoonup> string) \<Rightarrow> bool" where
  "follows [] ls m \<longleftrightarrow> m = tool_table ls"
| "follows [Called w ticks req] ls m \<longleftrightarrow> m = tool_table ls"
| "follows [Waits l] ls m \<longleftrightarrow> (\<exists>ks. ls = ks @ [l] \<and> m = tool_table ks)"
| "follows [Holds l] ls m \<longleftrightarrow> (\<exists>ks. ls = ks @ [l] \<and> m = tool_table ks)"
| "follows [Stores l] ls m \<longleftrightarrow> (\<exists>ks. ls = ks @ [l] \<and> m = tool_table ks)"
| "follows ts ls m \<longleftrightarrow> False"

definition active :: "handler \<Rightarrow> thread list" where
  "active s = filter (\<lambda>t. t \<noteq> Over) (h_threads s)"

lemma tool_table_snoc [simp]:
  "tool_table (ks @ [l]) = running_effect (l_cmdline l) (l_command l) (l_arg l) (l_response l) (tool_table ks)"
  by (simp add: tool_table_def)

lemma stored_effect:
  "map_of (stored l rn) = running_effect (l_cmdline l) (l_command l) (l_arg l) (l_response l) (map_of rn)"
  by (auto simp: stored_def locked_table_def running_effect_def update_conv' delete_conv' split: option.splits json.splits)

lemma unchanged_stored: "access l rn \<noteq> Changed \<Longrightarrow> map_of (stored l rn) = map_of rn"
  by (auto simp: access_def stored_def locked_table_def delete_conv' fun_eq_iff split: if_splits)

lemma active_update:
  assumes "at_thread i t s" "t \<noteq> Over"
  shows "\<exists>us vs. active s = us @ t # vs \<and> filter (\<lambda>t. t \<noteq> Over) ((h_threads s)[i := t']) = us @ (if t' = Over then [] else [t']) @ vs"
proof -
  have i: "i < length (h_threads s)" "h_threads s ! i = t" using assms(1) by (auto simp: at_thread_def)
  have a: "active s = filter (\<lambda>t. t \<noteq> Over) (take i (h_threads s)) @ t # filter (\<lambda>t. t \<noteq> Over) (drop (Suc i) (h_threads s))"
    using assms(2) i unfolding active_def by (subst id_take_nth_drop [OF i(1)]) simp
  show ?thesis by (rule exI, rule exI, rule conjI [OF a]) (simp add: upd_conv_take_nth_drop [OF i(1)])
qed

lemma follows_single: "follows (us @ t # vs) ls m \<Longrightarrow> us = [] \<and> vs = []"
  by (cases "(us @ t # vs, ls, m)" rule: follows.cases) (auto simp: append_eq_Cons_conv)

lemma follows_step:
  assumes "ch_step admits polls False s s'" "lock_inv s" "follows (active s) (h_tool s) (map_of (h_running s))"
  shows "follows (active s') (h_tool s') (map_of (h_running s'))"
proof -
  have calm: "calm t" if "at_thread i t s" for i t using assms(2) at_thread_in [OF that] by (simp add: lock_inv_def)
  have one: "active s = [t] \<and> filter (\<lambda>t. t \<noteq> Over) ((h_threads s)[i := t']) = (if t' = Over then [] else [t'])"
    if t: "at_thread i t s" "t \<noteq> Over" for i t t'
  proof -
    obtain us vs where "active s = us @ t # vs"
      "filter (\<lambda>t. t \<noteq> Over) ((h_threads s)[i := t']) = us @ (if t' = Over then [] else [t']) @ vs"
      using active_update [OF t] by blast
    then show ?thesis using follows_single assms(3) by fastforce
  qed
  from assms(1) show ?thesis
  proof (cases rule: ch_step.cases)
    case (Call req w ticks)
    then have "active s = []" by (auto simp: active_def list_all_iff filter_empty_conv)
    then show ?thesis using assms(3) Call by (simp add: active_def)
  next
    case (Finish i l)
    then show ?thesis using assms(3) one [OF Finish(2), of Over] lock_inv_Finish [OF assms(2) Finish(2)]
      by (auto simp: active_def stored_effect)
  next
    case (Pass i l)
    then show ?thesis using assms(3) one [OF Pass(2), of Over] unchanged_stored [of l "h_running s"]
      by (auto simp: active_def stored_effect)
  next
    case (Look i l)
    then show ?thesis using assms(3) one [OF Look(2), of Over] unchanged_stored [of l "h_running s"]
      by (auto simp: active_def stored_effect)
  next
    case (Clash i l)
    then show ?thesis using lock_inv_not_busy [OF assms(2)] by blast
  next
    case (Answer i w ticks req resp)
    then show ?thesis using assms(3) one [OF Answer(2), of Over] by (auto simp: active_def)
  next
    case (Ran i w ticks req l)
    then show ?thesis using assms(3) one [OF Ran(2), of "Waits l"] by (auto simp: active_def)
  next
    case (Lock i l)
    then show ?thesis using assms(3) one [OF Lock(2), of "Holds l"] by (auto simp: active_def)
  next
    case (Begin i l)
    then show ?thesis using assms(3) one [OF Begin(2), of "Stores l"] by (auto simp: active_def)
  qed (use calm in fastforce)+
qed

text \<open>
  C14: requests one at a time keep the table right: where each request is answered before the next one
  arrives and none installs a Java agent, the table holds exactly the experiments that the tool's answers, in
  their order, leave running.
\<close>

theorem sequential_table_is_tools:
  assumes "(ch_step admits polls False)\<^sup>*\<^sup>* NewChaosbladeHandler s" "\<forall>req. admits req \<longrightarrow> \<not> java_install req"
    and "list_all (\<lambda>t. t = Over) (h_threads s)"
  shows "map_of (h_running s) = tool_table (h_tool s)"
proof -
  have "follows (active s) (h_tool s) (map_of (h_running s))"
    using assms(1)
  proof (induction rule: rtranclp_induct)
    case (step s s')
    then show ?case using follows_step lock_inv_reachable [OF step.hyps(1)] assms(2) by blast
  qed (simp add: NewChaosbladeHandler_def active_def tool_table_def)
  moreover have "active s = []" using assms(3) by (auto simp: active_def list_all_iff filter_empty_conv)
  ultimately show ?thesis by simp
qed

section \<open>Requests at the same time\<close>

text \<open>
  The commands whose requests have not yet left the locked section, and an order \<open>ls\<close> in which the other commands
  that the tool has answered have taken effect, each once, so that the table is the one of that order.
\<close>

fun pending_of :: "thread \<Rightarrow> locked list" where
  "pending_of (Waits l) = [l]" | "pending_of (Holds l) = [l]" | "pending_of (Stores l) = [l]" | "pending_of t = []"

definition pending :: "handler \<Rightarrow> locked list" where
  "pending s = concat (map pending_of (h_threads s))"

definition linearises :: "handler \<Rightarrow> locked list \<Rightarrow> bool" where
  "linearises s ls \<longleftrightarrow> mset ls + mset (pending s) = mset (h_tool s) \<and> map_of (h_running s) = tool_table ls"

lemma pending_update:
  assumes "at_thread i t s"
  shows "mset (concat (map pending_of ((h_threads s)[i := t']))) + mset (pending_of t) = mset (pending s) + mset (pending_of t')"
proof -
  have i: "i < length (h_threads s)" "h_threads s ! i = t" using assms by (auto simp: at_thread_def)
  have "pending s = concat (map pending_of (take i (h_threads s))) @ pending_of t @ concat (map pending_of (drop (Suc i) (h_threads s)))"
    unfolding pending_def using i by (subst id_take_nth_drop [OF i(1)]) simp
  then show ?thesis by (simp add: upd_conv_take_nth_drop [OF i(1)])
qed

text \<open>A goroutine moves on with its command, or leaves the locked section with the effect of the command.\<close>

lemma linearises_move:
  assumes "linearises s ls" "at_thread i t s" "h_threads s' = (h_threads s)[i := t']" "mset (pending_of t) = mset (pending_of t')"
    "h_tool s' = h_tool s" "h_running s' = h_running s"
  shows "linearises s' ls"
  using assms pending_update [OF assms(2), of t'] by (simp add: linearises_def pending_def)

lemma linearises_effect:
  assumes "linearises s ls" "at_thread i t s" "pending_of t = [l]" "h_threads s' = (h_threads s)[i := Over]"
    "h_tool s' = h_tool s" "map_of (h_running s') = map_of (stored l (h_running s))"
  shows "linearises s' (ls @ [l])"
proof -
  have "mset (pending s') + {#l#} = mset (pending s)"
    using pending_update [OF assms(2), of Over] assms(3,4) by (simp add: pending_def)
  moreover have "mset (ls @ [l]) + mset (pending s') = mset ls + (mset (pending s') + {#l#})" by simp
  ultimately have "mset (ls @ [l]) + mset (pending s') = mset (h_tool s')" using assms(1,5) unfolding linearises_def by simp
  then show ?thesis using assms(1,6) by (simp add: linearises_def stored_effect)
qed

lemma linearises_step:
  assumes "ch_step admits polls overlap s s'" "lock_inv s" "linearises s ls"
  shows "\<exists>ms. linearises s' (ls @ ms)"
proof -
  have same: "\<exists>ms. linearises s' (ls @ ms)" if "linearises s' ls" using that by (metis append_Nil2)
  have calm: "calm t" if "at_thread i t s" for i t using assms(2) at_thread_in [OF that] by (simp add: lock_inv_def)
  from assms(1) show ?thesis
  proof (cases rule: ch_step.cases)
    case (Call req w ticks)
    then show ?thesis using assms(3) by (intro same) (simp add: linearises_def pending_def)
  next
    case (Answer i w ticks req resp)
    then show ?thesis by (intro same linearises_move [OF assms(3) Answer(2), of _ Over]) simp_all
  next
    case (Ran i w ticks req l)
    then have "mset (pending s') = mset (pending s) + {#l#}" using pending_update [OF Ran(2), of "Waits l"] by (simp add: pending_def)
    then show ?thesis using assms(3) Ran by (intro same) (simp add: linearises_def)
  next
    case (Lock i l)
    then show ?thesis by (intro same linearises_move [OF assms(3) Lock(2), of _ "Holds l"]) simp_all
  next
    case (Begin i l)
    then show ?thesis by (intro same linearises_move [OF assms(3) Begin(2), of _ "Stores l"]) simp_all
  next
    case (Pass i l)
    then show ?thesis using unchanged_stored [of l "h_running s"] by (intro exI [of _ "[l]"] linearises_effect [OF assms(3) Pass(2)]) simp_all
  next
    case (Look i l)
    then show ?thesis using unchanged_stored [of l "h_running s"] by (intro exI [of _ "[l]"] linearises_effect [OF assms(3) Look(2)]) simp_all
  next
    case (Finish i l)
    then show ?thesis using lock_inv_Finish [OF assms(2) Finish(2)] by (intro exI [of _ "[l]"] linearises_effect [OF assms(3) Finish(2)]) simp_all
  next
    case (Clash i l)
    then show ?thesis using lock_inv_not_busy [OF assms(2)] by blast
  qed (use calm in fastforce)+
qed

lemma linearises_run:
  assumes "(ch_step admits polls overlap)\<^sup>*\<^sup>* s s'" "lock_inv s" "\<And>req. admits req \<Longrightarrow> \<not> java_install req" "linearises s ls"
  shows "lock_inv s' \<and> (\<exists>ms. linearises s' (ls @ ms))"
  using assms(1)
proof (induction rule: rtranclp_induct)
  case base
  then show ?case using assms(2,4) by (metis append_Nil2)
next
  case (step t u)
  then show ?case using lock_inv_step [OF step.hyps(2) _ assms(3)] linearises_step [OF step.hyps(2)] by (metis append.assoc)
qed

text \<open>Only the commands of requests that have arrived are answered.\<close>

definition answered :: "(Request \<Rightarrow> bool) \<Rightarrow> locked \<Rightarrow> bool" where
  "answered admits l \<longleftrightarrow> (\<exists>w ticks req. admits req \<and> handle_head w ticks req = Ret (Inr l))"

fun arrived :: "(Request \<Rightarrow> bool) \<Rightarrow> thread \<Rightarrow> bool" where
  "arrived admits (Called w ticks req) \<longleftrightarrow> admits req" | "arrived admits t \<longleftrightarrow> True"

lemma spawned_arrived: "t \<in> set (spawned l rn) \<Longrightarrow> arrived admits t"
  by (auto simp: spawned_def split: option.splits job.splits)

lemma answered_step:
  assumes "ch_step admits polls overlap s s'" "\<forall>t \<in> set (h_threads s). arrived admits t" "\<forall>l \<in> set (h_tool s). answered admits l"
  shows "(\<forall>t \<in> set (h_threads s'). arrived admits t) \<and> (\<forall>l \<in> set (h_tool s'). answered admits l)"
  using assms
proof (induction rule: ch_step.induct)
  case (Ran i w ticks req s l)
  then have "arrived admits (Called w ticks req)" using at_thread_in by blast
  then have "answered admits l" using Ran.hyps(2) by (auto simp: answered_def)
  then show ?case using Ran.prems by (auto dest!: in_update)
qed (auto dest!: in_update simp: spawned_arrived)

lemma answered_reachable:
  "(ch_step admits polls overlap)\<^sup>*\<^sup>* NewChaosbladeHandler s \<Longrightarrow>
     (\<forall>t \<in> set (h_threads s). arrived admits t) \<and> (\<forall>l \<in> set (h_tool s). answered admits l)"
  by (induction rule: rtranclp_induct) (auto simp: NewChaosbladeHandler_def dest: answered_step)


section \<open>Runs\<close>

text \<open>A request up to the lock, and from there to its end.\<close>

lemma two_steps: "ch_step admits polls overlap s t \<Longrightarrow> ch_step admits polls overlap t u \<Longrightarrow> (ch_step admits polls overlap)\<^sup>*\<^sup>* s u"
  by (meson converse_rtranclp_into_rtranclp r_into_rtranclp)

lemma request_runs:
  assumes "\<not> h_crashed s" "admits req" "overlap \<or> list_all (\<lambda>t. t = Over) (h_threads s)" "handle_head w ticks req = Ret (Inr l)"
  shows "(ch_step admits polls overlap)\<^sup>*\<^sup>* s (s\<lparr>h_tool := h_tool s @ [l], h_threads := h_threads s @ [Waits l]\<rparr>)"
proof -
  let ?s = "s\<lparr>h_threads := h_threads s @ [Called w ticks req]\<rparr>"
  have c: "ch_step admits polls overlap s ?s" by (rule ch_step.Call) (use assms in simp_all)
  have "at_thread (length (h_threads s)) (Called w ticks req) ?s" using assms(1) by (simp add: at_thread_def)
  from two_steps [OF c ch_step.Ran [OF this assms(4)]] show ?thesis by (simp add: goes_to_def)
qed

lemma lock_taken:
  assumes "at_thread i (Waits l) s" "h_lock s = None" "\<not> busy s"
  defines "t \<equiv> goes_to i (Holds l) (s\<lparr>h_lock := Some i\<rparr>)"
  shows "ch_step admits polls overlap s t" "at_thread i (Holds l) t" "\<not> busy t"
proof -
  show "ch_step admits polls overlap s t" unfolding t_def using assms(1,2) by (rule ch_step.Lock)
  show "at_thread i (Holds l) t" "\<not> busy t"
    using assms(1,3) by (auto simp: t_def at_thread_def busy_def list_ex_iff dest!: in_update)
qed

lemma request_stores:
  assumes "at_thread i (Waits l) s" "h_lock s = None" "\<not> busy s" "access l (h_running s) = Changed"
  shows "(ch_step admits polls overlap)\<^sup>*\<^sup>* s (s\<lparr>h_lock := Some i, h_threads := (h_threads s)[i := Stores l]\<rparr>)"
  using two_steps [OF lock_taken(1) [OF assms(1-3)] ch_step.Begin [OF lock_taken(2) [OF assms(1-3)] _ lock_taken(3) [OF assms(1-3)]]] assms(4)
  by (simp add: goes_to_def)

lemma request_ends:
  assumes "at_thread i (Waits l) s" "h_lock s = None" "\<not> busy s" "access l (h_running s) = Changed"
  shows "(ch_step admits polls overlap)\<^sup>*\<^sup>* s
    (s\<lparr>h_running := stored l (h_running s), h_lock := None, h_threads := (h_threads s)[i := Over] @ spawned l (h_running s)\<rparr>)"
proof -
  let ?s = "s\<lparr>h_lock := Some i, h_threads := (h_threads s)[i := Stores l]\<rparr>"
  have "at_thread i (Stores l) ?s" using assms(1) by (simp add: at_thread_def)
  from rtranclp.rtrancl_into_rtrancl [OF request_stores [OF assms] ch_step.Finish [OF this]] show ?thesis by simp
qed

lemma request_looks:
  assumes "at_thread i (Waits l) s" "h_lock s = None" "\<not> busy s" "access l (h_running s) = Looked"
  shows "(ch_step admits polls overlap)\<^sup>*\<^sup>* s (s\<lparr>h_lock := None, h_threads := (h_threads s)[i := Over]\<rparr>)"
  using two_steps [OF lock_taken(1) [OF assms(1-3)] ch_step.Look [OF lock_taken(2) [OF assms(1-3)] _ lock_taken(3) [OF assms(1-3)]]] assms(4)
  by (simp add: goes_to_def)

text \<open>Sample requests, and what the tool answers to them.\<close>

definition cmd_request :: "string \<Rightarrow> Request" where
  "cmd_request cmd = \<lparr>Headers = None, Params = Some [(''cmd'', cmd)]\<rparr>"

definition ran_with :: "Response \<Rightarrow> string \<Rightarrow> string \<Rightarrow> string \<Rightarrow> locked" where
  "ran_with r cmd command arg =
     \<lparr>l_world = sample_world r, l_cmdline = cmd, l_command = command, l_arg = arg, l_response = r\<rparr>"

lemma handle_head_sample:
  assumes "Fields cmd = command # arg # args" "\<not> isK8sCreateCmd cmd command" "response_ok r" "Success r"
  shows "handle_head (sample_world r) ticks (cmd_request cmd) = Ret (Inr (ran_with r cmd command arg))"
proof -
  have "cmd \<noteq> []" using assms(1) by (auto simp: Fields_def)
  moreover have "IsExist (wfs (sample_world r)) BladeBinPath" by (simp add: sample_world_def IsExist_def)
  ultimately show ?thesis using assms parseResult_plain [OF assms(3)]
    by (simp add: handle_head_def cmd_request_def gget_def exec_head_def blade_sample Let_def wait_if_k8s_def ran_with_def)
qed

lemma sample_commands:
  "Fields ''prepare jvm p'' = [''prepare'', ''jvm'', ''p'']" "Fields ''destroy e7'' = [''destroy'', ''e7'']"
  by code_simp+

lemma sample_heads:
  "handle_head (sample_world created) ticks (cmd_request ''create cpu load'') = Ret (Inr (ran_with created ''create cpu load'' ''create'' ''cpu''))"
  "handle_head (sample_world created) ticks (cmd_request ''prepare jvm p'') = Ret (Inr (ran_with created ''prepare jvm p'' ''prepare'' ''jvm''))"
  "handle_head (sample_world ReturnSuccess) ticks (cmd_request ''destroy e7'') = Ret (Inr (ran_with ReturnSuccess ''destroy e7'' ''destroy'' ''e7''))"
proof -
  have k: "\<not> isK8sCreateCmd ''create cpu load'' ''create''" "\<not> isK8sCreateCmd ''prepare jvm p'' ''prepare''" "\<not> isK8sCreateCmd ''destroy e7'' ''destroy''"
    by (simp_all add: isK8sCreateCmd_def sample_fields sample_commands operation_defs EqualFold_def ascii_lower_def)
  have c: "Success created" by (simp add: created_def ReturnSuccessWithResult_def)
  have "valid_utf8 ''success''" by (auto intro!: valid_utf8_ascii)
  then have r: "response_ok ReturnSuccess" "Success ReturnSuccess" by (simp_all add: response_ok_def ReturnSuccess_def OK_def max_depth_def)
  show "handle_head (sample_world created) ticks (cmd_request ''create cpu load'') = Ret (Inr (ran_with created ''create cpu load'' ''create'' ''cpu''))"
    by (rule handle_head_sample [OF sample_fields(1) k(1) created_ok c])
  show "handle_head (sample_world created) ticks (cmd_request ''prepare jvm p'') = Ret (Inr (ran_with created ''prepare jvm p'' ''prepare'' ''jvm''))"
    by (rule handle_head_sample [OF sample_commands(1) k(2) created_ok c])
  show "handle_head (sample_world ReturnSuccess) ticks (cmd_request ''destroy e7'') = Ret (Inr (ran_with ReturnSuccess ''destroy e7'' ''destroy'' ''e7''))"
    by (rule handle_head_sample [OF sample_commands(2) k(3) r])
qed

lemma sample_sections:
  "access (ran_with created ''create cpu load'' ''create'' ''cpu'') rn = Changed"
  "stored (ran_with created ''create cpu load'' ''create'' ''cpu'') [] = [(''e7'', ''create cpu load'')]"
  "spawned (ran_with created ''create cpu load'' ''create'' ''cpu'') rn = []"
  "access (ran_with created ''prepare jvm p'' ''prepare'' ''jvm'') rn = Changed"
  "stored (ran_with created ''prepare jvm p'' ''prepare'' ''jvm'') [] = [(''e7'', ''prepare jvm p'')]"
  "spawned (ran_with created ''prepare jvm p'' ''prepare'' ''jvm'') rn = [Checks ''e7'']"
  "access (ran_with ReturnSuccess ''destroy e7'' ''destroy'' ''e7'') [] = Looked"
  by (simp_all add: access_def stored_def locked_table_def spawned_def ran_with_def created_def ReturnSuccessWithResult_def
      isCreateOrPrepareCmd_def isDestroyOrRevokeCmd_def operation_defs handleCacheAndSafePoint_def isJavaAgentInstall_def JavaType_def
      isAsyncCreate_def sample_fields sample_commands has_async.simps)

section \<open>Where the code falls short\<close>

text \<open>The table and the goroutines of a handler that is not in the locked section.\<close>

definition state_of :: "running \<Rightarrow> thread list \<Rightarrow> locked list \<Rightarrow> handler" where
  "state_of rn ts ls = \<lparr>h_running = rn, h_lock = None, h_threads = ts, h_tool = ls, h_crashed = False\<rparr>"

lemmas state_defs = state_of_def at_thread_def busy_def NewChaosbladeHandler_def

lemma state_runs:
  "admits req \<Longrightarrow> overlap \<or> list_all (\<lambda>t. t = Over) ts \<Longrightarrow> handle_head w ticks req = Ret (Inr l) \<Longrightarrow>
     (ch_step admits polls overlap)\<^sup>*\<^sup>* (state_of rn ts ls) (state_of rn (ts @ [Waits l]) (ls @ [l]))"
  using request_runs [of "state_of rn ts ls" admits req overlap w ticks l polls] by (simp add: state_of_def)

lemma state_ends:
  "i < length ts \<Longrightarrow> ts ! i = Waits l \<Longrightarrow> \<not> list_ex writing ts \<Longrightarrow> access l rn = Changed \<Longrightarrow>
     (ch_step admits polls overlap)\<^sup>*\<^sup>* (state_of rn ts ls) (state_of (stored l rn) (ts[i := Over] @ spawned l rn) ls)"
  using request_ends [of i l "state_of rn ts ls" admits polls overlap] by (simp add: state_defs)

lemma state_looks:
  "i < length ts \<Longrightarrow> ts ! i = Waits l \<Longrightarrow> \<not> list_ex writing ts \<Longrightarrow> access l rn = Looked \<Longrightarrow>
     (ch_step admits polls overlap)\<^sup>*\<^sup>* (state_of rn ts ls) (state_of rn (ts[i := Over]) ls)"
  using request_looks [of i l "state_of rn ts ls" admits polls overlap] by (simp add: state_defs)

lemma sample_run:
  assumes "admits (cmd_request ''create cpu load'')"
  shows "(ch_step admits polls overlap)\<^sup>*\<^sup>* NewChaosbladeHandler
    (state_of [(''e7'', ''create cpu load'')] [Over] [ran_with created ''create cpu load'' ''create'' ''cpu''])"
proof -
  let ?c = "ran_with created ''create cpu load'' ''create'' ''cpu''"
  have "(ch_step admits polls overlap)\<^sup>*\<^sup>* NewChaosbladeHandler (state_of [] [Waits ?c] [?c])"
    using state_runs [of admits "cmd_request ''create cpu load''" overlap "[]" "sample_world created" "[]" ?c polls "[]" "[]"] sample_heads(1) assms
    by (simp add: NewChaosbladeHandler_def state_of_def)
  moreover have "(ch_step admits polls overlap)\<^sup>*\<^sup>* (state_of [] [Waits ?c] [?c]) (state_of [(''e7'', ''create cpu load'')] [Over] [?c])"
    using state_ends [of 0 "[Waits ?c]" ?c "[]"] by (simp add: sample_sections)
  ultimately show ?thesis by (rule rtranclp_trans)
qed

lemma sample_not_java: "\<not> java_install (cmd_request ''create cpu load'')"
  by (simp add: java_install_def cmd_request_def gget_def sample_fields isJavaAgentInstall_def operation_defs)


theorem requests_exclude_each_other_witness:
  "\<exists>s. (ch_step (\<lambda>req. req = cmd_request ''create cpu load'') (\<lambda>ticks. True) True)\<^sup>*\<^sup>* NewChaosbladeHandler s
    \<and> h_running s = [(''e7'', ''create cpu load'')] \<and> \<not> h_crashed s"
  using requests_exclude_each_other [OF sample_run [of "\<lambda>req. req = cmd_request ''create cpu load''" "\<lambda>ticks. True" True]] sample_not_java
    sample_run [of "\<lambda>req. req = cmd_request ''create cpu load''" "\<lambda>ticks. True" True]
  by (intro exI [of _ "state_of [(''e7'', ''create cpu load'')] [Over] [ran_with created ''create cpu load'' ''create'' ''cpu'']"])
    (simp add: state_of_def)

theorem sequential_table_is_tools_witness:
  "tool_table [ran_with created ''create cpu load'' ''create'' ''cpu''] = [''e7'' \<mapsto> ''create cpu load'']"
  using sequential_table_is_tools [OF sample_run [of "\<lambda>req. req = cmd_request ''create cpu load''" "\<lambda>ticks. True" False]] sample_not_java
  by (simp add: state_of_def)

text \<open>What the status goroutine of a Java agent is told when the installation has failed.\<close>

definition error_ticks :: "tick list" where
  "error_ticks = [Tick (sample_world (status_reply (JStr ''boom'')))]"

lemma timing_error_ticks: "timingCheckStatus uid error_ticks = Ret (''Error'', ''boom'')"
  by (simp add: timingCheckStatus_def error_ticks_def query_sample EqualFold_def ascii_lower_def)

text \<open>
  C38: the callback of a Java agent's status goroutine changes the table without the lock. Where the tool answers
  every status query with a failed installation, so that no status goroutine panics, a request can be in its change
  of the table with the lock held while a status goroutine reaches its callback, and that step ends the process.
\<close>

theorem callback_race_crashes:
  "(\<forall>uid. timingCheckStatus uid error_ticks = Ret (''Error'', ''boom''))
   \<and> (\<exists>s s' i j uid l. (ch_step (\<lambda>req. True) (\<lambda>ticks. ticks = error_ticks) True)\<^sup>*\<^sup>* NewChaosbladeHandler s
      \<and> h_lock s = Some i \<and> at_thread i (Stores l) s \<and> at_thread j (Checks uid) s
      \<and> ch_step (\<lambda>req. True) (\<lambda>ticks. ticks = error_ticks) True s s' \<and> h_crashed s')"
proof -
  let ?p = "ran_with created ''prepare jvm p'' ''prepare'' ''jvm''" and ?c = "ran_with created ''create cpu load'' ''create'' ''cpu''"
  let ?rn = "[(''e7'', ''prepare jvm p'')]"
  let ?polls = "\<lambda>ticks. ticks = error_ticks"
  let ?step = "ch_step (\<lambda>req. True) ?polls True"
  have 1: "?step\<^sup>*\<^sup>* NewChaosbladeHandler (state_of [] [Waits ?p] [?p])"
    using state_runs [of "\<lambda>req. True" "cmd_request ''prepare jvm p''" True "[]" "sample_world created" "[]" ?p ?polls "[]" "[]"] sample_heads(2)
    by (simp add: NewChaosbladeHandler_def state_of_def)
  have 2: "?step\<^sup>*\<^sup>* (state_of [] [Waits ?p] [?p]) (state_of ?rn [Over, Checks ''e7''] [?p])"
    using state_ends [of 0 "[Waits ?p]" ?p "[]"] by (simp add: sample_sections)
  have 3: "?step\<^sup>*\<^sup>* (state_of ?rn [Over, Checks ''e7''] [?p]) (state_of ?rn [Over, Checks ''e7'', Waits ?c] [?p, ?c])" (is "?step\<^sup>*\<^sup>* _ ?s3")
    using state_runs [of "\<lambda>req. True" "cmd_request ''create cpu load''" True "[Over, Checks ''e7'']" "sample_world created" "[]" ?c ?polls ?rn "[?p]"] sample_heads(1)
    by simp
  have 4: "?step\<^sup>*\<^sup>* ?s3 (?s3\<lparr>h_lock := Some 2, h_threads := [Over, Checks ''e7'', Stores ?c]\<rparr>)" (is "?step\<^sup>*\<^sup>* _ ?s4")
    using request_stores [of 2 ?c ?s3 "\<lambda>req. True" ?polls True] by (simp add: state_defs sample_sections)
  have at: "at_thread 1 (Checks ''e7'') ?s4" "busy ?s4" "EqualFold ''Error'' ''Error''" "at_thread 2 (Stores ?c) ?s4" "h_lock ?s4 = Some 2"
    by (simp_all add: state_defs EqualFold_def)
  with ch_step.Status [OF at(1) _ timing_error_ticks, of ?polls "\<lambda>req. True" True] have 5: "?step ?s4 (?s4\<lparr>h_crashed := True\<rparr>)" by simp
  have "?step\<^sup>*\<^sup>* NewChaosbladeHandler ?s4" using 1 2 3 4 by (meson rtranclp_trans)
  with 5 at show ?thesis using timing_error_ticks by (intro conjI allI exI [of _ ?s4] exI [of _ "?s4\<lparr>h_crashed := True\<rparr>"] exI) (assumption | simp)+
qed

text \<open>
  C39: requests that overlap can leave a stopped experiment in the table: a destroy that the tool has carried out
  and that gets the lock before the create it belongs to finds no entry, and the create enters it afterwards.
\<close>

theorem overlapping_destroy_leaves_entry:
  "\<exists>s. (ch_step (\<lambda>req. True) (\<lambda>ticks. False) True)\<^sup>*\<^sup>* NewChaosbladeHandler s \<and> list_all (\<lambda>t. t = Over) (h_threads s)
    \<and> map_of (h_running s) ''e7'' = Some ''create cpu load'' \<and> tool_table (h_tool s) ''e7'' = None"
proof -
  let ?c = "ran_with created ''create cpu load'' ''create'' ''cpu''" and ?d = "ran_with ReturnSuccess ''destroy e7'' ''destroy'' ''e7''"
  let ?step = "ch_step (\<lambda>req. True) (\<lambda>ticks. False) True"
  have 1: "?step\<^sup>*\<^sup>* NewChaosbladeHandler (state_of [] [Waits ?c] [?c])"
    using state_runs [of "\<lambda>req. True" "cmd_request ''create cpu load''" True "[]" "sample_world created" "[]" ?c "\<lambda>ticks. False" "[]" "[]"] sample_heads(1)
    by (simp add: NewChaosbladeHandler_def state_of_def)
  have 2: "?step\<^sup>*\<^sup>* (state_of [] [Waits ?c] [?c]) (state_of [] [Waits ?c, Waits ?d] [?c, ?d])"
    using state_runs [of "\<lambda>req. True" "cmd_request ''destroy e7''" True "[Waits ?c]" "sample_world ReturnSuccess" "[]" ?d "\<lambda>ticks. False" "[]" "[?c]"] sample_heads(3)
    by simp
  have 3: "?step\<^sup>*\<^sup>* (state_of [] [Waits ?c, Waits ?d] [?c, ?d]) (state_of [] [Waits ?c, Over] [?c, ?d])"
    using state_looks [of 1 "[Waits ?c, Waits ?d]" ?d "[]"] by (simp add: sample_sections)
  have 4: "?step\<^sup>*\<^sup>* (state_of [] [Waits ?c, Over] [?c, ?d]) (state_of [(''e7'', ''create cpu load'')] [Over, Over] [?c, ?d])" (is "?step\<^sup>*\<^sup>* _ ?s")
    using state_ends [of 0 "[Waits ?c, Over]" ?c "[]"] by (simp add: sample_sections)
  have "tool_table [?c, ?d] ''e7'' = None"
    by (simp add: tool_table_def running_effect_def ran_with_def isCreateOrPrepareCmd_def isDestroyOrRevokeCmd_def operation_defs)
  moreover have "?step\<^sup>*\<^sup>* NewChaosbladeHandler ?s" using 1 2 3 4 by (meson rtranclp_trans)
  ultimately show ?thesis by (intro exI [of _ ?s]) (simp add: state_of_def)
qed

end
