(* ===== verification/Agent_Helm.thy ===== *)
theory Agent_Helm
  imports Agent_Transport
begin

text \<open>
  Chart references of the registry (\<open>pkg/helm3/registry/reference.go\<close>) and two helpers of
  \<open>registry/util.go\<close> and \<open>helm.go\<close>. A reference is read by splitting at colons, where a number after
  the first colon is a port; the repository must be a parsable address, so the error cases of
  \<open>url.Parse\<close> on \<open>//repo\<close> are written out.
\<close>

section \<open>Parsing of an address\<close>

text \<open>
  \<open>url.unescape\<close> as a check: whether it fails. In a host only non-ASCII bytes and the percent sign may
  be escaped and only host bytes may stand for themselves; in a zone escapes of host bytes and of a
  space are allowed too.
\<close>

datatype url_part = UrlHost | UrlZone | UrlOther

definition is_hex :: "char \<Rightarrow> bool" where
  "is_hex c \<longleftrightarrow> is_digit c \<or> 97 \<le> byte c \<and> byte c \<le> 102 \<or> 65 \<le> byte c \<and> byte c \<le> 70"

definition unhex :: "char \<Rightarrow> nat" where
  "unhex c = (if is_digit c then byte c - 48 else if 97 \<le> byte c then byte c - 87 else byte c - 55)"

fun unescape_fails :: "url_part \<Rightarrow> string \<Rightarrow> bool" where
  "unescape_fails part [] = False"
| "unescape_fails part (c # cs) =
     (if c = CHR ''%'' then
        (case cs of
           h # l # rest \<Rightarrow>
             \<not> is_hex h \<or> \<not> is_hex l
             \<or> (part = UrlHost \<and> unhex h < 8 \<and> \<not> (h = CHR ''2'' \<and> l = CHR ''5''))
             \<or> (part = UrlZone \<and> \<not> (h = CHR ''2'' \<and> l = CHR ''5'') \<and> unhex h * 16 + unhex l \<noteq> 32
                  \<and> \<not> host_byte (char_of (unhex h * 16 + unhex l)))
             \<or> unescape_fails part rest
         | _ \<Rightarrow> True)
      else (part \<noteq> UrlOther \<and> byte c < 128 \<and> \<not> host_byte c) \<or> unescape_fails part cs)"

definition validOptionalPort :: "string \<Rightarrow> bool" where
  "validOptionalPort p \<longleftrightarrow> p = [] \<or> hd p = CHR '':'' \<and> list_all is_digit (tl p)"

text \<open>The text up to and from the last occurrence of a byte.\<close>

definition last_split :: "char \<Rightarrow> string \<Rightarrow> (string \<times> string) option" where
  "last_split c s =
     (if c \<notin> set s then None
      else Some (rev (tl (dropWhile (\<lambda>x. x \<noteq> c) (rev s))), rev (takeWhile (\<lambda>x. x \<noteq> c) (rev s))))"

fun find_zone :: "string \<Rightarrow> (string \<times> string) option" where
  "find_zone [] = None"
| "find_zone (c # cs) =
     (if take 3 (c # cs) = ''%25'' then Some ([], c # cs)
      else map_option (\<lambda>(a, b). (c # a, b)) (find_zone cs))"

definition parseHost_fails :: "string \<Rightarrow> bool" where
  "parseHost_fails host =
     (if take 1 host = ''['' then
        (case last_split (CHR '']'') host of
           None \<Rightarrow> True
         | Some (before, colonPort) \<Rightarrow>
             \<not> validOptionalPort colonPort
             \<or> (case find_zone before of
                  Some (a, z) \<Rightarrow> unescape_fails UrlHost a \<or> unescape_fails UrlZone z \<or> unescape_fails UrlHost ('']'' @ colonPort)
                | None \<Rightarrow> unescape_fails UrlHost host))
      else
        (case last_split (CHR '':'') host of
           Some (h, port) \<Rightarrow> \<not> validOptionalPort (CHR '':'' # port)
         | None \<Rightarrow> False)
        \<or> unescape_fails UrlHost host)"

definition valid_userinfo :: "string \<Rightarrow> bool" where
  "valid_userinfo s \<longleftrightarrow>
     list_all (\<lambda>c. is_digit c \<or> 97 \<le> byte c \<and> byte c \<le> 122 \<or> 65 \<le> byte c \<and> byte c \<le> 90
        \<or> c \<in> set (''-._:~!$&()*+,;=%@'' @ [CHR 0x27])) s"

definition parseAuthority_fails :: "string \<Rightarrow> bool" where
  "parseAuthority_fails authority =
     (case last_split (CHR ''@'') authority of
        None \<Rightarrow> parseHost_fails authority
      | Some (userinfo, host) \<Rightarrow>
          parseHost_fails host \<or> \<not> valid_userinfo userinfo
          \<or> list_ex (unescape_fails UrlOther) (SplitN2 (CHR '':'') userinfo))"

text \<open>\<open>url.Parse("//" + repo)\<close>: the fragment and the query are cut off, the rest is authority and path.\<close>

definition url_parse_fails :: "string \<Rightarrow> bool" where
  "url_parse_fails repo =
     (let parts = SplitN2 (CHR ''#'') (''//'' @ repo);
          u = hd parts; frag = concat (tl parts);
          rest = hd (SplitN2 (CHR ''?'') u)
      in list_ex (\<lambda>c. byte c < 32 \<or> byte c = 127) u
         \<or> unescape_fails UrlOther frag
         \<or> (if take 3 rest = ''///'' then unescape_fails UrlOther rest
            else (let authority = takeWhile (\<lambda>c. c \<noteq> CHR ''/'') (drop 2 rest);
                      path = dropWhile (\<lambda>c. c \<noteq> CHR ''/'') (drop 2 rest)
                  in parseAuthority_fails authority \<or> unescape_fails UrlOther path)))"

section \<open>References\<close>

datatype ref_error = errEmptyRepo | errTooManyColons | errUrl

record Reference =
  ref_Tag :: string
  Repo :: string

definition FullName :: "Reference \<Rightarrow> string" where
  "FullName ref = (if ref_Tag ref = [] then Repo ref else Repo ref @ '':'' @ ref_Tag ref)"

text \<open>The alternatives of \<open>validPortRegEx\<close>, one by one; \<open>dig a b\<close> is the class \<open>[a-b]\<close>.\<close>

definition dig :: "nat \<Rightarrow> nat \<Rightarrow> char \<Rightarrow> bool" where
  "dig a b c \<longleftrightarrow> is_digit c \<and> a \<le> digit_val c \<and> digit_val c \<le> b"

definition isValidPort :: "string \<Rightarrow> bool" where
  "isValidPort s =
     ((case s of c # cs \<Rightarrow> dig 1 9 c \<and> length cs \<le> 3 \<and> list_all (dig 0 9) cs | [] \<Rightarrow> False)
      \<or> s = ''0''
      \<or> list_all2 (\<lambda>p c. p c) [dig 1 5, dig 0 9, dig 0 9, dig 0 9, dig 0 9] s
      \<or> list_all2 (\<lambda>p c. p c) [dig 6 6, dig 0 4, dig 0 9, dig 0 9, dig 0 9] s
      \<or> list_all2 (\<lambda>p c. p c) [dig 6 6, dig 5 5, dig 0 4, dig 0 9, dig 0 9] s
      \<or> list_all2 (\<lambda>p c. p c) [dig 6 6, dig 5 5, dig 5 5, dig 0 2, dig 0 9] s
      \<or> list_all2 (\<lambda>p c. p c) [dig 6 6, dig 5 5, dig 5 5, dig 3 3, dig 0 5] s)"

definition fixSplitComponents :: "string list \<Rightarrow> string list" where
  "fixSplitComponents c =
     (case c of
        c0 # c1 # rest \<Rightarrow>
          if snd (ParseInt (hd (Split (CHR ''/'') c1))) = None then (c0 @ '':'' @ c1) # rest else c
      | _ \<Rightarrow> c)"

definition validateRepo :: "Reference \<Rightarrow> ref_error option" where
  "validateRepo ref =
     (if Repo ref = [] then Some errEmptyRepo else if url_parse_fails (Repo ref) then Some errUrl else None)"

definition validateNumColons :: "Reference \<Rightarrow> ref_error option" where
  "validateNumColons ref =
     (if CHR '':'' \<in> set (ref_Tag ref) then Some errTooManyColons
      else (let parts = Split (CHR '':'') (Repo ref); lastIndex = length parts - 1 in
            if 1 < lastIndex then Some errTooManyColons
            else if 0 < lastIndex \<and> \<not> isValidPort (hd (Split (CHR ''/'') (parts ! lastIndex)))
            then Some errTooManyColons
            else None))"

definition validate :: "Reference \<Rightarrow> ref_error option" where
  "validate ref = (case validateRepo ref of Some err \<Rightarrow> Some err | None \<Rightarrow> validateNumColons ref)"

definition ParseReference :: "string \<Rightarrow> ref_error + Reference" where
  "ParseReference s =
     (if s = [] then Inl errEmptyRepo
      else
        (let ref = (case fixSplitComponents (Split (CHR '':'') s) of
                      [r] \<Rightarrow> Some \<lparr>ref_Tag = [], Repo = r\<rparr>
                    | [r, t] \<Rightarrow> Some \<lparr>ref_Tag = t, Repo = r\<rparr>
                    | [r, p, t] \<Rightarrow> Some \<lparr>ref_Tag = t, Repo = r @ '':'' @ p\<rparr>
                    | _ \<Rightarrow> None)
         in case ref of
              None \<Rightarrow> Inl errTooManyColons
            | Some ref \<Rightarrow> (case validate ref of Some err \<Rightarrow> Inl err | None \<Rightarrow> Inr ref)))"

section \<open>Helpers\<close>

text \<open>
  \<open>byteCountBinary\<close>. The divisor is an \<open>int64\<close>; the byte count becomes a \<open>float64\<close> (53 significant bits,
  ties to even), the division by a power of two is exact, and \<open>%.1f\<close> rounds the exact quotient to
  tenths, ties to even. The unit is an index into \<open>"KMGTPE"\<close>, out of range a panic.
\<close>

definition int64 :: "int \<Rightarrow> int" where
  "int64 n = (n + 2 ^ 63) mod 2 ^ 64 - 2 ^ 63"

function byteCount_loop :: "int \<Rightarrow> int \<Rightarrow> nat \<Rightarrow> int \<times> nat" where
  "byteCount_loop n dv ex =
     (if 1024 \<le> n then byteCount_loop (go_quot n 1024) (int64 (dv * 1024)) (Suc ex) else (dv, ex))"
  by pat_completeness auto
termination
  by (relation "measure (\<lambda>(n, dv, ex). nat n)") (auto simp: go_quot_def)

declare byteCount_loop.simps [simp del]

definition round_even :: "int \<Rightarrow> int \<Rightarrow> int" where
  "round_even p q =
     (let n = p div q; r = p mod q in if 2 * r < q \<or> 2 * r = q \<and> even n then n else n + 1)"

function float64_of :: "int \<Rightarrow> int \<Rightarrow> int" where
  "float64_of b ulp = (if 0 < ulp \<and> 2 ^ 53 * ulp \<le> b then float64_of b (2 * ulp) else round_even b ulp * ulp)"
  by pat_completeness auto
termination
  by (relation "measure (\<lambda>(b, ulp). nat (b - ulp))") auto

declare float64_of.simps [simp del]

definition tenths :: "int \<Rightarrow> string" where
  "tenths n = Itoa (n div 10) @ ''.'' @ Itoa (n mod 10)"

definition byteCountBinary :: "int \<Rightarrow> string go" where
  "byteCountBinary b =
     (if b < 1024 then Some (Itoa b @ '' B'')
      else
        (let (dv, ex) = byteCount_loop (go_quot b 1024) 1024 0 in
         if ex < length ''KMGTPE''
         then Some (tenths (round_even (10 * float64_of b 1) dv) @ '' '' @ [''KMGTPE'' ! ex] @ ''iB'')
         else None))"

definition shortDigest :: "string \<Rightarrow> string" where
  "shortDigest dg = (if length dg = 64 then take 7 dg else dg)"

text \<open>\<open>isChartInstallable\<close> on the type of the chart.\<close>

definition isChartInstallable :: "string \<Rightarrow> bool \<times> string option" where
  "isChartInstallable ty =
     (if ty = [] \<or> ty = ''application'' then (True, None)
      else (False, Some (ty @ '' charts are not installable'')))"

section \<open>Ports\<close>

definition dec :: "string \<Rightarrow> nat" where
  "dec s = foldl (\<lambda>n c. n * 10 + digit_val c) 0 s"

lemma dec_snoc: "dec (s @ [c]) = dec s * 10 + digit_val c"
  by (simp add: dec_def)

lemma digit_digit_val: "is_digit c \<Longrightarrow> digit (digit_val c) = c"
proof -
  assume "is_digit c"
  then have "48 + digit_val c = (of_char c :: nat)" by (simp add: is_digit_def digit_val_def)
  then show ?thesis by (simp add: digit_def)
qed

lemma digit_val_less: "is_digit c \<Longrightarrow> digit_val c < 10"
  by (auto simp: is_digit_def digit_val_def)

lemma dec_pos: "s \<noteq> [] \<Longrightarrow> digit_val (hd s) \<noteq> 0 \<Longrightarrow> 0 < dec s"
proof (induction s rule: rev_induct)
  case (snoc c s)
  then show ?case by (cases "s = []") (auto simp: dec_snoc dec_def)
qed simp

lemma nat_str_dec:
  assumes "list_all is_digit s" "s \<noteq> []" "digit_val (hd s) \<noteq> 0 \<or> length s = 1"
  shows "nat_str (dec s) = s"
  using assms
proof (induction s rule: rev_induct)
  case (snoc c s)
  have c: "is_digit c" "digit_val c < 10" using snoc.prems(1) digit_val_less by auto
  show ?case
  proof (cases "s = []")
    case True
    then show ?thesis using c by (subst nat_str.simps) (simp add: dec_def digit_digit_val)
  next
    case False
    then have h: "digit_val (hd s) \<noteq> 0" using snoc.prems(3) by simp
    have "0 < dec s" using False h by (rule dec_pos)
    then have "\<not> dec (s @ [c]) < 10" "dec (s @ [c]) div 10 = dec s" "dec (s @ [c]) mod 10 = digit_val c"
      using c by (auto simp: dec_snoc)
    moreover have "nat_str (dec s) = s" using snoc False h by simp
    ultimately show ?thesis using c by (subst nat_str.simps) (simp add: digit_digit_val)
  qed
qed simp

lemma nat_str_shape: "list_all is_digit (nat_str n) \<and> (0 < n \<longrightarrow> digit_val (hd (nat_str n)) \<noteq> 0) \<and> dec (nat_str n) = n"
proof (induction n rule: nat_str.induct)
  case (1 n)
  show ?case
  proof (cases "n < 10")
    case True
    then show ?thesis by (subst (1 2 3) nat_str.simps) (simp add: digit_props dec_def)
  next
    case False
    have "list_all is_digit (nat_str (n div 10))" "digit_val (hd (nat_str (n div 10))) \<noteq> 0" "dec (nat_str (n div 10)) = n div 10"
      using 1 [OF False] False by auto
    then show ?thesis using False by (subst (1 2 3) nat_str.simps) (simp add: digit_props dec_snoc)
  qed
qed

lemma dec_Cons: "dec (c # s) = digit_val c * 10 ^ length s + dec s"
proof (induction s rule: rev_induct)
  case (snoc x s)
  have "dec ((c # s) @ [x]) = dec (c # s) * 10 + digit_val x" by (rule dec_snoc)
  with snoc show ?case by (simp add: dec_snoc algebra_simps)
qed (simp add: dec_def)

lemma dec_bound: "list_all is_digit s \<Longrightarrow> dec s < 10 ^ length s"
proof (induction s rule: rev_induct)
  case (snoc c s)
  then have "dec s < 10 ^ length s" "digit_val c < 10" using digit_val_less by auto
  then show ?case by (simp add: dec_snoc)
qed (simp add: dec_def)

lemma dig_digit:
  assumes "is_digit y"
  shows "dig 0 9 y" "dig 0 k y \<longleftrightarrow> digit_val y \<le> k" "dig n n y \<longleftrightarrow> digit_val y = n"
    "dig (Suc 0) 5 y \<longleftrightarrow> 1 \<le> digit_val y \<and> digit_val y \<le> 5"
  using assms digit_val_less [OF assms] by (auto simp: dig_def)

lemma port_digits:
  fixes a b c x e :: nat
  assumes "a \<le> 9" "b \<le> 9" "c \<le> 9" "x \<le> 9" "e \<le> 9"
  shows "1 \<le> a \<and> a \<le> 5 \<or> a = 6 \<and> b \<le> 4 \<or> a = 6 \<and> b = 5 \<and> c \<le> 4 \<or> a = 6 \<and> b = 5 \<and> c = 5 \<and> x \<le> 2
      \<or> a = 6 \<and> b = 5 \<and> c = 5 \<and> x = 3 \<and> e \<le> 5
    \<longleftrightarrow> a \<noteq> 0 \<and> a * 10000 + b * 1000 + c * 100 + x * 10 + e \<le> 65535"
  using assms by linarith

text \<open>The regular expression describes the digit strings without leading zero up to 65535.\<close>

lemma isValidPort_dec:
  "isValidPort s \<longleftrightarrow>
     list_all is_digit s \<and> s \<noteq> [] \<and> (digit_val (hd s) \<noteq> 0 \<or> length s = 1) \<and> dec s \<le> 65535"
proof -
  have z: "is_digit (CHR ''0'')" "digit_val (CHR ''0'') = 0" by (simp_all add: is_digit_def digit_val_def)
  have "digit 0 = CHR ''0''" by code_simp
  then have zero: "is_digit c \<Longrightarrow> digit_val c = 0 \<longleftrightarrow> c = CHR ''0''" for c
    using digit_digit_val [of c] z by auto
  have long: "65535 < dec s" if "list_all is_digit s" "digit_val (hd s) \<noteq> 0" "6 \<le> length s"
  proof -
    from that(3) obtain c t where s: "s = c # t" by (cases s) auto
    then have "10 ^ 5 \<le> (10 :: nat) ^ length t" using that(3) by (intro power_increasing) auto
    moreover have "10 ^ length t \<le> digit_val c * 10 ^ length t" using that(2) s by simp
    ultimately have "10 ^ 5 \<le> dec s" unfolding s dec_Cons by (meson le_trans trans_le_add1)
    then show ?thesis by simp
  qed
  have short: "dec s \<le> 65535" if "list_all is_digit s" "length s \<le> 4"
  proof -
    have "(10 :: nat) ^ length s \<le> 10 ^ 4" using that(2) by (intro power_increasing) auto
    with dec_bound [OF that(1)] show ?thesis by simp
  qed
  consider "s = []" | c t where "s = c # t" "length t \<le> 3" | a b c x e where "s = [a, b, c, x, e]" | "6 \<le> length s"
  proof (cases "length s = 5")
    case True
    then show ?thesis using that(3) by (auto simp: numeral_eq_Suc length_Suc_conv)
  next
    case False
    then show ?thesis using that(1,2,4) by (cases s) fastforce+
  qed
  then show ?thesis
  proof cases
    case 1
    then show ?thesis by (simp add: isValidPort_def)
  next
    case 2
    have "list_all (dig 0 9) t \<longleftrightarrow> list_all is_digit t"
      by (intro list.pred_cong) (auto simp: dig_def dest: digit_val_less)
    moreover have "dig 1 9 c \<longleftrightarrow> is_digit c \<and> digit_val c \<noteq> 0" by (auto simp: dig_def dest: digit_val_less)
    moreover have "\<not> list_all2 (\<lambda>p c. p c) [p1, p2, p3, p4, p5] s" for p1 p2 p3 p4 p5
      using 2 by (auto dest!: list_all2_lengthD)
    ultimately have "isValidPort s \<longleftrightarrow> is_digit c \<and> digit_val c \<noteq> 0 \<and> list_all is_digit t \<or> s = ''0''"
      using 2 by (simp add: isValidPort_def)
    then show ?thesis using 2 short zero z by auto
  next
    case 3
    have v: "dec s = digit_val a * 10000 + digit_val b * 1000 + digit_val c * 100 + digit_val x * 10 + digit_val e"
      by (simp add: 3 dec_Cons) (simp add: dec_def)
    have l: "is_digit y \<Longrightarrow> digit_val y \<le> 9" for y using digit_val_less [of y] by simp
    show ?thesis
    proof (cases "list_all is_digit s")
      case True
      then have g: "is_digit a" "is_digit b" "is_digit c" "is_digit x" "is_digit e" by (simp_all add: 3)
      note b = g [THEN l]
      have "isValidPort s \<longleftrightarrow>
          1 \<le> digit_val a \<and> digit_val a \<le> 5 \<or> digit_val a = 6 \<and> digit_val b \<le> 4
          \<or> digit_val a = 6 \<and> digit_val b = 5 \<and> digit_val c \<le> 4
          \<or> digit_val a = 6 \<and> digit_val b = 5 \<and> digit_val c = 5 \<and> digit_val x \<le> 2
          \<or> digit_val a = 6 \<and> digit_val b = 5 \<and> digit_val c = 5 \<and> digit_val x = 3 \<and> digit_val e \<le> 5"
        by (simp add: 3 isValidPort_def dig_digit [OF g(1)] dig_digit [OF g(2)] dig_digit [OF g(3)]
          dig_digit [OF g(4)] dig_digit [OF g(5)] b)
      then have "isValidPort s \<longleftrightarrow>
          digit_val a \<noteq> 0 \<and> digit_val a * 10000 + digit_val b * 1000 + digit_val c * 100 + digit_val x * 10 + digit_val e \<le> 65535"
        using port_digits [OF b] by simp
      then show ?thesis using True v 3 by simp
    next
      case False
      then show ?thesis by (auto simp: 3 isValidPort_def dig_def)
    qed
  next
    case 4
    have "\<not> isValidPort s" using 4 by (auto simp: isValidPort_def dest!: list_all2_lengthD split: list.splits)
    moreover have "\<not> (list_all is_digit s \<and> (digit_val (hd s) \<noteq> 0 \<or> length s = 1) \<and> dec s \<le> 65535)"
      using long 4 by auto
    ultimately show ?thesis by blast
  qed
qed

text \<open>
  the regular expression of \<open>isValidPort\<close> accepts exactly the decimal numerals, without leading zeros
  or signs, of the numbers up to 65535.
\<close>

theorem isValidPort_iff: "isValidPort s \<longleftrightarrow> (\<exists>n \<le> 65535. s = nat_str n)"
proof
  assume "isValidPort s"
  then show "\<exists>n \<le> 65535. s = nat_str n" using nat_str_dec by (auto simp: isValidPort_dec intro!: exI [of _ "dec s"])
next
  assume "\<exists>n \<le> 65535. s = nat_str n"
  then obtain n where n: "n \<le> 65535" "s = nat_str n" by blast
  have "length s = 1" if "n = 0" unfolding n(2) that by (subst nat_str.simps) simp
  with n nat_str_shape [of n] show "isValidPort s" by (auto simp: isValidPort_dec)
qed

section \<open>References: correctness\<close>

definition numeric :: "string \<Rightarrow> bool" where
  "numeric t \<longleftrightarrow> snd (ParseInt (hd (Split (CHR ''/'') t))) = None"

lemma valid_port_numeric:
  assumes "isValidPort (hd (Split (CHR ''/'') t))"
  shows "numeric t"
proof -
  obtain n where n: "n \<le> 65535" "hd (Split (CHR ''/'') t) = nat_str n"
    using assms isValidPort_dec nat_str_dec by metis
  then have "hd (Split (CHR ''/'') t) = Itoa (int n)" by (simp add: Itoa_def)
  with n ParseInt_Itoa [of "int n"] show ?thesis by (simp add: numeric_def)
qed

lemma fix_simps [simp]:
  "fixSplitComponents [] = []" "fixSplitComponents [c0] = [c0]"
  "fixSplitComponents (c0 # c1 # rest) = (if numeric c1 then (c0 @ '':'' @ c1) # rest else c0 # c1 # rest)"
  by (simp_all add: fixSplitComponents_def numeric_def)

lemma Join_fix: "Join '':'' (fixSplitComponents cs) = Join '':'' cs"
  by (cases cs rule: remdups_adj.cases; cases "tl (tl cs)") auto

lemma Join_fix_Split: "fixSplitComponents (Split (CHR '':'') s) = cs \<Longrightarrow> Join '':'' cs = s"
  using Join_fix [of "Split (CHR '':'') s"] Join_Split [of "CHR '':''" s] by simp

lemma validate_None:
  "validate ref = None \<longleftrightarrow>
     Repo ref \<noteq> [] \<and> \<not> url_parse_fails (Repo ref) \<and> CHR '':'' \<notin> set (ref_Tag ref)
     \<and> (case Split (CHR '':'') (Repo ref) of [r] \<Rightarrow> True | [h, p] \<Rightarrow> isValidPort (hd (Split (CHR ''/'') p)) | _ \<Rightarrow> False)"
proof -
  obtain x xs where "Split (CHR '':'') (Repo ref) = x # xs" by (cases "Split (CHR '':'') (Repo ref)") auto
  then show ?thesis
    by (auto simp: validate_def validateRepo_def validateNumColons_def Let_def split: list.splits)
qed

text \<open>A reference whose tag is not mistaken for a port is read back from its full name.\<close>

lemma ParseReference_print:
  assumes v: "validate ref = None" and t: "ref_Tag ref \<noteq> [] \<Longrightarrow> CHR '':'' \<notin> set (Repo ref) \<Longrightarrow> \<not> numeric (ref_Tag ref)"
  shows "ParseReference (FullName ref) = Inr ref"
proof -
  from v have r: "Repo ref \<noteq> []" and tag: "CHR '':'' \<notin> set (ref_Tag ref)" by (simp_all add: validate_None)
  have ne: "FullName ref \<noteq> []" using r by (simp add: FullName_def)
  have sp: "Split (CHR '':'') (FullName ref) = Split (CHR '':'') (Repo ref) @ (if ref_Tag ref = [] then [] else [ref_Tag ref])"
  proof (cases "ref_Tag ref = []")
    case False
    have "Split c (a @ c # b) = Split c a @ Split c b" for c :: char and a b
      by (induction a) (auto split: list.splits)
    then show ?thesis using False tag by (simp add: FullName_def Split_no_sep)
  qed (simp add: FullName_def)
  from v consider x where "Split (CHR '':'') (Repo ref) = [x]"
    | h p where "Split (CHR '':'') (Repo ref) = [h, p]" "isValidPort (hd (Split (CHR ''/'') p))"
    by (auto simp: validate_None split: list.splits)
  then have "fixSplitComponents (Split (CHR '':'') (FullName ref))
      = (if ref_Tag ref = [] then [Repo ref] else [Repo ref, ref_Tag ref])"
  proof cases
    case 1
    with Join_Split [of "CHR '':''" "Repo ref"] have x: "x = Repo ref" by simp
    with 1 Split_length [of "CHR '':''" "Repo ref"] have "CHR '':'' \<notin> set (Repo ref)" by (simp add: count_list_0_iff)
    with t x 1 show ?thesis by (simp add: sp)
  next
    case 2
    with Join_Split [of "CHR '':''" "Repo ref"] have "Repo ref = h @ '':'' @ p" by simp
    with 2 valid_port_numeric [of p] show ?thesis by (simp add: sp)
  qed
  moreover obtain t r where ref: "ref = \<lparr>ref_Tag = t, Repo = r\<rparr>" by (cases ref)
  ultimately have "(case fixSplitComponents (Split (CHR '':'') (FullName ref)) of
      [r] \<Rightarrow> Some \<lparr>ref_Tag = [], Repo = r\<rparr> | [r, t] \<Rightarrow> Some \<lparr>ref_Tag = t, Repo = r\<rparr>
    | [r, p, t] \<Rightarrow> Some \<lparr>ref_Tag = t, Repo = r @ '':'' @ p\<rparr> | _ \<Rightarrow> None) = Some ref" by auto
  then show ?thesis using ne v by (simp add: ParseReference_def)
qed

text \<open>How a reference comes from the text; a tag is not a number unless the repository has a port.\<close>

lemma ParseReference_text:
  assumes "ParseReference s = Inr ref"
  shows "validate ref = None
    \<and> (s = Repo ref \<and> ref_Tag ref = []
       \<or> s = Repo ref @ '':'' @ ref_Tag ref \<and> (CHR '':'' \<notin> set (Repo ref) \<longrightarrow> \<not> numeric (ref_Tag ref)))"
proof -
  let ?c = "fixSplitComponents (Split (CHR '':'') s)"
  have v: "validate ref = None"
    using assms by (auto simp: ParseReference_def Let_def split: if_splits option.splits)
  from assms consider "?c = [Repo ref]" "ref_Tag ref = []" | "?c = [Repo ref, ref_Tag ref]"
    | r p where "?c = [r, p, ref_Tag ref]" "Repo ref = r @ '':'' @ p"
    by (auto simp: ParseReference_def Let_def split: if_splits option.splits list.splits)
  then show ?thesis
  proof cases
    case 1
    with Join_fix_Split [OF 1(1)] v show ?thesis by simp
  next
    case 2
    have "s = Repo ref @ '':'' @ ref_Tag ref" using Join_fix_Split [OF 2] by simp
    moreover have "\<not> numeric (ref_Tag ref)" if "CHR '':'' \<notin> set (Repo ref)"
    proof
      assume n: "numeric (ref_Tag ref)"
      show False
      proof (cases "Split (CHR '':'') s" rule: remdups_adj.cases)
        case (3 x y xs)
        with 2 n have "Repo ref = x @ '':'' @ y" by (auto split: if_splits)
        then have "CHR '':'' \<in> set (Repo ref)" by simp
        with that show False ..
      qed (use 2 in auto)
    qed
    ultimately show ?thesis using v by simp
  next
    case 3
    note eqs = this
    have np: "CHR '':'' \<notin> set c" if "c \<in> set (Split (CHR '':'') s)" for c using Split_parts_no_sep that .
    have False
    proof (cases "Split (CHR '':'') s" rule: remdups_adj.cases)
      case (3 c0 c1 rest)
      show ?thesis
      proof (cases "numeric c1")
        case True
        with 3 eqs have e: "rest = [p, ref_Tag ref]" "Repo ref = c0 @ CHR '':'' # c1 @ CHR '':'' # p" by auto
        have "CHR '':'' \<notin> set c0" "CHR '':'' \<notin> set c1" "CHR '':'' \<notin> set p" using 3 e by (auto intro!: np)
        then have "Split (CHR '':'') (Repo ref) = [c0, c1, p]" unfolding e by (simp add: Split_append_sep Split_no_sep)
        with v show ?thesis by (simp add: validate_None)
      next
        case False
        with 3 eqs have e: "c0 = r" "c1 = p" "Repo ref = r @ CHR '':'' # p" by auto
        have "CHR '':'' \<notin> set r" "CHR '':'' \<notin> set p" using 3 e by (auto intro!: np)
        then have "Split (CHR '':'') (Repo ref) = [r, p]" unfolding e by (simp add: Split_append_sep Split_no_sep)
        with v valid_port_numeric [of p] False e show ?thesis by (simp add: validate_None)
      qed
    qed (use eqs in auto)
    then show ?thesis ..
  qed
qed

text \<open>
  C28: a parsed reference is valid (a non-empty repository that is a parsable address, with at most one
  colon, before a valid port, and no colon in the tag), its full name is the text it was parsed from,
  up to a colon at the end, and parsing the full name gives the same reference again.
\<close>

theorem ParseReference_roundtrip:
  assumes "ParseReference s = Inr ref"
  shows "validate ref = None \<and> (s = FullName ref \<or> s = FullName ref @ '':'') \<and> ParseReference (FullName ref) = Inr ref"
proof -
  note t = ParseReference_text [OF assms]
  have "ParseReference (FullName ref) = Inr ref" using t by (intro ParseReference_print) auto
  with t show ?thesis by (auto simp: FullName_def)
qed

lemma ParseReference_roundtrip_witness:
  "ParseReference ''repo/chart:v1'' = Inr \<lparr>ref_Tag = ''v1'', Repo = ''repo/chart''\<rparr>
   \<and> ParseReference (FullName \<lparr>ref_Tag = ''v1'', Repo = ''repo/chart''\<rparr>) = Inr \<lparr>ref_Tag = ''v1'', Repo = ''repo/chart''\<rparr>"
proof -
  have p: "ParseReference ''repo/chart:v1'' = Inr \<lparr>ref_Tag = ''v1'', Repo = ''repo/chart''\<rparr>" by code_simp
  with ParseReference_roundtrip [OF p] show ?thesis by blast
qed

section \<open>Byte counts: correctness\<close>

lemma int64_id: "- (2 ^ 63) \<le> n \<Longrightarrow> n < 2 ^ 63 \<Longrightarrow> int64 n = n"
  by (simp add: int64_def)

lemma byteCount_loop_spec:
  assumes "n = b div dv" "dv = 1024 ^ Suc ex" "0 < n" "b < 2 ^ 63"
  shows "\<exists>k. byteCount_loop n dv ex = (1024 ^ Suc k, k) \<and> 1024 ^ Suc k \<le> b \<and> b < 1024 ^ Suc (Suc k)"
  using assms
proof (induction n dv ex rule: byteCount_loop.induct)
  case (1 n dv ex)
  have dv: "0 < dv" using 1 by simp
  have "b div dv * dv + b mod dv = b" "0 \<le> b mod dv" "b mod dv < dv" using dv by simp_all
  then have n: "n * dv \<le> b" "b < (n + 1) * dv" unfolding 1(2) by (simp_all only: distrib_right)
  show ?case
  proof (cases "1024 \<le> n")
    case True
    have "1024 * dv \<le> n * dv" using True dv by (intro mult_right_mono) auto
    then have "dv * 1024 < 2 ^ 63" using n(1) 1 by linarith
    then have "int64 (dv * 1024) = dv * 1024" using dv by (intro int64_id) auto
    moreover have "go_quot n 1024 = b div (dv * 1024)" using True unfolding 1(2) by (simp add: go_quot_nonneg zdiv_zmult2_eq)
    moreover have "0 < go_quot n 1024" using True by (simp add: go_quot_nonneg pos_imp_zdiv_pos_iff)
    ultimately show ?thesis using 1 True by (subst byteCount_loop.simps) auto
  next
    case False
    have "1 * dv \<le> n * dv" "(n + 1) * dv \<le> 1024 * dv" using False dv 1 by (auto intro!: mult_right_mono)
    then have "dv \<le> b" "b < 1024 * dv" using n by linarith+
    then show ?thesis using 1 False by (subst byteCount_loop.simps) simp
  qed
qed

lemma round_even_bounds:
  assumes "0 < q"
  shows "2 * \<bar>round_even p q * q - p\<bar> \<le> q" "a * q \<le> p \<Longrightarrow> a \<le> round_even p q" "p \<le> a * q \<Longrightarrow> round_even p q \<le> a"
proof -
  have d: "p div q * q = p - p mod q" "0 \<le> p mod q" "p mod q < q"
    using assms by (simp_all add: minus_mod_eq_div_mult)
  have "round_even p q * q = p - p mod q \<and> 2 * (p mod q) \<le> q \<or> round_even p q * q = p - p mod q + q \<and> q \<le> 2 * (p mod q)"
    by (auto simp: round_even_def Let_def distrib_right d(1))
  then show "2 * \<bar>round_even p q * q - p\<bar> \<le> q" using d(2,3) by (elim disjE conjE) simp_all
  show "a \<le> round_even p q" if "a * q \<le> p"
  proof -
    have "a \<le> p div q" using zdiv_mono1 [OF that assms] assms by simp
    then show ?thesis by (auto simp: round_even_def Let_def)
  qed
  show "round_even p q \<le> a" if "p \<le> a * q"
  proof (cases "p mod q = 0")
    case True
    then have "p div q * q \<le> a * q" using d that by simp
    then show ?thesis using True assms by (auto simp: round_even_def Let_def)
  next
    case False
    then have "p div q * q < a * q" using d that by linarith
    then have "p div q < a" using assms by simp
    then show ?thesis by (auto simp: round_even_def Let_def)
  qed
qed

lemma float64_of_spec:
  assumes "ulp = 2 ^ p" "p = 0 \<or> 2 ^ 52 * ulp \<le> b"
  shows "\<exists>q. float64_of b ulp = round_even b (2 ^ q) * 2 ^ q \<and> (q = 0 \<or> 2 ^ 52 * 2 ^ q \<le> b)"
  using assms
proof (induction b ulp arbitrary: p rule: float64_of.induct)
  case (1 b ulp)
  show ?case
  proof (cases "2 ^ 53 * ulp \<le> b")
    case True
    have "\<exists>q. float64_of b (2 * ulp) = round_even b (2 ^ q) * 2 ^ q \<and> (q = 0 \<or> 2 ^ 52 * 2 ^ q \<le> b)"
      using True 1(2) by (intro 1(1) [of "Suc p"]) auto
    then show ?thesis using True 1(2) by (subst float64_of.simps) simp
  next
    case False
    with 1(2,3) show ?thesis by (subst float64_of.simps) (auto intro!: exI [of _ p])
  qed
qed

lemma float64_of_small: "b < 2 ^ 53 \<Longrightarrow> float64_of b 1 = b"
  by (subst float64_of.simps) (simp add: round_even_def)

lemma float64_of_between:
  assumes "1024 ^ Suc k \<le> b" "b < 1024 ^ Suc (Suc k)" "b < 2 ^ 63"
  shows "1024 ^ Suc k \<le> float64_of b 1 \<and> float64_of b 1 \<le> 1024 ^ Suc (Suc k)"
proof -
  obtain q where q: "float64_of b 1 = round_even b (2 ^ q) * 2 ^ q" "q = 0 \<or> 2 ^ 52 * 2 ^ q \<le> b"
    using float64_of_spec [of 1 0 b] by auto
  have k: "(1024 :: int) ^ Suc k = 2 ^ (10 * Suc k)" "(1024 :: int) ^ Suc (Suc k) = 2 ^ (10 * Suc (Suc k))"
    by (simp_all add: power_mult power_add)
  have "q \<le> 10 * Suc k"
  proof (cases "q = 0")
    case False
    then have l: "(2 :: int) ^ (52 + q) \<le> b" using q(2) by (simp add: power_add)
    then have "(2 :: int) ^ (52 + q) < 2 ^ 63" "(2 :: int) ^ (52 + q) < 2 ^ (10 * Suc (Suc k))"
      using assms k by linarith+
    then have "52 + q < 63" "52 + q < 10 * Suc (Suc k)" by (meson power_less_imp_less_exp one_less_numeral_iff semiring_norm(76))+
    then show ?thesis by simp
  qed simp
  then have dv: "(2 :: int) ^ q dvd 1024 ^ Suc k" "(2 :: int) ^ q dvd 1024 ^ Suc (Suc k)"
    unfolding k by (auto intro!: le_imp_power_dvd)
  have "1024 ^ Suc k div 2 ^ q \<le> round_even b (2 ^ q)" "round_even b (2 ^ q) \<le> 1024 ^ Suc (Suc k) div 2 ^ q"
    using assms dv by (auto intro!: round_even_bounds simp: dvd_div_mult_self simp del: power_Suc)
  then have "1024 ^ Suc k div 2 ^ q * 2 ^ q \<le> round_even b (2 ^ q) * 2 ^ q"
      "round_even b (2 ^ q) * 2 ^ q \<le> 1024 ^ Suc (Suc k) div 2 ^ q * 2 ^ q"
    by (simp_all only: mult_right_mono zero_le_power zero_le_numeral)
  then show ?thesis using dv by (simp add: q(1) dvd_div_mult_self del: power_Suc)
qed

lemma large_byteCount:
  assumes "1024 \<le> b" "b < 2 ^ 63"
  shows "\<exists>k n. k < 6 \<and> 1024 ^ (k + 1) \<le> b \<and> b < 1024 ^ (k + 2)
    \<and> byteCountBinary b = Some (tenths n @ '' '' @ [''KMGTPE'' ! k] @ ''iB'')
    \<and> 10 \<le> n \<and> n \<le> 10240 \<and> (b < 2 ^ 53 \<longrightarrow> 2 * \<bar>n * 1024 ^ (k + 1) - 10 * b\<bar> \<le> 1024 ^ (k + 1))"
proof -
  obtain k where k: "byteCount_loop (go_quot b 1024) 1024 0 = (1024 ^ Suc k, k)"
      "1024 ^ Suc k \<le> b" "b < 1024 ^ Suc (Suc k)"
    using byteCount_loop_spec [of "go_quot b 1024" b 1024 0] assms
    by (auto simp: go_quot_nonneg pos_imp_zdiv_pos_iff)
  have "(1024 :: int) ^ Suc k < 1024 ^ 7" using k(2) assms(2) by simp
  then have "Suc k < 7" by (meson power_less_imp_less_exp one_less_numeral_iff semiring_norm(76))
  then have "k < 6" by simp
  let ?n = "round_even (10 * float64_of b 1) (1024 ^ Suc k)"
  have f: "1024 ^ Suc k \<le> float64_of b 1" "float64_of b 1 \<le> 1024 ^ Suc (Suc k)"
    using float64_of_between k assms by blast+
  have "10 \<le> ?n" "?n \<le> 10240" using f by (auto intro!: round_even_bounds)
  moreover have "2 * \<bar>?n * 1024 ^ Suc k - 10 * float64_of b 1\<bar> \<le> 1024 ^ Suc k" by (intro round_even_bounds) simp
  moreover have "byteCountBinary b = Some (tenths ?n @ '' '' @ [''KMGTPE'' ! k] @ ''iB'')"
    using assms(1) k(1) \<open>k < 6\<close> by (simp add: byteCountBinary_def)
  ultimately show ?thesis using k(2,3) \<open>k < 6\<close>
    by (intro exI [of _ k] exI [of _ ?n]) (auto simp: float64_of_small)
qed

text \<open>
  C32: \<open>byteCountBinary\<close> returns for every \<open>int64\<close>: the divisor does not overflow and the unit is in range. A
  size below 1024, also a negative one, is printed as it is with the unit \<open>B\<close>. From 1024 on the unit is the
  largest one not above the size, the printed number is between \<open>1.0\<close> and \<open>1024.0\<close>, and for sizes below
  \<open>2^53\<close> it is within half a tenth of the quotient.
\<close>

theorem byteCountBinary_unit:
  assumes "- (2 ^ 63) \<le> b" "b < 2 ^ 63"
  shows "if b < 1024 then byteCountBinary b = Some (Itoa b @ '' B'')
    else \<exists>k n. k < 6 \<and> 1024 ^ (k + 1) \<le> b \<and> b < 1024 ^ (k + 2)
      \<and> byteCountBinary b = Some (tenths n @ '' '' @ [''KMGTPE'' ! k] @ ''iB'')
      \<and> 10 \<le> n \<and> n \<le> 10240 \<and> (b < 2 ^ 53 \<longrightarrow> 2 * \<bar>n * 1024 ^ (k + 1) - 10 * b\<bar> \<le> 1024 ^ (k + 1))"
  using large_byteCount [OF _ assms(2)] by (auto simp: byteCountBinary_def)

theorem byteCountBinary_unit_witness:
  "byteCountBinary (- 3) = Some (Itoa (- 3) @ '' B'')
   \<and> (\<exists>k n. k < 6 \<and> 1024 ^ (k + 1) \<le> (1048575 :: int) \<and> (1048575 :: int) < 1024 ^ (k + 2)
      \<and> byteCountBinary 1048575 = Some (tenths n @ '' '' @ [''KMGTPE'' ! k] @ ''iB'') \<and> 10 \<le> n \<and> n \<le> 10240)"
  using byteCountBinary_unit [of "- 3"] byteCountBinary_unit [of 1048575] by fastforce

end
