(* ===== verification/Agent_Registry.thy ===== *)
theory Agent_Registry
  imports Agent_Helm
begin

text \<open>
  The chart registry client (\<open>pkg/helm3/registry/cache.go\<close> and \<open>client.go\<close>): a cache of charts on top of
  an OCI store, with operations to pull, push, save, load, remove and list charts.

  The store, the remote registry, the encoders of third-party types and the chart archive format
  belong to other packages: they are the fields of a record that every operation takes. The client's
  state is the store, once it is opened, and the text written to its output.
\<close>

section \<open>Data\<close>

text \<open>\<open>ocispec.Descriptor\<close>, \<open>ocispec.Manifest\<close>, \<open>content.Info\<close> and \<open>chart.Chart\<close>: the fields the code reads.\<close>

record Descriptor =
  d_MediaType :: string
  d_Digest :: string
  d_Size :: int
  d_Annotations :: "(string \<times> string) list"

record Manifest =
  m_SchemaVersion :: int
  m_Config :: Descriptor
  m_Layers :: "Descriptor list"

record Info =
  i_Digest :: string
  i_Size :: int
  i_CreatedAt :: int

record Chart =
  ch_Name :: string
  ch_Version :: string
  ch_Type :: string
  ch_Files :: "(string \<times> string) list"

record CacheRefSummary =
  s_Name :: string
  s_Repo :: string
  s_Tag :: string
  s_Exists :: bool
  s_Manifest :: "Descriptor option"
  s_Config :: "Descriptor option"
  s_ContentLayer :: "Descriptor option"
  s_Size :: int
  s_Digest :: string
  s_CreatedAt :: int
  s_Chart :: "Chart option"

definition HelmChartConfigMediaType :: string where
  "HelmChartConfigMediaType = ''application/vnd.cncf.helm.config.v1+json''"

definition HelmChartContentLayerMediaType :: string where
  "HelmChartContentLayerMediaType = ''application/tar+gzip''"

definition KnownMediaTypes :: "string list" where
  "KnownMediaTypes = [HelmChartConfigMediaType, HelmChartContentLayerMediaType]"

definition AnnotationRefName :: string where
  "AnnotationRefName = ''org.opencontainers.image.ref.name''"

text \<open>
  What the registry client calls: the OCI store (\<open>o_\<close>), \<open>oras\<close> (pull and push), the digest library,
  the JSON form of third-party structures, and the chart library. A commit may fail because the
  content is there already, which is no failure for the caller.
\<close>

datatype commit_error = AlreadyStored | CommitFailed string

record ('st, 'w) registry =
  o_New :: "string + 'st"
  o_List :: "'st \<Rightarrow> Descriptor list"
  o_Add :: "string \<Rightarrow> Descriptor \<Rightarrow> 'st \<Rightarrow> 'st"
  o_Delete :: "string \<Rightarrow> 'st \<Rightarrow> 'st"
  o_SaveIndex :: "'st \<Rightarrow> 'st \<times> string option"
  o_Info :: "'st \<Rightarrow> string \<Rightarrow> string + Info"
  o_ReaderAt :: "'st \<Rightarrow> Descriptor \<Rightarrow> string option"
  o_ReadAt :: "'st \<Rightarrow> Descriptor \<Rightarrow> nat \<Rightarrow> string + string"
  o_Writer :: "'st \<Rightarrow> string \<Rightarrow> string + 'w"
  o_Write :: "'w \<Rightarrow> string \<Rightarrow> 'w \<times> string option"
  o_Commit :: "'w \<Rightarrow> 'st \<Rightarrow> 'st \<times> commit_error option"
  o_Close :: "'w \<Rightarrow> string option"
  oras_Pull :: "string \<Rightarrow> string list \<Rightarrow> 'st \<Rightarrow> 'st \<times> (string + Descriptor)"
  oras_PullMemory :: "string \<Rightarrow> string list \<Rightarrow> string + Descriptor list \<times> (Descriptor \<Rightarrow> string option)"
  oras_Push :: "string \<Rightarrow> 'st \<Rightarrow> Descriptor list \<Rightarrow> Descriptor \<Rightarrow> string option"
  mem_Add :: "string \<Rightarrow> string \<Rightarrow> Descriptor"
  FromBytes :: "string \<Rightarrow> string"
  Hex :: "string \<Rightarrow> string go"
  marshal_Metadata :: "Chart \<Rightarrow> string + string"
  marshal_Manifest :: "Manifest \<Rightarrow> string + string"
  unmarshal_Manifest :: "string \<Rightarrow> string + Manifest"
  LoadArchive :: "string \<Rightarrow> string + Chart"
  chart_Save :: "Chart \<Rightarrow> string + string"
  HumanAge :: "int \<Rightarrow> string"
  render_table :: "string list list \<Rightarrow> string"
  auth_Login :: "string \<Rightarrow> string \<Rightarrow> string \<Rightarrow> bool \<Rightarrow> string option"
  auth_Logout :: "string \<Rightarrow> string option"

record 'st Client =
  ociStore :: "'st option"
  c_out :: string
  c_debug :: bool

definition Fprintf :: "string \<Rightarrow> 'st Client \<Rightarrow> 'st Client" where
  "Fprintf s c = c\<lparr>c_out := c_out c @ s\<rparr>"

definition lf :: string where "lf = [CHR 0x0A]"

section \<open>The cache\<close>

text \<open>\<open>init\<close>: the store is opened at the first use.\<close>

definition init :: "('st, 'w) registry \<Rightarrow> 'st Client \<Rightarrow> string + 'st \<times> 'st Client" where
  "init g c =
     (case ociStore c of
        Some st \<Rightarrow> Inr (st, c)
      | None \<Rightarrow> (case o_New g of Inl err \<Rightarrow> Inl err | Inr st \<Rightarrow> Inr (st, c\<lparr>ociStore := Some st\<rparr>)))"

text \<open>\<open>fetchBlob\<close>: the buffer is made with the size of the descriptor, a panic where it is negative.\<close>

definition fetchBlob :: "('st, 'w) registry \<Rightarrow> 'st \<Rightarrow> Descriptor \<Rightarrow> (string + string) go" where
  "fetchBlob g st desc =
     (case o_ReaderAt g st desc of
        Some err \<Rightarrow> Some (Inl err)
      | None \<Rightarrow> if d_Size desc < 0 then None else Some (o_ReadAt g st desc (nat (d_Size desc))))"

text \<open>\<open>storeBlob\<close>: whether the blob existed, and the error.\<close>

definition storeBlob :: "('st, 'w) registry \<Rightarrow> string \<Rightarrow> 'st \<Rightarrow> 'st \<times> bool \<times> string option" where
  "storeBlob g blobBytes st =
     (case o_Writer g st (FromBytes g blobBytes) of
        Inl err \<Rightarrow> (st, False, Some err)
      | Inr w \<Rightarrow>
          (case o_Write g w blobBytes of
             (w, Some err) \<Rightarrow> (st, False, Some err)
           | (w, None) \<Rightarrow>
               (case o_Commit g w st of
                  (st', Some (CommitFailed err)) \<Rightarrow> (st', False, Some err)
                | (st', Some AlreadyStored) \<Rightarrow> (st', True, o_Close g w)
                | (st', None) \<Rightarrow> (st', False, o_Close g w))))"

definition content_layer :: "Descriptor list \<Rightarrow> Descriptor option" where
  "content_layer ls =
     foldl (\<lambda>c l. if d_MediaType l = HelmChartContentLayerMediaType then Some l else c) None ls"

definition no_layer :: string where
  "no_layer = ''manifest does not contain a layer with mediatype '' @ HelmChartContentLayerMediaType"

text \<open>The body of the loop of \<open>FetchReference\<close>, for a reference with the right name.\<close>

definition fetch_layer ::
  "('st, 'w) registry \<Rightarrow> 'st \<Rightarrow> Descriptor \<Rightarrow> CacheRefSummary \<Rightarrow> (CacheRefSummary \<times> string option) go" where
  "fetch_layer g st l r =
     (if d_Size l = 0
      then Some (r, Some (''manifest layer with mediatype '' @ HelmChartContentLayerMediaType @ '' is of size 0''))
      else
        (let r = r\<lparr>s_ContentLayer := Some l\<rparr> in
         case o_Info g st (d_Digest l) of
           Inl err \<Rightarrow> Some (r, Some err)
         | Inr info \<Rightarrow>
             (let r = r\<lparr>s_Size := i_Size info, s_Digest := i_Digest info, s_CreatedAt := i_CreatedAt info\<rparr> in
              do {
                contentBytes \<leftarrow> fetchBlob g st l;
                (case contentBytes of
                   Inl err \<Rightarrow> Some (r, Some err)
                 | Inr bs \<Rightarrow>
                     (case LoadArchive g bs of
                        Inl err \<Rightarrow> Some (r, Some err)
                      | Inr ch \<Rightarrow> Some (r\<lparr>s_Chart := Some ch\<rparr>, None)))
              })))"

definition fetch_desc ::
  "('st, 'w) registry \<Rightarrow> 'st \<Rightarrow> Descriptor \<Rightarrow> CacheRefSummary \<Rightarrow> (CacheRefSummary \<times> string option) go" where
  "fetch_desc g st desc r =
     (let r = r\<lparr>s_Exists := True\<rparr> in
      do {
        manifestBytes \<leftarrow> fetchBlob g st desc;
        (case manifestBytes of
           Inl err \<Rightarrow> Some (r, Some err)
         | Inr bs \<Rightarrow>
             (case unmarshal_Manifest g bs of
                Inl err \<Rightarrow> Some (r, Some err)
              | Inr m \<Rightarrow>
                  (let r = r\<lparr>s_Manifest := Some desc, s_Config := Some (m_Config m)\<rparr> in
                   if length (m_Layers m) \<noteq> 1
                   then Some (r, Some (''manifest does not contain exactly 1 layer (total: '' @ Itoa (int (length (m_Layers m))) @ '')''))
                   else (case content_layer (m_Layers m) of
                           None \<Rightarrow> Some (r, Some no_layer)
                         | Some l \<Rightarrow> fetch_layer g st l r))))
      })"

definition ref_name :: "Descriptor \<Rightarrow> string" where
  "ref_name desc = gget (Some (d_Annotations desc)) AnnotationRefName"

fun fetch_loop ::
  "('st, 'w) registry \<Rightarrow> 'st \<Rightarrow> Descriptor list \<Rightarrow> CacheRefSummary \<Rightarrow> (CacheRefSummary \<times> string option) go" where
  "fetch_loop g st [] r = Some (r, None)"
| "fetch_loop g st (desc # ds) r =
     (if ref_name desc = s_Name r then
        do {
          (r, err) \<leftarrow> fetch_desc g st desc r;
          (if err = None then fetch_loop g st ds r else Some (r, err))
        }
      else fetch_loop g st ds r)"

definition new_summary :: "Reference \<Rightarrow> CacheRefSummary" where
  "new_summary ref =
     \<lparr>s_Name = FullName ref, s_Repo = Repo ref, s_Tag = ref_Tag ref, s_Exists = False, s_Manifest = None, s_Config = None,
      s_ContentLayer = None, s_Size = 0, s_Digest = [], s_CreatedAt = 0, s_Chart = None\<rparr>"

text \<open>
  \<open>FetchReference\<close>: the summary, nil where the store cannot be opened, and the error.
\<close>

definition FetchReference ::
  "('st, 'w) registry \<Rightarrow> Reference \<Rightarrow> 'st Client \<Rightarrow> ('st Client \<times> CacheRefSummary option \<times> string option) go" where
  "FetchReference g ref c =
     (case init g c of
        Inl err \<Rightarrow> Some (c, None, Some err)
      | Inr (st, c) \<Rightarrow>
          do { (r, err) \<leftarrow> fetch_loop g st (o_List g st) (new_summary ref); Some (c, Some r, err) })"

section \<open>Saving a chart\<close>

definition saveChartConfig :: "('st, 'w) registry \<Rightarrow> Chart \<Rightarrow> 'st \<Rightarrow> 'st \<times> (string + Descriptor)" where
  "saveChartConfig g ch st =
     (case marshal_Metadata g ch of
        Inl err \<Rightarrow> (st, Inl err)
      | Inr configBytes \<Rightarrow>
          (case storeBlob g configBytes st of
             (st, exists, Some err) \<Rightarrow> (st, Inl err)
           | (st, exists, None) \<Rightarrow> (st, Inr (mem_Add g HelmChartConfigMediaType configBytes))))"

definition saveChartContentLayer :: "('st, 'w) registry \<Rightarrow> Chart \<Rightarrow> 'st \<Rightarrow> 'st \<times> (string + Descriptor)" where
  "saveChartContentLayer g ch st =
     (case chart_Save g ch of
        Inl err \<Rightarrow> (st, Inl err)
      | Inr contentBytes \<Rightarrow>
          (case storeBlob g contentBytes st of
             (st, exists, Some err) \<Rightarrow> (st, Inl err)
           | (st, exists, None) \<Rightarrow> (st, Inr (mem_Add g HelmChartContentLayerMediaType contentBytes))))"

definition MediaTypeImageManifest :: string where
  "MediaTypeImageManifest = ''application/vnd.oci.image.manifest.v1+json''"

definition saveChartManifest ::
  "('st, 'w) registry \<Rightarrow> Descriptor \<Rightarrow> Descriptor \<Rightarrow> 'st \<Rightarrow> 'st \<times> (string + Descriptor)" where
  "saveChartManifest g config contentLayer st =
     (case marshal_Manifest g \<lparr>m_SchemaVersion = 2, m_Config = config, m_Layers = [contentLayer]\<rparr> of
        Inl err \<Rightarrow> (st, Inl err)
      | Inr manifestBytes \<Rightarrow>
          (case storeBlob g manifestBytes st of
             (st, exists, Some err) \<Rightarrow> (st, Inl err)
           | (st, exists, None) \<Rightarrow>
               (st, Inr \<lparr>d_MediaType = MediaTypeImageManifest, d_Digest = FromBytes g manifestBytes,
                         d_Size = int (length manifestBytes), d_Annotations = []\<rparr>)))"

text \<open>\<open>StoreReference\<close> after the store is open and the existing entry is read.\<close>

definition store_chart ::
  "('st, 'w) registry \<Rightarrow> Chart \<Rightarrow> 'st \<Rightarrow> CacheRefSummary \<Rightarrow> 'st \<times> CacheRefSummary \<times> string option" where
  "store_chart g ch st r =
     (case saveChartConfig g ch st of
        (st, Inl err) \<Rightarrow> (st, r, Some err)
      | (st, Inr config) \<Rightarrow>
          (let r = r\<lparr>s_Config := Some config\<rparr> in
           case saveChartContentLayer g ch st of
             (st, Inl err) \<Rightarrow> (st, r, Some err)
           | (st, Inr layer) \<Rightarrow>
               (let r = r\<lparr>s_ContentLayer := Some layer\<rparr> in
                case o_Info g st (d_Digest layer) of
                  Inl err \<Rightarrow> (st, r, Some err)
                | Inr info \<Rightarrow>
                    (let r = r\<lparr>s_Size := i_Size info, s_Digest := i_Digest info, s_CreatedAt := i_CreatedAt info\<rparr> in
                     case saveChartManifest g config layer st of
                       (st, Inl err) \<Rightarrow> (st, r, Some err)
                     | (st, Inr manifest) \<Rightarrow> (st, r\<lparr>s_Manifest := Some manifest\<rparr>, None)))))"

definition StoreReference ::
  "('st, 'w) registry \<Rightarrow> Reference \<Rightarrow> Chart \<Rightarrow> 'st Client \<Rightarrow> ('st Client \<times> CacheRefSummary option \<times> string option) go" where
  "StoreReference g ref ch c =
     (case init g c of
        Inl err \<Rightarrow> Some (c, None, Some err)
      | Inr (st, c) \<Rightarrow>
          do {
            (c, existing, _) \<leftarrow> FetchReference g ref c;
            existing \<leftarrow> existing;
            (let (st, r, err) = store_chart g ch st ((new_summary ref)\<lparr>s_Chart := Some ch, s_Exists := s_Exists existing\<rparr>)
             in Some (c\<lparr>ociStore := Some st\<rparr>, Some r, err))
          })"

definition AddManifest :: "('st, 'w) registry \<Rightarrow> Reference \<Rightarrow> Descriptor \<Rightarrow> 'st Client \<Rightarrow> 'st Client \<times> string option" where
  "AddManifest g ref manifest c =
     (case init g c of
        Inl err \<Rightarrow> (c, Some err)
      | Inr (st, c) \<Rightarrow>
          (let (st, err) = o_SaveIndex g (o_Add g (FullName ref) manifest st)
           in (c\<lparr>ociStore := Some st\<rparr>, err)))"

text \<open>\<open>DeleteReference\<close>: only the entry of the index is removed.\<close>

definition DeleteReference ::
  "('st, 'w) registry \<Rightarrow> Reference \<Rightarrow> 'st Client \<Rightarrow> ('st Client \<times> CacheRefSummary option \<times> string option) go" where
  "DeleteReference g ref c =
     (case init g c of
        Inl err \<Rightarrow> Some (c, None, Some err)
      | Inr (st, c) \<Rightarrow>
          do {
            (c, r, err) \<leftarrow> FetchReference g ref c;
            (if err \<noteq> None then Some (c, r, err)
             else do {
               s \<leftarrow> r;
               (if \<not> s_Exists s then Some (c, r, None)
                else (let (st, err) = o_SaveIndex g (o_Delete g (s_Name s) st)
                      in Some (c\<lparr>ociStore := Some st\<rparr>, r, err)))
             })
          })"

text \<open>
  \<open>Cache.ListReferences\<close>: entries without a name are passed over, with a warning in debug mode; the
  first error ends the listing. The text of a refused address is a fixed one.
\<close>

definition ref_error_text :: "ref_error \<Rightarrow> string" where
  "ref_error_text err =
     (case err of errEmptyRepo \<Rightarrow> ''parsed repo was empty'' | errTooManyColons \<Rightarrow> ''ref may only contain a single colon character (:) unless specifying a port number''
      | errUrl \<Rightarrow> ''parse failed'')"

fun list_loop ::
  "('st, 'w) registry \<Rightarrow> Descriptor list \<Rightarrow> 'st Client \<Rightarrow> CacheRefSummary list
    \<Rightarrow> ('st Client \<times> CacheRefSummary list \<times> string option) go" where
  "list_loop g [] c rr = Some (c, rr, None)"
| "list_loop g (desc # ds) c rr =
     (if ref_name desc = [] then
        (if c_debug c then
           do { h \<leftarrow> Hex g (d_Digest desc); list_loop g ds (Fprintf (''warning: found manifest without name: '' @ h) c) rr }
         else list_loop g ds c rr)
      else (case ParseReference (ref_name desc) of
              Inl err \<Rightarrow> Some (c, rr, Some (ref_error_text err))
            | Inr ref \<Rightarrow>
                do {
                  (c, r, err) \<leftarrow> FetchReference g ref c;
                  (if err \<noteq> None then Some (c, rr, err) else do { r \<leftarrow> r; list_loop g ds c (rr @ [r]) })
                }))"

definition cache_ListReferences ::
  "('st, 'w) registry \<Rightarrow> 'st Client \<Rightarrow> ('st Client \<times> CacheRefSummary list \<times> string option) go" where
  "cache_ListReferences g c =
     (case init g c of Inl err \<Rightarrow> Some (c, [], Some err) | Inr (st, c) \<Rightarrow> list_loop g (o_List g st) c [])"

section \<open>The client\<close>

definition printCacheRefSummary :: "('st, 'w) registry \<Rightarrow> CacheRefSummary \<Rightarrow> 'st Client \<Rightarrow> 'st Client go" where
  "printCacheRefSummary g r c =
     do {
       manifest \<leftarrow> s_Manifest r;
       h \<leftarrow> Hex g (d_Digest manifest);
       size \<leftarrow> byteCountBinary (s_Size r);
       ch \<leftarrow> s_Chart r;
       Some (Fprintf (''ref:     '' @ s_Name r @ lf @ ''digest:  '' @ h @ lf @ ''size:    '' @ size @ lf
               @ ''name:    '' @ ch_Name ch @ lf @ ''version: '' @ ch_Version ch @ lf) c)
     }"

definition Login :: "('st, 'w) registry \<Rightarrow> string \<Rightarrow> string \<Rightarrow> string \<Rightarrow> bool \<Rightarrow> 'st Client \<Rightarrow> 'st Client \<times> string option" where
  "Login g hostname username password insecure c =
     (case auth_Login g hostname username password insecure of
        Some err \<Rightarrow> (c, Some err)
      | None \<Rightarrow> (Fprintf (''Login succeeded'' @ lf) c, None))"

definition Logout :: "('st, 'w) registry \<Rightarrow> string \<Rightarrow> 'st Client \<Rightarrow> 'st Client \<times> string option" where
  "Logout g hostname c =
     (case auth_Logout g hostname of
        Some err \<Rightarrow> (c, Some err)
      | None \<Rightarrow> (Fprintf (''Logout succeeded'' @ lf) c, None))"

definition chart_not_found :: "string \<Rightarrow> string" where
  "chart_not_found name = ''Chart not found: '' @ name"

definition PushChart :: "('st, 'w) registry \<Rightarrow> Reference \<Rightarrow> 'st Client \<Rightarrow> ('st Client \<times> string option) go" where
  "PushChart g ref c =
     do {
       (c, r, err) \<leftarrow> FetchReference g ref c;
       (case err of Some e \<Rightarrow> Some (c, Some e) | None \<Rightarrow>
        do {
          r \<leftarrow> r;
          (if \<not> s_Exists r then Some (c, Some (chart_not_found (s_Name r)))
           else do {
             c \<leftarrow> printCacheRefSummary g r (Fprintf (''The push refers to repository ['' @ s_Repo r @ '']'' @ lf) c);
             layer \<leftarrow> s_ContentLayer r;
             config \<leftarrow> s_Config r;
             st \<leftarrow> ociStore c;
             (case oras_Push g (s_Name r) st [layer] config of
                Some err \<Rightarrow> Some (c, Some err)
              | None \<Rightarrow>
                  do {
                    size \<leftarrow> byteCountBinary (s_Size r);
                    Some (Fprintf (s_Tag r @ '': pushed to remote ('' @ Itoa (int (length [layer])) @ '' layer''
                      @ (if 1 < length [layer] then ''s'' else []) @ '', '' @ size @ '' total)'' @ lf) c, None)
                  })
           })
        })
     }"

text \<open>\<open>PullChart\<close>: the bytes of the content layer, which the cache never sees, or the error.\<close>

definition PullChart :: "('st, 'w) registry \<Rightarrow> Reference \<Rightarrow> 'st Client \<Rightarrow> 'st Client \<times> (string + string)" where
  "PullChart g ref c =
     (if ref_Tag ref = [] then (c, Inl ''tag explicitly required'')
      else
        (let c = Fprintf (ref_Tag ref @ '': Pulling from '' @ Repo ref @ lf) c in
         case oras_PullMemory g (FullName ref) KnownMediaTypes of
           Inl err \<Rightarrow> (c, Inl err)
         | Inr (ls, blobs) \<Rightarrow>
             if length ls < 1 then (c, Inl (''manifest does not contain at least 1 layer (total: '' @ Itoa (int (length ls)) @ '')''))
             else (case content_layer ls of
                     None \<Rightarrow> (c, Inl no_layer)
                   | Some l \<Rightarrow>
                       (case blobs l of
                          None \<Rightarrow> (c, Inl (''Unable to retrieve blob with digest '' @ d_Digest l))
                        | Some b \<Rightarrow> (c, Inr b)))))"

text \<open>\<open>PullChartToCache\<close>; the ingester of the pull is the open store. First the part after the pull.\<close>

definition finish_pull ::
  "('st, 'w) registry \<Rightarrow> Reference \<Rightarrow> CacheRefSummary option \<Rightarrow> 'st Client \<Rightarrow> ('st Client \<times> string option) go" where
  "finish_pull g ref existing c =
     do {
       (c, r, err) \<leftarrow> FetchReference g ref c;
       (case err of
          Some e \<Rightarrow> Some (c, Some e)
        | None \<Rightarrow>
            do {
              r \<leftarrow> r;
              (if \<not> s_Exists r then Some (c, Some (chart_not_found (s_Name r)))
               else do {
                 c \<leftarrow> printCacheRefSummary g r c;
                 existing \<leftarrow> existing;
                 Some (Fprintf ((if \<not> s_Exists existing then ''Status: Downloaded newer chart for ''
                                 else ''Status: Chart is up to date for '') @ FullName ref @ lf) c, None)
               })
            })
     }"

definition PullChartToCache :: "('st, 'w) registry \<Rightarrow> Reference \<Rightarrow> 'st Client \<Rightarrow> ('st Client \<times> string option) go" where
  "PullChartToCache g ref c =
     (if ref_Tag ref = [] then Some (c, Some ''tag explicitly required'')
      else do {
        (c, existing, err) \<leftarrow> FetchReference g ref c;
        (case err of
           Some e \<Rightarrow> Some (c, Some e)
         | None \<Rightarrow>
             do {
               st \<leftarrow> ociStore c;
               (let c = Fprintf (ref_Tag ref @ '': Pulling from '' @ Repo ref @ lf) c;
                    (st, pulled) = oras_Pull g (FullName ref) KnownMediaTypes st;
                    c = c\<lparr>ociStore := Some st\<rparr>
                in case pulled of
                     Inl err \<Rightarrow> Some (c, Some err)
                   | Inr manifest \<Rightarrow>
                       (case AddManifest g ref manifest c of
                          (c, Some err) \<Rightarrow> Some (c, Some err)
                        | (c, None) \<Rightarrow> finish_pull g ref existing c))
             })
      })"

definition SaveChart :: "('st, 'w) registry \<Rightarrow> Chart \<Rightarrow> Reference \<Rightarrow> 'st Client \<Rightarrow> ('st Client \<times> string option) go" where
  "SaveChart g ch ref c =
     do {
       (c, r, err) \<leftarrow> StoreReference g ref ch c;
       (case err of Some e \<Rightarrow> Some (c, Some e) | None \<Rightarrow>
        do {
          r \<leftarrow> r;
          c \<leftarrow> printCacheRefSummary g r c;
          manifest \<leftarrow> s_Manifest r;
          (case AddManifest g ref manifest c of
             (c, Some err) \<Rightarrow> Some (c, Some err)
           | (c, None) \<Rightarrow> Some (Fprintf (s_Tag r @ '': saved'' @ lf) c, None))
        })
     }"

definition LoadChart :: "('st, 'w) registry \<Rightarrow> Reference \<Rightarrow> 'st Client \<Rightarrow> ('st Client \<times> (string + Chart)) go" where
  "LoadChart g ref c =
     do {
       (c, r, err) \<leftarrow> FetchReference g ref c;
       (case err of
          Some e \<Rightarrow> Some (c, Inl e)
        | None \<Rightarrow>
            do {
              r \<leftarrow> r;
              (if \<not> s_Exists r then Some (c, Inl (chart_not_found (FullName ref)))
               else do { c \<leftarrow> printCacheRefSummary g r c; ch \<leftarrow> s_Chart r; Some (c, Inr ch) })
            })
     }"

definition RemoveChart :: "('st, 'w) registry \<Rightarrow> Reference \<Rightarrow> 'st Client \<Rightarrow> ('st Client \<times> string option) go" where
  "RemoveChart g ref c =
     do {
       (c, r, err) \<leftarrow> DeleteReference g ref c;
       (case err of Some e \<Rightarrow> Some (c, Some e) | None \<Rightarrow>
        do {
          r \<leftarrow> r;
          (if \<not> s_Exists r then Some (c, Some (chart_not_found (FullName ref)))
           else Some (Fprintf (s_Tag r @ '': removed'' @ lf) c, None))
        })
     }"

text \<open>\<open>getChartTableRows\<close>: a map from the name to the columns, then its keys in order.\<close>

definition table_row :: "('st, 'w) registry \<Rightarrow> CacheRefSummary \<Rightarrow> string list go" where
  "table_row g r =
     do {
       ch \<leftarrow> s_Chart r;
       manifest \<leftarrow> s_Manifest r;
       h \<leftarrow> Hex g (d_Digest manifest);
       size \<leftarrow> byteCountBinary (s_Size r);
       Some [ch_Name ch, ch_Version ch, shortDigest h, size, HumanAge g (s_CreatedAt r)]
     }"

fun refs_map ::
  "('st, 'w) registry \<Rightarrow> CacheRefSummary list \<Rightarrow> (string \<times> string list) list \<Rightarrow> (string \<times> string list) list go" where
  "refs_map g [] m = Some m"
| "refs_map g (r # rr) m = do { row \<leftarrow> table_row g r; refs_map g rr (AList.update (s_Name r) row m) }"

definition getChartTableRows ::
  "('st, 'w) registry \<Rightarrow> 'st Client \<Rightarrow> ('st Client \<times> (string + string list list)) go" where
  "getChartTableRows g c =
     do {
       (c, rr, err) \<leftarrow> cache_ListReferences g c;
       (case err of
          Some e \<Rightarrow> Some (c, Inl e)
        | None \<Rightarrow>
            do {
              refsMap \<leftarrow> refs_map g rr [];
              Some (c, Inr (map (\<lambda>(key, ref). key # ref) (sort_key fst refsMap)))
            })
     }"

definition PrintChartTable :: "('st, 'w) registry \<Rightarrow> 'st Client \<Rightarrow> ('st Client \<times> string option) go" where
  "PrintChartTable g c =
     do {
       (c, rows) \<leftarrow> getChartTableRows g c;
       (case rows of
          Inl err \<Rightarrow> Some (c, Some err)
        | Inr rows \<Rightarrow>
            Some (Fprintf (render_table g ([''REF'', ''NAME'', ''VERSION'', ''DIGEST'', ''SIZE'', ''CREATED''] # rows) @ lf) c, None))
     }"

section \<open>What a lookup returns\<close>

abbreviation lookup_ref :: "('st, 'w) registry \<Rightarrow> 'st \<Rightarrow> Reference \<Rightarrow> (CacheRefSummary \<times> string option) go" where
  "lookup_ref g st ref \<equiv> fetch_loop g st (o_List g st) (new_summary ref)"

lemma init_cases:
  "init g c = Inl err \<Longrightarrow> ociStore c = None \<and> o_New g = Inl err"
  "init g c = Inr (st, c') \<Longrightarrow> c' = c\<lparr>ociStore := Some st\<rparr> \<and> (ociStore c = Some st \<or> ociStore c = None \<and> o_New g = Inr st)"
  by (auto simp: init_def split: option.splits sum.splits)

lemma init_open [simp]: "ociStore c = Some st \<Longrightarrow> init g c = Inr (st, c)"
  by (simp add: init_def)

lemma FetchReference_open:
  "ociStore c = Some st \<Longrightarrow> FetchReference g ref c = map_option (\<lambda>(r, err). (c, Some r, err)) (lookup_ref g st ref)"
  by (cases "lookup_ref g st ref") (auto simp: FetchReference_def)

lemma FetchReference_Some:
  assumes "FetchReference g ref c = Some (c', Some r, err)"
  shows "\<exists>st. init g c = Inr (st, c') \<and> ociStore c' = Some st \<and> lookup_ref g st ref = Some (r, err)"
  using assms
  by (auto simp: FetchReference_def init_def split: sum.splits option.splits bind_splits)

lemma FetchReference_None:
  assumes "FetchReference g ref c = Some (c', None, err)"
  shows "err \<noteq> None"
  using assms by (auto simp: FetchReference_def split: sum.splits bind_splits)

lemma FetchReference_ok:
  assumes "FetchReference g ref c = Some (c', ro, None)"
  obtains r st where "ro = Some r" "init g c = Inr (st, c')" "ociStore c' = Some st" "lookup_ref g st ref = Some (r, None)"
  using assms FetchReference_None FetchReference_Some by (cases ro) blast+

text \<open>A summary without an error is complete where the reference exists.\<close>

definition complete :: "CacheRefSummary \<Rightarrow> bool" where
  "complete r \<longleftrightarrow> (s_Exists r \<longrightarrow> s_Manifest r \<noteq> None \<and> s_Config r \<noteq> None \<and> s_ContentLayer r \<noteq> None \<and> s_Chart r \<noteq> None)"

lemma fetch_layer_keeps:
  assumes "fetch_layer g st l r = Some (r', err)"
  shows "s_Name r' = s_Name r \<and> s_Exists r' = s_Exists r \<and> s_Manifest r' = s_Manifest r \<and> s_Config r' = s_Config r
    \<and> (err = None \<longrightarrow> s_ContentLayer r' = Some l \<and> s_Chart r' \<noteq> None)"
  using assms by (auto simp: fetch_layer_def Let_def split: if_splits sum.splits bind_splits)

lemma fetch_desc_keeps:
  assumes "fetch_desc g st desc r = Some (r', err)"
  shows "s_Name r' = s_Name r \<and> s_Exists r' \<and> (err = None \<longrightarrow> complete r' \<and> s_Manifest r' = Some desc)"
  using assms
  by (auto simp: fetch_desc_def Let_def complete_def dest!: fetch_layer_keeps
      split: if_splits sum.splits bind_splits option.splits)

lemma fetch_loop_complete:
  assumes "fetch_loop g st ds r = Some (r', None)" "complete r"
  shows "complete r' \<and> s_Name r' = s_Name r \<and> (s_Exists r' \<longleftrightarrow> s_Exists r \<or> s_Name r \<in> ref_name ` set ds)"
  using assms
proof (induction ds arbitrary: r)
  case (Cons desc ds)
  show ?case
  proof (cases "ref_name desc = s_Name r")
    case True
    with Cons.prems(1) obtain r1 where f: "fetch_desc g st desc r = Some (r1, None)" and l: "fetch_loop g st ds r1 = Some (r', None)"
      by (auto split: bind_splits if_splits)
    from fetch_desc_keeps [OF f] have k: "s_Name r1 = s_Name r" "s_Exists r1" "complete r1" by auto
    from Cons.IH [OF l k(3)] k True show ?thesis by auto
  next
    case False
    with Cons show ?thesis by auto
  qed
qed simp

lemma fetch_loop_no_name: "s_Name r \<notin> ref_name ` set ds \<Longrightarrow> fetch_loop g st ds r = Some (r, None)"
  by (induction ds) auto

lemma fetch_loop_filter: "fetch_loop g st (filter (\<lambda>d. ref_name d = s_Name r) ds) r = fetch_loop g st ds r"
proof (induction ds arbitrary: r)
  case (Cons d ds)
  show ?case
  proof (cases "ref_name d = s_Name r")
    case True
    have "fetch_loop g st (filter (\<lambda>d. ref_name d = s_Name r) ds) r' = fetch_loop g st ds r'"
      if "fetch_desc g st d r = Some (r', err)" for r' err
      using Cons.IH [of r'] fetch_desc_keeps [OF that] by simp
    with True show ?thesis by (cases "fetch_desc g st d r") auto
  qed (use Cons in simp)
qed simp

lemma new_summary_simps [simp]:
  "s_Name (new_summary ref) = FullName ref" "\<not> s_Exists (new_summary ref)" "complete (new_summary ref)"
  "s_Tag (new_summary ref) = ref_Tag ref"
  by (simp_all add: new_summary_def complete_def)

text \<open>Printing depends on the client only through the text before it.\<close>

lemma print_output:
  assumes "printCacheRefSummary g r c = Some c'"
  obtains t where "c' = Fprintf t c" "\<And>c0. printCacheRefSummary g r c0 = Some (Fprintf t c0)"
  using assms by (auto simp: printCacheRefSummary_def split: bind_splits)

lemma Fprintf_store [simp]: "ociStore (Fprintf t c) = ociStore c"
  by (simp add: Fprintf_def)

lemma LoadChart_found:
  assumes "ociStore c = Some st" "lookup_ref g st ref = Some (r, None)" "s_Exists r" "printCacheRefSummary g r c0 = Some c1"
  shows "\<exists>t. LoadChart g ref c = Some (Fprintf t c, Inr (the (s_Chart r))) \<and> s_Chart r \<noteq> None"
proof -
  obtain ch where ch: "s_Chart r = Some ch"
    using fetch_loop_complete [OF assms(2)] assms(3) by (auto simp: complete_def)
  obtain t where "printCacheRefSummary g r c = Some (Fprintf t c)" using assms(4) by (rule print_output) blast
  with assms ch show ?thesis by (auto simp: LoadChart_def FetchReference_open)
qed

lemma finish_pull_ok:
  assumes "finish_pull g ref existing c = Some (c', None)"
  shows "\<exists>c1 r c2. FetchReference g ref c = Some (c1, Some r, None) \<and> s_Exists r
    \<and> printCacheRefSummary g r c1 = Some c2 \<and> ociStore c' = ociStore c2"
  using assms by (auto simp: finish_pull_def bind_eq_Some_conv split: prod.splits option.splits if_splits)

lemma PullChartToCache_ok:
  assumes "PullChartToCache g ref c = Some (c', None)"
  shows "\<exists>existing c1. finish_pull g ref existing c1 = Some (c', None)"
proof -
  from assms obtain c1 ex err where f: "FetchReference g ref c = Some (c1, ex, err)"
    by (cases "FetchReference g ref c") (auto simp: PullChartToCache_def split: if_splits)
  with assms obtain st where st: "err = None" "ociStore c1 = Some st"
    by (cases err; cases "ociStore c1") (auto simp: PullChartToCache_def split: if_splits)
  obtain st' pulled where p: "oras_Pull g (FullName ref) KnownMediaTypes st = (st', pulled)" by fastforce
  let ?c = "(Fprintf (ref_Tag ref @ '': Pulling from '' @ Repo ref @ lf) c1)\<lparr>ociStore := Some st'\<rparr>"
  from assms f st p obtain m where m: "pulled = Inr m"
    by (cases pulled) (auto simp: PullChartToCache_def split: if_splits)
  obtain c2 err' where "AddManifest g ref m ?c = (c2, err')" by fastforce
  with assms f st p m have "finish_pull g ref ex c2 = Some (c', None)"
    by (cases err') (auto simp: PullChartToCache_def split: if_splits)
  then show ?thesis by blast
qed

text \<open>
  C24: a chart that was pulled can be loaded: after a pull without an error the cache returns a chart for
  the reference, whatever the store and the registry do.
\<close>

theorem pulled_chart_loads:
  assumes "PullChartToCache g ref c = Some (c', None)"
  shows "\<exists>c'' ch. LoadChart g ref c' = Some (c'', Inr ch)"
proof -
  from PullChartToCache_ok [OF assms] obtain existing c1 where "finish_pull g ref existing c1 = Some (c', None)" by blast
  from finish_pull_ok [OF this] obtain c2 r c3 where f: "FetchReference g ref c1 = Some (c2, Some r, None)"
    and ex: "s_Exists r" and p: "printCacheRefSummary g r c2 = Some c3" and "ociStore c' = ociStore c3" by blast
  from FetchReference_Some [OF f] obtain st where st: "ociStore c2 = Some st" "lookup_ref g st ref = Some (r, None)" by blast
  have "ociStore c' = Some st" using p st \<open>ociStore c' = ociStore c3\<close> by (auto elim!: print_output)
  then show ?thesis using LoadChart_found [OF _ st(2) ex p] by blast
qed

text \<open>A cached entry that cannot be read stops every pull of the reference before the registry is asked.\<close>

lemma broken_entry_blocks_pull:
  "ref_Tag ref \<noteq> [] \<Longrightarrow> FetchReference g ref c = Some (c', r, Some err) \<Longrightarrow> PullChartToCache g ref c = Some (c', Some err)"
  by (simp add: PullChartToCache_def)

section \<open>Saving and removing, on a store that keeps its promises\<close>

text \<open>
  What the store and the encoders promise: content committed under its digest can be read by a
  descriptor with that digest and length, nothing committed is lost, an added reference is the only
  one of its name, a deleted one is gone, the index only writes what is there, and the encoders of
  manifests and charts can be read back.
\<close>

definition readable :: "('st, 'w) registry \<Rightarrow> 'st \<Rightarrow> Descriptor \<Rightarrow> string \<Rightarrow> bool" where
  "readable g st desc b \<longleftrightarrow>
     o_ReaderAt g st desc = None \<and> 0 \<le> d_Size desc \<and> o_ReadAt g st desc (nat (d_Size desc)) = Inr b"

definition blob_desc :: "('st, 'w) registry \<Rightarrow> string \<Rightarrow> Descriptor \<Rightarrow> bool" where
  "blob_desc g b desc \<longleftrightarrow> d_Digest desc = FromBytes g b \<and> d_Size desc = int (length b)"

definition keeps :: "('st, 'w) registry \<Rightarrow> 'st \<Rightarrow> 'st \<Rightarrow> bool" where
  "keeps g st st' \<longleftrightarrow>
     (\<forall>desc b. readable g st desc b \<longrightarrow> readable g st' desc b) \<and> (\<forall>dg i. o_Info g st dg = Inr i \<longrightarrow> o_Info g st' dg = Inr i)"

definition commit_law :: "('st, 'w) registry \<Rightarrow> bool" where
  "commit_law g \<longleftrightarrow>
     (\<forall>st b w w' st' e. o_Writer g st (FromBytes g b) = Inr w \<longrightarrow> o_Write g w b = (w', None) \<longrightarrow> o_Commit g w' st = (st', e)
        \<longrightarrow> keeps g st st' \<and> (e = None \<or> e = Some AlreadyStored \<longrightarrow> (\<forall>desc. blob_desc g b desc \<longrightarrow> readable g st' desc b)))"

definition index_law :: "('st, 'w) registry \<Rightarrow> bool" where
  "index_law g \<longleftrightarrow>
     (\<forall>n desc st. keeps g st (o_Add g n desc st)
        \<and> (\<exists>x. filter (\<lambda>x. ref_name x = n) (o_List g (o_Add g n desc st)) = [x] \<and> d_Digest x = d_Digest desc \<and> d_Size x = d_Size desc))
     \<and> (\<forall>n st. n \<notin> ref_name ` set (o_List g (o_Delete g n st)))
     \<and> (\<forall>st st' e. o_SaveIndex g st = (st', e) \<longrightarrow> keeps g st st' \<and> o_List g st' = o_List g st)"

definition encoder_law :: "('st, 'w) registry \<Rightarrow> bool" where
  "encoder_law g \<longleftrightarrow>
     (\<forall>m b. marshal_Manifest g m = Inr b \<longrightarrow> unmarshal_Manifest g b = Inr m)
     \<and> (\<forall>mt b. blob_desc g b (mem_Add g mt b) \<and> d_MediaType (mem_Add g mt b) = mt)
     \<and> (\<forall>ch b. chart_Save g ch = Inr b \<longrightarrow> b \<noteq> [] \<and> LoadArchive g b = Inr ch)"

lemma keeps_trans [trans]: "keeps g a b \<Longrightarrow> keeps g b c \<Longrightarrow> keeps g a c"
  by (simp add: keeps_def)

lemma storeBlob_ok:
  assumes "commit_law g" "storeBlob g b st = (st', ex, None)"
  shows "keeps g st st' \<and> (blob_desc g b desc \<longrightarrow> readable g st' desc b)"
proof -
  from assms(2) obtain w w' e where "o_Writer g st (FromBytes g b) = Inr w" "o_Write g w b = (w', None)" "o_Commit g w' st = (st', e)"
      "e = None \<or> e = Some AlreadyStored"
    by (auto simp: storeBlob_def split: sum.splits prod.splits option.splits commit_error.splits)
  with assms(1) show ?thesis unfolding commit_law_def by blast
qed

lemma readable_fetch: "readable g st desc b \<Longrightarrow> fetchBlob g st desc = Some (Inr b)"
  by (simp add: readable_def fetchBlob_def)

text \<open>What \<open>store_chart\<close> leaves in the store: a manifest whose only layer is the archive of the chart.\<close>

lemma store_chart_ok:
  assumes laws: "commit_law g" "encoder_law g" and s: "store_chart g ch st r = (st', r', None)"
  shows "\<exists>desc m mb l b info. s_Manifest r' = Some desc \<and> blob_desc g mb desc \<and> unmarshal_Manifest g mb = Inr m \<and> m_Layers m = [l]
    \<and> d_MediaType l = HelmChartContentLayerMediaType \<and> d_Size l \<noteq> 0 \<and> LoadArchive g b = Inr ch \<and> o_Info g st' (d_Digest l) = Inr info
    \<and> (\<forall>x. blob_desc g mb x \<longrightarrow> readable g st' x mb) \<and> readable g st' l b \<and> s_Size r' = i_Size info \<and> s_Chart r' = s_Chart r"
proof -
  from s obtain st1 config st2 l info where c: "saveChartConfig g ch st = (st1, Inr config)" and
      l: "saveChartContentLayer g ch st1 = (st2, Inr l)" and i: "o_Info g st2 (d_Digest l) = Inr info"
    by (auto simp: store_chart_def Let_def split: prod.splits sum.splits)
  with s obtain desc where m: "saveChartManifest g config l st2 = (st', Inr desc)" and r: "s_Manifest r' = Some desc"
      "s_Size r' = i_Size info" "s_Chart r' = s_Chart r"
    by (auto simp: store_chart_def Let_def split: prod.splits sum.splits)
  from l obtain b e1 where b: "chart_Save g ch = Inr b" "storeBlob g b st1 = (st2, e1, None)" "l = mem_Add g HelmChartContentLayerMediaType b"
    by (auto simp: saveChartContentLayer_def split: sum.splits prod.splits option.splits)
  from m obtain mb e2 where mb: "marshal_Manifest g \<lparr>m_SchemaVersion = 2, m_Config = config, m_Layers = [l]\<rparr> = Inr mb"
      "storeBlob g mb st2 = (st', e2, None)" "blob_desc g mb desc"
    by (auto simp: saveChartManifest_def blob_desc_def split: sum.splits prod.splits option.splits)
  have ld: "blob_desc g b l" "d_MediaType l = HelmChartContentLayerMediaType" "b \<noteq> []" "LoadArchive g b = Inr ch"
    using laws(2) b by (auto simp: encoder_law_def)
  have k: "keeps g st2 st'" "blob_desc g mb x \<longrightarrow> readable g st' x mb" for x using storeBlob_ok [OF laws(1) mb(2)] by blast+
  have "readable g st2 l b" using storeBlob_ok [OF laws(1) b(2)] ld by blast
  then have "readable g st' l b" "o_Info g st' (d_Digest l) = Inr info" using k(1) i by (auto simp: keeps_def)
  moreover have "unmarshal_Manifest g mb = Inr \<lparr>m_SchemaVersion = 2, m_Config = config, m_Layers = [l]\<rparr>"
    using laws(2) mb(1) by (simp add: encoder_law_def)
  moreover have "d_Size l \<noteq> 0" using ld by (auto simp: blob_desc_def)
  ultimately show ?thesis using r mb ld k(2) by fastforce
qed

text \<open>A reference with such a manifest is found, with the chart.\<close>

lemma lookup_stored:
  assumes "filter (\<lambda>x. ref_name x = FullName ref) (o_List g st) = [x]" "readable g st x mb" "unmarshal_Manifest g mb = Inr m"
    "m_Layers m = [l]" "d_MediaType l = HelmChartContentLayerMediaType" "d_Size l \<noteq> 0" "LoadArchive g b = Inr ch"
    "o_Info g st (d_Digest l) = Inr info" "readable g st l b"
  shows "\<exists>r. lookup_ref g st ref = Some (r, None) \<and> s_Exists r \<and> s_Chart r = Some ch \<and> s_Manifest r = Some x \<and> s_Size r = i_Size info"
proof -
  have "x \<in> set (filter (\<lambda>x. ref_name x = FullName ref) (o_List g st))" using assms(1) by simp
  then have "ref_name x = FullName ref" by simp
  then show ?thesis
    using assms(2-) fetch_loop_filter [of g st "new_summary ref" "o_List g st", symmetric] assms(1)
    by (auto simp: fetch_desc_def fetch_layer_def readable_fetch content_layer_def Let_def)
qed

lemma AddManifest_ok:
  assumes "index_law g" "ociStore c = Some st" "AddManifest g ref desc c = (c', None)"
  shows "\<exists>st' x. ociStore c' = Some st' \<and> keeps g st st' \<and> filter (\<lambda>x. ref_name x = FullName ref) (o_List g st') = [x]
    \<and> d_Digest x = d_Digest desc \<and> d_Size x = d_Size desc"
proof -
  obtain st' where s: "o_SaveIndex g (o_Add g (FullName ref) desc st) = (st', None)" "c' = c\<lparr>ociStore := Some st'\<rparr>"
    using assms(2,3) by (auto simp: AddManifest_def split: prod.splits)
  note save = assms(1) [unfolded index_law_def, THEN conjunct2, THEN conjunct2, rule_format, OF s(1)]
  note add = assms(1) [unfolded index_law_def, THEN conjunct1, rule_format, of st "FullName ref" desc]
  show ?thesis using add keeps_trans [OF conjunct1 [OF add] conjunct1 [OF save]] save s(2) by auto
qed

lemma StoreReference_ok:
  assumes "StoreReference g ref ch c = Some (c', ro, None)"
  shows "\<exists>st r0 st' r. ro = Some r \<and> store_chart g ch st r0 = (st', r, None) \<and> s_Chart r0 = Some ch \<and> ociStore c' = Some st'"
proof -
  from assms obtain st c0 where i: "init g c = Inr (st, c0)" by (auto simp: StoreReference_def split: sum.splits)
  with assms obtain c1 ex e where f: "FetchReference g ref c0 = Some (c1, Some ex, e)"
    by (auto simp: StoreReference_def bind_eq_Some_conv)
  let ?r = "(new_summary ref)\<lparr>s_Chart := Some ch, s_Exists := s_Exists ex\<rparr>"
  obtain st' r err where "store_chart g ch st ?r = (st', r, err)" by (rule prod_cases3)
  moreover have "s_Chart ?r = Some ch" by simp
  ultimately show ?thesis using assms i f by (fastforce simp: StoreReference_def)
qed

lemma SaveChart_steps:
  assumes "SaveChart g ch ref c = Some (c', None)"
  shows "\<exists>st r0 st' r desc c1 c2 c3. store_chart g ch st r0 = (st', r, None) \<and> s_Chart r0 = Some ch \<and> s_Manifest r = Some desc
    \<and> ociStore c1 = Some st' \<and> printCacheRefSummary g r c1 = Some c2 \<and> AddManifest g ref desc c2 = (c3, None)
    \<and> ociStore c' = ociStore c3"
proof -
  from assms obtain c1 ro err where sr: "StoreReference g ref ch c = Some (c1, ro, err)"
    by (cases "StoreReference g ref ch c") (auto simp: SaveChart_def)
  with assms obtain r c2 desc where r: "err = None" "ro = Some r" and p: "printCacheRefSummary g r c1 = Some c2" and m: "s_Manifest r = Some desc"
    by (cases err; cases ro) (auto simp: SaveChart_def bind_eq_Some_conv)
  obtain c3 err' where a: "AddManifest g ref desc c2 = (c3, err')" by fastforce
  have "err' = None \<and> ociStore c' = ociStore c3" using assms sr r p m a by (cases err') (auto simp: SaveChart_def)
  moreover from StoreReference_ok [of g ref ch c c1 ro] sr r obtain st r0 st' where
    "store_chart g ch st r0 = (st', r, None)" "s_Chart r0 = Some ch" "ociStore c1 = Some st'" by blast
  ultimately show ?thesis using p m a by blast
qed

text \<open>
  C23: a saved chart is loaded again: on a store that keeps its promises, \<open>SaveChart\<close> without an error makes
  \<open>LoadChart\<close> return the same chart for the reference.
\<close>

theorem saved_chart_loads:
  assumes laws: "commit_law g" "index_law g" "encoder_law g" and "SaveChart g ch ref c = Some (c', None)"
  shows "\<exists>c''. LoadChart g ref c' = Some (c'', Inr ch)"
proof -
  from SaveChart_steps [OF assms(4)] obtain st r0 st' r desc c1 c2 c3 where s: "store_chart g ch st r0 = (st', r, None)"
    and r: "s_Chart r0 = Some ch" "s_Manifest r = Some desc" and c1: "ociStore c1 = Some st'" and p: "printCacheRefSummary g r c1 = Some c2"
    and am: "AddManifest g ref desc c2 = (c3, None)" and c3: "ociStore c' = ociStore c3" by blast
  from store_chart_ok [OF laws(1,3) s] r(2) obtain m mb l b info where sc: "blob_desc g mb desc" "unmarshal_Manifest g mb = Inr m" "m_Layers m = [l]"
    "d_MediaType l = HelmChartContentLayerMediaType" "d_Size l \<noteq> 0" "LoadArchive g b = Inr ch" "o_Info g st' (d_Digest l) = Inr info"
    "\<forall>x. blob_desc g mb x \<longrightarrow> readable g st' x mb" "readable g st' l b" "s_Size r = i_Size info" "s_Chart r = s_Chart r0"
    by auto
  have "ociStore c2 = Some st'" using p c1 by (auto elim!: print_output)
  from AddManifest_ok [OF laws(2) this am] obtain st2 x where st2: "ociStore c3 = Some st2" "keeps g st' st2"
    "filter (\<lambda>x. ref_name x = FullName ref) (o_List g st2) = [x]" "d_Digest x = d_Digest desc" "d_Size x = d_Size desc" by blast
  have "readable g st2 x mb" "readable g st2 l b" "o_Info g st2 (d_Digest l) = Inr info"
    using sc st2 by (auto simp: keeps_def blob_desc_def)
  from lookup_stored [OF st2(3) this(1) sc(2-6) this(3,2)] obtain r2 where r2: "lookup_ref g st2 ref = Some (r2, None)" "s_Exists r2"
    "s_Chart r2 = Some ch" "s_Manifest r2 = Some x" "s_Size r2 = i_Size info" by blast
  have "\<exists>c3. printCacheRefSummary g r2 c1 = Some c3"
    using p r r2 sc(10,11) st2(4) by (auto simp: printCacheRefSummary_def split: bind_splits)
  then show ?thesis using LoadChart_found [OF _ r2(1,2), of c'] c3 st2(1) r2(3) by auto
qed

text \<open>
  a removed chart is gone: \<open>RemoveChart\<close> without an error makes \<open>LoadChart\<close> and a second \<open>RemoveChart\<close>
  fail with \<open>Chart not found\<close>.
\<close>

theorem removed_chart_is_gone:
  assumes "index_law g" "RemoveChart g ref c = Some (c', None)"
  shows "LoadChart g ref c' = Some (c', Inl (chart_not_found (FullName ref)))
    \<and> RemoveChart g ref c' = Some (c', Some (chart_not_found (FullName ref)))"
proof -
  from assms(2) obtain c1 ro err where d: "DeleteReference g ref c = Some (c1, ro, err)"
    by (cases "DeleteReference g ref c") (auto simp: RemoveChart_def)
  with assms(2) obtain r where r: "err = None" "ro = Some r" "s_Exists r" "ociStore c' = ociStore c1"
    by (cases err; cases ro) (auto simp: RemoveChart_def split: if_splits)
  from d r obtain st0 c0 where i: "init g c = Inr (st0, c0)" by (auto simp: DeleteReference_def split: sum.splits)
  with init_cases(2) have st0: "ociStore c0 = Some st0" by fastforce
  from d r i st0 obtain r1 where l: "lookup_ref g st0 ref = Some (r1, None)"
    by (cases "lookup_ref g st0 ref") (auto simp: DeleteReference_def FetchReference_open split: if_splits)
  obtain st e where sv: "o_SaveIndex g (o_Delete g (s_Name r1) st0) = (st, e)" by fastforce
  have c1: "ociStore c1 = Some st"
    using d r i l sv st0 by (auto simp: DeleteReference_def FetchReference_open split: if_splits)
  have "s_Name r1 = FullName ref" using fetch_loop_complete [OF l] by simp
  moreover have "o_List g st = o_List g (o_Delete g (s_Name r1) st0)" using assms(1) sv unfolding index_law_def by blast
  ultimately have "FullName ref \<notin> ref_name ` set (o_List g st)" using assms(1) unfolding index_law_def by metis
  then have "lookup_ref g st ref = Some (new_summary ref, None)" by (intro fetch_loop_no_name) simp
  then show ?thesis using r(4) c1
    by (simp add: LoadChart_def RemoveChart_def DeleteReference_def FetchReference_open)
qed

lemma refs_map_keys:
  "refs_map g rr m = Some m' \<Longrightarrow> distinct (map fst m) \<Longrightarrow> distinct (map fst m') \<and> fst ` set m' = fst ` set m \<union> s_Name ` set rr"
proof (induction rr arbitrary: m)
  case (Cons r rr)
  from Cons.prems(1) obtain row where "refs_map g rr (AList.update (s_Name r) row m) = Some m'"
    by (auto simp: bind_eq_Some_conv)
  from Cons.IH [OF this] Cons.prems(2) show ?case by (auto simp: distinct_update dom_update)
qed auto

text \<open>
  the table of charts has one row per name, in strictly increasing order of the names: those of the
  references the cache lists.
\<close>

theorem chart_table_sorted:
  assumes "getChartTableRows g c = Some (c', Inr rows)"
  shows "\<exists>rr. cache_ListReferences g c = Some (c', rr, None) \<and> sorted (map hd rows) \<and> distinct (map hd rows)
    \<and> hd ` set rows = s_Name ` set rr"
proof -
  from assms obtain rr m where l: "cache_ListReferences g c = Some (c', rr, None)" and m: "refs_map g rr [] = Some m"
    and rows: "rows = map (\<lambda>(key, ref). key # ref) (sort_key fst m)"
    by (auto simp: getChartTableRows_def bind_eq_Some_conv split: option.splits)
  have k: "map hd rows = map fst (sort_key fst m)" by (auto simp: rows)
  from refs_map_keys [OF m] have d: "distinct (map fst m)" "fst ` set m = s_Name ` set rr" by auto
  have "set (map hd rows) = fst ` set m" unfolding k by simp
  then have "hd ` set rows = s_Name ` set rr" using d(2) by simp
  then show ?thesis using l d(1) distinct_sort_key k by auto
qed

section \<open>A registry in memory\<close>

text \<open>
  A store that keeps the promises: blobs by content, references by name. It holds one chart, whose
  archive and manifest have fixed encodings; every other encoding is refused.
\<close>

type_synonym mem_store = "string list \<times> (string \<times> Descriptor) list"

definition hub_chart :: Chart where
  "hub_chart = \<lparr>ch_Name = ''litmus'', ch_Version = ''1'', ch_Type = [], ch_Files = []\<rparr>"

definition hub_desc :: "string \<Rightarrow> string \<Rightarrow> Descriptor" where
  "hub_desc mt b = \<lparr>d_MediaType = mt, d_Digest = ''sha256:'' @ b, d_Size = int (length b), d_Annotations = []\<rparr>"

definition hub_manifest :: Manifest where
  "hub_manifest = \<lparr>m_SchemaVersion = 2, m_Config = hub_desc HelmChartConfigMediaType ''meta'',
     m_Layers = [hub_desc HelmChartContentLayerMediaType ''archive'']\<rparr>"

definition mem_holds :: "mem_store \<Rightarrow> Descriptor \<Rightarrow> nat \<Rightarrow> bool" where
  "mem_holds st desc n \<longleftrightarrow> (\<exists>b \<in> set (fst st). d_Digest desc = ''sha256:'' @ b \<and> n = length b)"

definition hub :: "(mem_store, string) registry" where
  "hub = \<lparr>o_New = Inr ([], []),
     o_List = (\<lambda>st. map snd (snd st)),
     o_Add = (\<lambda>n desc st. (fst st, (n, desc\<lparr>d_Annotations := [(AnnotationRefName, n)]\<rparr>) # filter (\<lambda>x. ref_name (snd x) \<noteq> n) (snd st))),
     o_Delete = (\<lambda>n st. (fst st, filter (\<lambda>x. ref_name (snd x) \<noteq> n) (snd st))),
     o_SaveIndex = (\<lambda>st. (st, None)),
     o_Info = (\<lambda>st dg. Inr \<lparr>i_Digest = dg, i_Size = 7, i_CreatedAt = 0\<rparr>),
     o_ReaderAt = (\<lambda>st desc. None),
     o_ReadAt = (\<lambda>st desc n. if mem_holds st desc n then Inr (drop 7 (d_Digest desc)) else Inl ''EOF''),
     o_Writer = (\<lambda>st h. Inr []), o_Write = (\<lambda>w b. (w @ b, None)), o_Commit = (\<lambda>w st. ((w # fst st, snd st), None)), o_Close = (\<lambda>w. None),
     oras_Pull = (\<lambda>n mts st. ((''manifest'' # ''archive'' # fst st, snd st), Inr (hub_desc MediaTypeImageManifest ''manifest''))),
     oras_PullMemory = (\<lambda>n mts. Inr (m_Layers hub_manifest, \<lambda>desc. Some (drop 7 (d_Digest desc)))),
     oras_Push = (\<lambda>n st ls config. None),
     mem_Add = hub_desc,
     FromBytes = (\<lambda>b. ''sha256:'' @ b), Hex = (\<lambda>dg. Some (drop 7 dg)),
     marshal_Metadata = (\<lambda>ch. Inr ''meta''),
     marshal_Manifest = (\<lambda>m. if m = hub_manifest then Inr ''manifest'' else Inl ''no''),
     unmarshal_Manifest = (\<lambda>b. if b = ''manifest'' then Inr hub_manifest else Inl ''no''),
     LoadArchive = (\<lambda>b. if b = ''archive'' then Inr hub_chart else Inl ''no''),
     chart_Save = (\<lambda>ch. if ch = hub_chart then Inr ''archive'' else Inl ''no''),
     HumanAge = (\<lambda>t. ''now''), render_table = concat \<circ> concat, auth_Login = (\<lambda>h u p i. None), auth_Logout = (\<lambda>h. None)\<rparr>"

definition hub_ref :: Reference where "hub_ref = \<lparr>ref_Tag = ''v1'', Repo = ''hub/litmus''\<rparr>"

definition fresh_client :: "mem_store Client" where "fresh_client = \<lparr>ociStore = None, c_out = [], c_debug = False\<rparr>"

lemma hub_keeps: "set (fst st) \<subseteq> set (fst st') \<Longrightarrow> keeps hub st st'"
  by (auto simp: keeps_def readable_def hub_def mem_holds_def split: if_splits)

lemma hub_commit: "commit_law hub"
proof -
  have "readable hub (b # fst st, snd st) desc b" if "blob_desc hub b desc" for b st desc
    using that by (auto simp: readable_def blob_desc_def hub_def mem_holds_def)
  moreover have "keeps hub st (b # fst st, snd st)" for b st by (rule hub_keeps) auto
  ultimately show ?thesis by (auto simp: commit_law_def) (auto simp: hub_def)
qed

lemma hub_index: "index_law hub"
proof -
  have "ref_name (desc\<lparr>d_Annotations := [(AnnotationRefName, n)]\<rparr>) = n" for desc n by (simp add: ref_name_def gget_def)
  then show ?thesis by (auto simp: index_law_def intro!: hub_keeps) (auto simp: hub_def filter_map o_def)
qed

lemma hub_encoder: "encoder_law hub"
  by (auto simp: encoder_law_def hub_def blob_desc_def hub_desc_def split: if_splits)

lemmas hub_laws = hub_commit hub_index hub_encoder

lemma hub_runs:
  "\<exists>c1. PullChartToCache hub hub_ref fresh_client = Some (c1, None)"
  "\<exists>c1. SaveChart hub hub_chart hub_ref fresh_client = Some (c1, None)"
proof -
  have "map_option snd (PullChartToCache hub hub_ref fresh_client) = Some None" by code_simp
  then show "\<exists>c1. PullChartToCache hub hub_ref fresh_client = Some (c1, None)" by auto
  have "map_option snd (SaveChart hub hub_chart hub_ref fresh_client) = Some None" by code_simp
  then show "\<exists>c1. SaveChart hub hub_chart hub_ref fresh_client = Some (c1, None)" by auto
qed

lemma pulled_chart_loads_witness:
  "\<exists>c1 c2 ch. PullChartToCache hub hub_ref fresh_client = Some (c1, None) \<and> LoadChart hub hub_ref c1 = Some (c2, Inr ch)"
  using hub_runs(1) pulled_chart_loads [of hub hub_ref fresh_client] by blast

lemma saved_chart_loads_witness:
  "\<exists>c1 c2. SaveChart hub hub_chart hub_ref fresh_client = Some (c1, None) \<and> LoadChart hub hub_ref c1 = Some (c2, Inr hub_chart)"
  using hub_runs(2) saved_chart_loads [OF hub_laws, of hub_chart hub_ref fresh_client] by blast

definition hub_client :: "mem_store Client" where
  "hub_client = \<lparr>ociStore = Some ([''manifest'', ''archive''],
     [(''hub/litmus:v1'', (hub_desc MediaTypeImageManifest ''manifest'')\<lparr>d_Annotations := [(AnnotationRefName, ''hub/litmus:v1'')]\<rparr>)]),
     c_out = [], c_debug = False\<rparr>"

lemma removed_chart_is_gone_witness:
  "\<exists>c1. RemoveChart hub hub_ref hub_client = Some (c1, None)
    \<and> LoadChart hub hub_ref c1 = Some (c1, Inl (chart_not_found (FullName hub_ref)))"
proof -
  have "map_option snd (RemoveChart hub hub_ref hub_client) = Some None" by code_simp
  then obtain c1 where "RemoveChart hub hub_ref hub_client = Some (c1, None)" by auto
  with removed_chart_is_gone [OF hub_index this] show ?thesis by blast
qed

lemma chart_table_sorted_witness:
  "\<exists>c1 rows. getChartTableRows hub hub_client = Some (c1, Inr rows) \<and> map hd rows = [''hub/litmus:v1''] \<and> sorted (map hd rows)"
proof -
  have "map_option (map_sum id (map hd) \<circ> snd) (getChartTableRows hub hub_client) = Some (Inr [''hub/litmus:v1''])" by code_simp
  then obtain c1 rows where r: "getChartTableRows hub hub_client = Some (c1, Inr rows)" "map hd rows = [''hub/litmus:v1'']"
    by (cases "getChartTableRows hub hub_client"; cases "snd (the (getChartTableRows hub hub_client))") auto
  have "sorted (map hd rows)" using chart_table_sorted [OF r(1)] by (elim exE conjE)
  with r show ?thesis by (intro exI conjI)
qed

end
