(* ===== verification/Agent_Web.thy ===== *)
theory Agent_Web
  imports Agent_Chaosblade
begin

text \<open>
  Packages \<open>web\<close>, \<open>web/api\<close>, \<open>web/server\<close> and the small handlers of \<open>web/handler\<close>: decoding a request,
  the check of the interceptors before any handler runs, the registration of the handlers, and the
  HTTP front end. A handler is a function of its state and the request.
\<close>

type_synonym 's ApiHandler = "'s \<Rightarrow> Request \<Rightarrow> ('s \<times> Response) run"

section \<open>The request handler\<close>

record 's ServerRequestHandler =
  Interceptor :: requestInterceptorChain
  Handler :: "'s ApiHandler"
  ctxDone :: bool

text \<open>\<open>NewServerRequestHandler\<close>: a nil handler gives a nil pointer.\<close>

definition NewServerRequestHandler :: "'s ApiHandler option \<Rightarrow> 's ServerRequestHandler option" where
  "NewServerRequestHandler handler =
     (case handler of
        None \<Rightarrow> None
      | Some h \<Rightarrow> Some \<lparr>Interceptor = BuildInterceptor, Handler = h, ctxDone = False\<rparr>)"

definition marshal_response :: "Response \<Rightarrow> string" where
  "marshal_response r = json_print (json_of_response r)"

text \<open>
  \<open>ServerRequestHandler.Handle\<close> on the body of a request: the state afterwards and the answer or the
  error (a fixed text for that of the decoder). A nil receiver panics.
\<close>

definition Server_Handle ::
  "keystore \<Rightarrow> 's ServerRequestHandler option \<Rightarrow> string \<Rightarrow> 's \<Rightarrow> ('s \<times> (string + string)) run" where
  "Server_Handle ks handler request s =
     (case handler of
        None \<Rightarrow> Panic
      | Some h \<Rightarrow>
          if ctxDone h then Ret (s, Inr (marshal_response (ReturnFail HandlerClosed [])))
          else (case unmarshal_request request of
            (req, False) \<Rightarrow> Ret (s, Inl ''invalid request'')
          | (req, True) \<Rightarrow>
              (case Handle ks (Interceptor h) req of
                 Some response \<Rightarrow> Ret (s, Inr (marshal_response response))
               | None \<Rightarrow> run_bind (Handler h s req) (\<lambda>(s', response). Ret (s', Inr (marshal_response response))))))"

section \<open>Servers\<close>

type_synonym 's Handlers = "(string \<times> 's ServerRequestHandler option) list"

text \<open>\<open>GatewayServer.RegisterHandler\<close>: blank names and nil handlers are refused, the first one stays.\<close>

definition Gateway_RegisterHandler ::
  "string \<Rightarrow> 's ServerRequestHandler option option \<Rightarrow> 's Handlers \<Rightarrow> 's Handlers \<times> string option" where
  "Gateway_RegisterHandler handlerName handler hs =
     (if handlerName = [] then (hs, Some ''handlerName can not be blank'')
      else (case handler of
              None \<Rightarrow> (hs, Some ''handler can not be null'')
            | Some h \<Rightarrow>
                if map_of hs handlerName \<noteq> None then (hs, None)
                else (hs @ [(handlerName, h)], None)))"

text \<open>
  \<open>HttpServer.RegisterHandler\<close>: the mux panics on a pattern it already has. A nil pointer in the
  interface is registered like any other value.
\<close>

definition Http_RegisterHandler :: "string \<Rightarrow> 's ServerRequestHandler option \<Rightarrow> 's Handlers \<Rightarrow> ('s Handlers \<times> string option) go" where
  "Http_RegisterHandler handlerName handler hs =
     (if map_of hs (''/'' @ handlerName) \<noteq> None then None
      else Some (hs @ [(''/'' @ handlerName, handler)], None))"

text \<open>
  The function behind a pattern: \<open>form\<close> is what \<open>ParseForm\<close> leaves, \<^const>\<open>None\<close> where it fails. The
  answer is the body that is written; nothing is written after a form error.
\<close>

definition Http_serve ::
  "keystore \<Rightarrow> string \<Rightarrow> 's ServerRequestHandler option \<Rightarrow> (string \<times> string list) list option \<Rightarrow> 's \<Rightarrow> ('s \<times> string option) run" where
  "Http_serve ks handlerName handler form s =
     (case form of
        None \<Rightarrow> Ret (s, None)
      | Some vs \<Rightarrow>
          (case map_of vs ''body'' of
             None \<Rightarrow> Panic
           | Some [] \<Rightarrow> Panic
           | Some (b # bs) \<Rightarrow>
               run_bind (Server_Handle ks handler b s) (\<lambda>(s', r).
                 (case r of
                    Inl err \<Rightarrow> Ret (s', Some (''handle '' @ handlerName @ '' request err, '' @ err))
                  | Inr result \<Rightarrow> Ret (s', Some result)))))"

text \<open>\<open>API.Register\<close>: the handlers in order, up to the first error.\<close>

fun register_all :: "(string \<times> 's ServerRequestHandler option) list \<Rightarrow> 's Handlers \<Rightarrow> ('s Handlers \<times> string option) go" where
  "register_all [] hs = Some (hs, None)"
| "register_all ((n, h) # rest) hs =
     (case Http_RegisterHandler n h hs of
        None \<Rightarrow> None
      | Some (hs', Some err) \<Rightarrow> Some (hs', Some err)
      | Some (hs', None) \<Rightarrow> register_all rest hs')"

record 's api_handlers =
  h_chaosblade :: "'s ApiHandler option"
  h_ping :: "'s ApiHandler option"
  h_uninstall :: "'s ApiHandler option"
  h_update :: "'s ApiHandler option"
  h_litmus :: "'s ApiHandler option"
  h_installLitmus :: "'s ApiHandler option"
  h_uninstallLitmus :: "'s ApiHandler option"

definition Register :: "'s api_handlers \<Rightarrow> 's Handlers \<Rightarrow> ('s Handlers \<times> string option) go" where
  "Register hs mux =
     register_all
       [(''chaosblade'', NewServerRequestHandler (h_chaosblade hs)),
        (''ping'', NewServerRequestHandler (h_ping hs)),
        (''uninstall'', NewServerRequestHandler (h_uninstall hs)),
        (''updateApplication'', NewServerRequestHandler (h_update hs)),
        (''litmuschaos'', NewServerRequestHandler (h_litmus hs)),
        (''installLitmus'', NewServerRequestHandler (h_installLitmus hs)),
        (''uninstallLitmus'', NewServerRequestHandler (h_uninstallLitmus hs))] mux"

section \<open>The small handlers\<close>

definition ping_Handle :: "'s ApiHandler" where
  "ping_Handle s request = Ret (s, ReturnSuccess)"

text \<open>\<open>UninstallInstallHandler.Handle\<close>; the directory of the program is an argument.\<close>

definition uninstall_Handle :: "world \<Rightarrow> string option \<Rightarrow> 's ApiHandler" where
  "uninstall_Handle w dir s request =
     (let ctlPath = CtlPathFunc (wfs w) dir in
      if ctlPath = [] \<or> \<not> IsExist (wfs w) ctlPath then Ret (s, ReturnFail CtlFileNotFound [ctlPath])
      else (case ExecScript (goos w) (sh w) (wfs w) Background ctlPath ''uninstall'' of
              (out, errMsg, ok) \<Rightarrow>
                if \<not> ok \<or> errMsg \<noteq> [] then Ret (s, ReturnFail CtlExecFailed [errMsg])
                else Ret (s, ReturnSuccess)))"

definition update_Handle :: "map_order \<Rightarrow> string \<Rightarrow> agent ApiHandler" where
  "update_Handle ord appFile a request =
     (let appInstance = gget (Params request) AppInstanceKeyName;
          appGroup = gget (Params request) AppGroupKeyName;
          o1 = (if appInstance \<noteq> [] then (opts a)\<lparr>ApplicationInstance := appInstance\<rparr> else opts a);
          o2 = (if appGroup \<noteq> [] then o1\<lparr>ApplicationGroup := appGroup\<rparr> else o1)
      in case RecordApplicationToFile ord appFile (files a) (ApplicationInstance o2) (ApplicationGroup o2) True of
           (w, Some err) \<Rightarrow>
             Ret (a\<lparr>opts := o2, files := w\<rparr>, ReturnFail ServerError [''record application info to local file failed''])
         | (w, None) \<Rightarrow> Ret (a\<lparr>opts := o2, files := w\<rparr>, ReturnSuccess))"

section \<open>Only authenticated requests act\<close>

text \<open>
  C2: only authenticated requests are run: the handler runs, and its state and response are the outcome, exactly
  for a body that decodes to a request with a numeric time stamp, no foreign access key, and the signature of
  its signed data under the agent's secret. A body that is no request is answered with an error and any other
  request with a refusal; state and handler have no part in that outcome, so the state stays as it is and
  no handler, not even one that panics, makes a difference.
\<close>

theorem only_authenticated_requests_act:
  "case unmarshal_request body of
     (req, True) \<Rightarrow>
       if snd (ParseInt (gget (Params req) TimestampKey)) = None
         \<and> (gget (Headers req) AccessKey = [] \<or> gget (Headers req) AccessKey = GetAccessKey ks)
         \<and> gget (Headers req) SignKey = Sign ks (sign_data req)
       then \<forall>(h :: 's ApiHandler) s. Server_Handle ks (NewServerRequestHandler (Some h)) body s
              = run_bind (h s req) (\<lambda>(s', resp). Ret (s', Inr (marshal_response resp)))
       else \<exists>resp. \<not> Success resp \<and> Code resp \<in> {InvalidTimestamp, Forbidden}
              \<and> (\<forall>(h :: 's ApiHandler) s. Server_Handle ks (NewServerRequestHandler (Some h)) body s = Ret (s, Inr (marshal_response resp)))
   | (req, False) \<Rightarrow> \<forall>(h :: 's ApiHandler) s. Server_Handle ks (NewServerRequestHandler (Some h)) body s = Ret (s, Inl ''invalid request'')"
proof -
  obtain req ok where u: "unmarshal_request body = (req, ok)" by fastforce
  have run: "Server_Handle ks (NewServerRequestHandler (Some h)) body s =
      (if ok then case Handle ks BuildInterceptor req of
           Some resp \<Rightarrow> Ret (s, Inr (marshal_response resp))
         | None \<Rightarrow> run_bind (h s req) (\<lambda>(s', resp). Ret (s', Inr (marshal_response resp)))
       else Ret (s, Inl ''invalid request''))" for h :: "'s ApiHandler" and s
    using u by (simp add: Server_Handle_def NewServerRequestHandler_def split: option.split)
  show ?thesis
  proof (cases "Handle ks BuildInterceptor req")
    case None
    then show ?thesis using u run Handle_None_iff [of ks req, THEN iffD1, OF None] by (cases ok) simp_all
  next
    case (Some resp)
    then have "\<not> (snd (ParseInt (gget (Params req) TimestampKey)) = None
         \<and> (gget (Headers req) AccessKey = [] \<or> gget (Headers req) AccessKey = GetAccessKey ks)
         \<and> gget (Headers req) SignKey = Sign ks (sign_data req))"
      using Handle_None_iff [of ks req] Sign_not_Nil [of ks "sign_data req"] by auto
    then show ?thesis using u run Some Handle_refusal [OF Some] by (cases ok) auto
  qed
qed

lemma Server_Handle_accepted:
  assumes "unmarshal_request body = (req, True)" "Handle ks BuildInterceptor req = None" "h s req = Ret (s', resp)"
  shows "Server_Handle ks (NewServerRequestHandler (Some h)) body s = Ret (s', Inr (marshal_response resp))"
  using assms by (simp add: Server_Handle_def NewServerRequestHandler_def)

text \<open>The body of a signed sample request.\<close>

lemma sample_signed_ok:
  "request_ok (sample_signed ks [])"
proof -
  have "valid_utf8 ''1''" "valid_utf8 SignKey" "valid_utf8 TimestampKey"
    by (auto intro!: valid_utf8_ascii simp: header_consts)
  then show ?thesis
    using valid_utf8_Sign by (auto simp: sample_signed_def request_ok_def gomap_ok_def gomap_utf8_def)
qed

lemma sample_body:
  "unmarshal_request (json_print (json_of_request (sample_signed ks []))) = (sort_request (sample_signed ks []), True)"
  "Handle ks BuildInterceptor (sort_request (sample_signed ks [])) = None"
  using unmarshal_json_of_request [OF sample_signed_ok] Handle_sort [OF sample_signed_ok]
    sample_signed_accepted(1) [of "[]" ks] by simp_all

section \<open>Answers\<close>

lemma ReturnFail_fits: "- (2 ^ 31) \<le> c \<Longrightarrow> c < 2 ^ 31 \<Longrightarrow> response_fits (ReturnFail c args)"
  by (simp add: response_fits_def ReturnFail_def max_depth_def)

lemma ReturnSuccess_fits: "response_fits ReturnSuccess"
  using ReturnSuccess_ok response_ok_fits by blast

lemma Handle_fits: "Handle ks ch req = Some resp \<Longrightarrow> response_fits resp"
proof (induction ks ch req rule: Handle.induct)
  case (1 ks d rest req)
  then show ?case
    by (cases d) (auto simp: Let_def code_consts intro!: ReturnFail_fits split: if_splits option.splits)
qed

text \<open>
  C18: every answer has the type of a response: whatever bytes a request holds and whatever bytes a handler puts
  into its texts, the body that is written decodes to a response at the other end (bytes that are no text
  are replaced), and the only other outcome is the error for a body that is no request; this holds for
  each handler whose results are text or integers, as the handlers of ping, uninstall and update are.
\<close>

theorem server_answers_decode:
  assumes "\<And>s req s' resp. h s req = Ret (s', resp) \<Longrightarrow> response_fits resp"
    and "Server_Handle ks (NewServerRequestHandler (Some h)) body s = Ret (s', out)"
  shows "case out of
      Inl err \<Rightarrow> s' = s \<and> \<not> snd (unmarshal_request body)
    | Inr text \<Rightarrow> \<exists>resp. unmarshal_response text = (clean_response resp, True) \<and> response_fits resp"
proof -
  obtain req ok where u: "unmarshal_request body = (req, ok)" by fastforce
  have d: "\<exists>r. unmarshal_response (marshal_response resp) = (clean_response r, True) \<and> response_fits r" if "response_fits resp" for resp
    using unmarshal_clean_response that by (auto simp: unmarshal_response_def marshal_response_def)
  show ?thesis
  proof (cases "Handle ks BuildInterceptor req")
    case None
    with u assms(2) show ?thesis using assms(1) d
      by (cases ok) (auto simp: Server_Handle_def NewServerRequestHandler_def)
  next
    case (Some resp)
    with u assms(2) show ?thesis using Handle_fits [OF Some] d
      by (cases ok) (auto simp: Server_Handle_def NewServerRequestHandler_def)
  qed
qed

lemma uninstall_Handle_fits: "uninstall_Handle w dir s req = Ret (s', resp) \<Longrightarrow> response_fits resp"
  by (auto simp: uninstall_Handle_def Let_def code_consts ReturnSuccess_fits intro!: ReturnFail_fits split: if_splits prod.splits)

lemma update_Handle_fits: "update_Handle ord appFile a req = Ret (a', resp) \<Longrightarrow> response_fits resp"
  by (auto simp: update_Handle_def Let_def code_consts ReturnSuccess_fits intro!: ReturnFail_fits split: prod.splits option.splits)

lemma uninstall_Handle_Ret: "\<exists>resp. uninstall_Handle w dir s req = Ret (s, resp)"
  by (auto simp: uninstall_Handle_def Let_def split: prod.splits)

theorem server_answers_decode_witness:
  "\<exists>text resp. Server_Handle \<lparr>localAccessKey = ''a'', localSecureKey = ''s''\<rparr>
      (NewServerRequestHandler (Some (uninstall_Handle (sample_world ReturnSuccess) None)))
      (json_print (json_of_request (sample_signed \<lparr>localAccessKey = ''a'', localSecureKey = ''s''\<rparr> []))) (0 :: nat) = Ret (0, Inr text)
    \<and> unmarshal_response text = (clean_response resp, True)"
proof -
  let ?h = "uninstall_Handle (sample_world ReturnSuccess) None :: nat ApiHandler"
  let ?ks = "\<lparr>localAccessKey = ''a'', localSecureKey = ''s''\<rparr>"
  obtain r where "?h 0 (sort_request (sample_signed ?ks [])) = Ret (0, r)"
    by (rule exE [OF uninstall_Handle_Ret]) (rule that)
  then have a: "Server_Handle ?ks (NewServerRequestHandler (Some ?h)) (json_print (json_of_request (sample_signed ?ks []))) 0
      = Ret (0, Inr (marshal_response r))" by (rule Server_Handle_accepted [OF sample_body])
  have "case (Inr (marshal_response r) :: string + string) of
      Inl err \<Rightarrow> (0 :: nat) = 0 \<and> \<not> snd (unmarshal_request (json_print (json_of_request (sample_signed ?ks []))))
    | Inr text \<Rightarrow> \<exists>resp. unmarshal_response text = (clean_response resp, True) \<and> response_fits resp"
    by (rule server_answers_decode [OF _ a]) (rule uninstall_Handle_fits)
  then obtain resp where "unmarshal_response (marshal_response r) = (clean_response resp, True)" by auto
  with a show ?thesis by blast
qed

section \<open>Registration of the handlers\<close>

text \<open>
  \<open>API.Register\<close> on an empty mux registers seven handlers under seven different patterns without a
  panic or an error; registering them a second time panics.
\<close>

theorem Register_all_handlers:
  "\<exists>mux. Register hs [] = Some (mux, None)
     \<and> map fst mux = [''/chaosblade'', ''/ping'', ''/uninstall'', ''/updateApplication'', ''/litmuschaos'', ''/installLitmus'', ''/uninstallLitmus'']
     \<and> Register hs mux = None"
  by (simp add: Register_def Http_RegisterHandler_def)

text \<open>A request without a \<open>body\<close> field panics before it is decoded.\<close>

lemma Http_serve_no_body: "map_of vs ''body'' = None \<Longrightarrow> Http_serve ks n h (Some vs) s = Panic"
  by (simp add: Http_serve_def)

section \<open>Updating the application\<close>

text \<open>
  an update of the application that succeeds is what a later read of the application file returns,
  and the options of the running agent agree with it: a name the request gives replaces the old one,
  an absent or empty one keeps it.
\<close>

theorem update_application_persists:
  assumes "\<And>xs. mset (ord xs) = mset xs"
    and "open_error (files a) appFile = None" "\<And>l. write_error (files a) appFile l = None"
    and "inst = (if gget (Params req) AppInstanceKeyName = [] then ApplicationInstance (opts a) else gget (Params req) AppInstanceKeyName)"
    and "grp = (if gget (Params req) AppGroupKeyName = [] then ApplicationGroup (opts a) else gget (Params req) AppGroupKeyName)"
    and "line_clean inst" "line_clean grp"
  shows "\<exists>a'. update_Handle ord appFile a req = Ret (a', ReturnSuccess)
    \<and> ApplicationInstance (opts a') = inst \<and> ApplicationGroup (opts a') = grp
    \<and> ReadAppInfoFromFile (files a') appFile = Inr (inst, grp)"
proof -
  obtain w err where r: "RecordApplicationToFile ord appFile (files a) inst grp True = (w, err)" by fastforce
  have "err = None \<and> ReadAppInfoFromFile w appFile = Inr (inst, grp)"
    by (rule application_file_roundtrip [OF assms(1-3,6,7) r])
  with r assms(4,5) show ?thesis by (auto simp: update_Handle_def Let_def)
qed

theorem update_application_persists_witness:
  "\<exists>a'. update_Handle rev ''/app'' sample_agent \<lparr>Headers = None, Params = Some [(AppInstanceKeyName, ''web 1'')]\<rparr> = Ret (a', ReturnSuccess)
     \<and> ReadAppInfoFromFile (files a') ''/app'' = Inr (''web 1'', ''chaos-default-app-group'')"
proof -
  let ?req = "\<lparr>Headers = None, Params = Some [(AppInstanceKeyName, ''web 1'')]\<rparr>"
  have c: "line_clean ''web 1''" "line_clean ''chaos-default-app-group''" by code_simp+
  have n: "AppInstanceKeyName \<noteq> AppGroupKeyName" by (simp add: AppInstanceKeyName_def AppGroupKeyName_def)
  have g: "gget (Params ?req) AppInstanceKeyName = ''web 1''" "gget (Params ?req) AppGroupKeyName = []"
    using n by (simp_all add: gget_def)
  have "\<exists>a'. update_Handle rev ''/app'' sample_agent ?req = Ret (a', ReturnSuccess)
    \<and> ApplicationInstance (opts a') = ''web 1'' \<and> ApplicationGroup (opts a') = ''chaos-default-app-group''
    \<and> ReadAppInfoFromFile (files a') ''/app'' = Inr (''web 1'', ''chaos-default-app-group'')"
    by (rule update_application_persists [OF _ _ _ _ _ c])
      (simp_all only: g, simp_all add: sample_agent_def plain_fs_def AddFlags_def DefaultApplicationGroup_def)
  then show ?thesis by blast
qed

end
