(* ===== verification/Agent_Litmus.thy ===== *)
theory Agent_Litmus
  imports Agent_Registry Agent_Web
begin

text \<open>
  The LitmusChaos handlers (\<open>web/handler/litmuschaos\<close>) and the Helm operations they use
  (\<open>pkg/helm3/helm.go\<close>): installing and removing the operator, preparing an experiment from the files
  of the hub, and creating and deleting chaos engines.

  The Kubernetes and Litmus clients, Helm's actions and the YAML decoders are fields of records, over
  an arbitrary cluster state and an arbitrary type of Kubernetes objects. The hub is a function from a
  URL to its answer.
\<close>

section \<open>Helm\<close>

record ('k, 'v) helm_api =
  MergeValues :: "string + 'v"
  strvals_ParseInto :: "string \<Rightarrow> 'v \<Rightarrow> string + 'v"
  install_Run :: "string \<Rightarrow> string \<Rightarrow> Chart \<Rightarrow> 'v \<Rightarrow> 'k \<Rightarrow> 'k \<times> string option"
  uninstall_Run :: "string \<Rightarrow> 'k \<Rightarrow> 'k \<times> string option"

record ('st, 'w, 'k, 'v) Helm =
  helmName :: string
  helmNamespace :: string
  helm_registry :: "('st, 'w) registry"
  helm_actions :: "('k, 'v) helm_api"

definition helm_PullChart :: "('st, 'w, 'k, 'v) Helm \<Rightarrow> string \<Rightarrow> 'st Client \<Rightarrow> ('st Client \<times> string option) go" where
  "helm_PullChart h chartUrl c =
     (case ParseReference chartUrl of
        Inl err \<Rightarrow> Some (c, Some (ref_error_text err))
      | Inr r \<Rightarrow> PullChartToCache (helm_registry h) r c)"

definition helm_LoadChart :: "('st, 'w, 'k, 'v) Helm \<Rightarrow> string \<Rightarrow> 'st Client \<Rightarrow> ('st Client \<times> (string + Chart)) go" where
  "helm_LoadChart h chartUrl c =
     (case ParseReference chartUrl of
        Inl err \<Rightarrow> Some (c, Inl (ref_error_text err))
      | Inr r \<Rightarrow> LoadChart (helm_registry h) r c)"

definition helm_Install :: "('st, 'w, 'k, 'v) Helm \<Rightarrow> Chart \<Rightarrow> (string \<times> string) list \<Rightarrow> 'k \<Rightarrow> 'k \<times> string option" where
  "helm_Install h charts args k =
     (case MergeValues (helm_actions h) of
        Inl err \<Rightarrow> (k, Some err)
      | Inr vals \<Rightarrow>
          (case strvals_ParseInto (helm_actions h) (gget (Some args) ''set'') vals of
             Inl err \<Rightarrow> (k, Some err)
           | Inr vals \<Rightarrow>
               (case isChartInstallable (ch_Type charts) of
                  (False, err) \<Rightarrow> (k, err)
                | (True, _) \<Rightarrow> install_Run (helm_actions h) (helmNamespace h) (helmName h) charts vals k)))"

definition helm_Uninstall :: "('st, 'w, 'k, 'v) Helm \<Rightarrow> 'k \<Rightarrow> 'k \<times> string option" where
  "helm_Uninstall h k = uninstall_Run (helm_actions h) (helmName h) k"

section \<open>State and constants\<close>

text \<open>
  The state the handlers share: the global options, the files of the host, the registry client, the
  cluster, and the goroutines started to watch a result (engine, namespace, experiment).
\<close>

record ('st, 'k) litmus_state =
  lt_opts :: Options
  lt_files :: fs
  lt_client :: "'st Client"
  lt_cluster :: 'k
  lt_jobs :: "(string \<times> string \<times> string) list"

definition LitmusHelmNamespace :: string where "LitmusHelmNamespace = ''chaos''"
definition LitmusHelmName :: string where "LitmusHelmName = ''litmuschaos''"
definition LITMUS_EXPERIMENT :: string where "LITMUS_EXPERIMENT = ''experiment''"
definition LITMUS_RBAC :: string where "LITMUS_RBAC = ''rbac''"
definition ENGINE_KIND :: string where "ENGINE_KIND = ''ChaosEngine''"
definition K8sKindClusterRole :: string where "K8sKindClusterRole = ''ClusterRole''"
definition LITMUS_CRD_VERSION :: string where "LITMUS_CRD_VERSION = ''litmuschaos.io/v1alpha1''"

definition getLitmusUrlByVersionAndEnv :: "Options \<Rightarrow> string \<Rightarrow> string" where
  "getLitmusUrlByVersionAndEnv o1 version = LitmusChartUrl o1 @ '':'' @ version"

section \<open>Installing and removing the operator\<close>

definition installLitmus ::
  "('st, 'w, 'k, 'v) Helm \<Rightarrow> string \<Rightarrow> (string \<times> string) list \<Rightarrow> ('st, 'k) litmus_state \<Rightarrow> (('st, 'k) litmus_state \<times> Response) run" where
  "installLitmus h version vals s =
     (let chartUrl = getLitmusUrlByVersionAndEnv (lt_opts s) version in
      run_bind (run_of_go (helm_PullChart h chartUrl (lt_client s))) (\<lambda>(c, err).
        let s = s\<lparr>lt_client := c\<rparr> in
        case err of
          Some e \<Rightarrow> Ret (s, ReturnFail Helm3ExecError [e])
        | None \<Rightarrow>
            run_bind (run_of_go (helm_LoadChart h chartUrl (lt_client s))) (\<lambda>(c, charts).
              let s = s\<lparr>lt_client := c\<rparr> in
              case charts of
                Inl e \<Rightarrow> Ret (s, ReturnFail Helm3ExecError [e])
              | Inr charts \<Rightarrow>
                  (let (k, err) = helm_Install h charts vals (lt_cluster s); s = s\<lparr>lt_cluster := k\<rparr> in
                   case err of
                     Some e \<Rightarrow> Ret (s, ReturnFail Helm3ExecError [e])
                   | None \<Rightarrow> Ret (s\<lparr>lt_opts := (lt_opts s)\<lparr>LitmusChaosVerison := version\<rparr>\<rparr>, ReturnSuccess)))))"

text \<open>
  \<open>InstallLitmusHandler.Handle\<close>. \<open>NewInstallLitmusHandler(nil)\<close> is a nil pointer, but as an \<open>ApiHandler\<close> it
  is not nil: it is registered, and its \<open>Helm\<close> field is read through the nil pointer.
\<close>

definition install_Handle :: "('st, 'w, 'k, 'v) Helm option \<Rightarrow> ('st, 'k) litmus_state ApiHandler" where
  "install_Handle helm s request =
     (case gfind (Params request) ''version'' of
        None \<Rightarrow> Ret (s, ReturnFail ParameterLess [''version''])
      | Some version \<Rightarrow>
          (case helm of None \<Rightarrow> Panic | Some h \<Rightarrow> installLitmus h version [(''namespace'', LitmusHelmNamespace)] s))"

definition uninstallLitmus :: "('st, 'w, 'k, 'v) Helm \<Rightarrow> ('st, 'k) litmus_state \<Rightarrow> ('st, 'k) litmus_state \<times> Response" where
  "uninstallLitmus h s =
     (let (k, err) = helm_Uninstall h (lt_cluster s); s = s\<lparr>lt_cluster := k\<rparr> in
      case err of
        Some e \<Rightarrow> (s, ReturnFail Helm3ExecError [e])
      | None \<Rightarrow> (s\<lparr>lt_opts := (lt_opts s)\<lparr>LitmusChaosVerison := []\<rparr>\<rparr>, ReturnSuccess))"

definition uninstall_litmus_Handle :: "('st, 'w, 'k, 'v) Helm option \<Rightarrow> ('st, 'k) litmus_state ApiHandler" where
  "uninstall_litmus_Handle helm s request = (case helm of None \<Rightarrow> Panic | Some h \<Rightarrow> Ret (uninstallLitmus h s))"

section \<open>Files of the hub\<close>

text \<open>
  An answer of the hub: the status and the body, or the error of reading it. \<open>os.Create\<close> makes an empty
  file where the file can be opened; its error is not looked at. The copy loop reads into a buffer of
  length zero, so it ends at once and the file stays empty; the body is returned to the caller.
\<close>

type_synonym hub_answers = "string \<Rightarrow> string + int \<times> (string + string)"

definition os_Create :: "fs \<Rightarrow> string \<Rightarrow> fs" where
  "os_Create w f = (case open_error w f of Some e \<Rightarrow> w | None \<Rightarrow> w\<lparr>content := (content w)(f \<mapsto> [])\<rparr>)"

definition litmus_path :: "string \<Rightarrow> string \<Rightarrow> string \<Rightarrow> string \<Rightarrow> string" where
  "litmus_path version experimentType experimentName objectType =
     version @ ''/'' @ experimentType @ ''/'' @ experimentName @ ''/'' @ objectType @ ''.yaml''"

definition litmus_url :: "string \<Rightarrow> string \<Rightarrow> string \<Rightarrow> string \<Rightarrow> string" where
  "litmus_url version experimentType experimentName objectType =
     ''https://hub.litmuschaos.io/api/chaos/'' @ version @ ''?file=charts/'' @ experimentType @ ''/'' @ experimentName
       @ ''/'' @ objectType @ ''.yaml''"

definition DownloadLitmus :: "hub_answers \<Rightarrow> string \<Rightarrow> string \<Rightarrow> string \<Rightarrow> string \<Rightarrow> fs \<Rightarrow> fs \<times> (string + string)" where
  "DownloadLitmus http version experimentType experimentName objectType w =
     (let f = litmus_path version experimentType experimentName objectType;
          url = litmus_url version experimentType experimentName objectType
      in if IsExist w f then (w, ReadFile w f)
         else (case http url of
                 Inl err \<Rightarrow> (w, Inl err)
               | Inr (status, body) \<Rightarrow>
                   if status \<noteq> 200
                   then (w, Inl (''download `'' @ url @ ''` failed! response code: '' @ Itoa status))
                   else (os_Create w f, body)))"

section \<open>Experiments\<close>

datatype api_error = NotFound string | AlreadyExists string | ApiError string

fun api_text :: "api_error \<Rightarrow> string" where
  "api_text (NotFound e) = e"
| "api_text (AlreadyExists e) = e"
| "api_text (ApiError e) = e"

record ChaosEngine =
  eng_Name :: string
  eng_Namespace :: string
  eng_Kind :: string
  eng_APIVersion :: string
  eng_AppKind :: string
  eng_Appns :: string
  eng_Applabel :: string
  eng_ServiceAccount :: string
  eng_JobCleanUpPolicy :: string
  eng_EngineState :: string
  eng_Experiment :: string
  eng_ENV :: "(string \<times> string) list"

text \<open>
  The clients of the handler, and the YAML decoders: objects are created from a pointer that may be
  nil, decoders give a pointer or an error (the decoder of the service account both, since the code uses the pointer after an error).
\<close>

record ('k, 'x) k8s =
  experiment_Create :: "string \<Rightarrow> 'x option \<Rightarrow> 'k \<Rightarrow> 'k \<times> api_error option"
  sa_Create :: "string \<Rightarrow> 'x option \<Rightarrow> 'k \<Rightarrow> 'k \<times> api_error option"
  role_Get :: "string \<Rightarrow> string \<Rightarrow> 'k \<Rightarrow> api_error option"
  role_Delete :: "string \<Rightarrow> string \<Rightarrow> 'k \<Rightarrow> 'k \<times> api_error option"
  role_Create :: "string \<Rightarrow> 'x \<Rightarrow> 'k \<Rightarrow> 'k \<times> api_error option"
  binding_Create :: "string \<Rightarrow> 'x option \<Rightarrow> 'k \<Rightarrow> 'k \<times> api_error option"
  clusterRole_Get :: "string \<Rightarrow> 'k \<Rightarrow> api_error option"
  clusterRole_Delete :: "string \<Rightarrow> 'k \<Rightarrow> 'k \<times> api_error option"
  clusterRole_Create :: "'x \<Rightarrow> 'k \<Rightarrow> 'k \<times> api_error option"
  clusterBinding_Create :: "'x option \<Rightarrow> 'k \<Rightarrow> 'k \<times> api_error option"
  engine_Create :: "string \<Rightarrow> ChaosEngine \<Rightarrow> 'k \<Rightarrow> 'k \<times> api_error option"
  engine_Delete :: "string \<Rightarrow> string \<Rightarrow> 'k \<Rightarrow> 'k \<times> api_error option"

record 'x yaml =
  decode_experiment :: "string \<Rightarrow> string + 'x option"
  decode_sa :: "string \<Rightarrow> 'x option \<times> string option"
  decode_role :: "string \<Rightarrow> string + 'x option"
  decode_clusterRole :: "string \<Rightarrow> string + 'x option"
  decode_binding :: "string \<Rightarrow> string + 'x option"
  decode_clusterBinding :: "string \<Rightarrow> string + 'x option"
  meta_Name :: "'x \<Rightarrow> string"
  meta_Kind :: "'x \<Rightarrow> string"

text \<open>\<open>strings.Split(s, "---")\<close> and \<open>strings.Trim(s, "\n")\<close>.\<close>

fun split_dashes :: "string \<Rightarrow> string list" where
  "split_dashes [] = [[]]"
| "split_dashes (c # cs) =
     (if take 3 (c # cs) = ''---'' then [] # split_dashes (drop 2 cs)
      else (case split_dashes cs of [] \<Rightarrow> [[c]] | p # ps \<Rightarrow> (c # p) # ps))"

definition trim_newlines :: "string \<Rightarrow> string" where
  "trim_newlines s = rev (dropWhile (\<lambda>c. c = CHR 0x0A) (rev (dropWhile (\<lambda>c. c = CHR 0x0A) s)))"

text \<open>An object that may be there already.\<close>

definition ignore_exists :: "api_error option \<Rightarrow> string option" where
  "ignore_exists err = (case err of None \<Rightarrow> None | Some (AlreadyExists e) \<Rightarrow> None | Some e \<Rightarrow> Some (api_text e))"

text \<open>
  \<open>createClusterRoleAndRoleBinding\<close> and \<open>createRoleAndRoleBinding\<close> do the same with different clients: an
  existing role is deleted and created anew, a binding that exists is kept.
\<close>

definition replace_role ::
  "('x \<Rightarrow> string) \<Rightarrow> (string \<Rightarrow> string + 'x option) \<Rightarrow> (string \<Rightarrow> 'k \<Rightarrow> api_error option) \<Rightarrow> (string \<Rightarrow> 'k \<Rightarrow> 'k \<times> api_error option)
    \<Rightarrow> ('x \<Rightarrow> 'k \<Rightarrow> 'k \<times> api_error option) \<Rightarrow> (string \<Rightarrow> string + 'x option) \<Rightarrow> ('x option \<Rightarrow> 'k \<Rightarrow> 'k \<times> api_error option)
    \<Rightarrow> string \<Rightarrow> string \<Rightarrow> 'k \<Rightarrow> ('k \<times> string option) go" where
  "replace_role name dec_role get del create dec_binding bind_create roleStr roleBindingStr k =
     (case dec_role roleStr of
        Inl err \<Rightarrow> Some (k, Some err)
      | Inr None \<Rightarrow> None
      | Inr (Some role) \<Rightarrow>
          (let (k, err) = (case get (name role) k of
                             Some (NotFound e) \<Rightarrow> (k, None)
                           | Some e \<Rightarrow> (k, Some e)
                           | None \<Rightarrow> del (name role) k)
           in case err of
                Some e \<Rightarrow> Some (k, Some (api_text e))
              | None \<Rightarrow>
                  (case create role k of
                     (k, Some e) \<Rightarrow> Some (k, Some (api_text e))
                   | (k, None) \<Rightarrow>
                       (case dec_binding roleBindingStr of
                          Inl err \<Rightarrow> Some (k, Some err)
                        | Inr binding \<Rightarrow>
                            (let (k, err) = bind_create binding k in Some (k, ignore_exists err))))))"

definition createClusterRoleAndRoleBinding :: "'x yaml \<Rightarrow> ('k, 'x) k8s \<Rightarrow> string \<Rightarrow> string \<Rightarrow> 'k \<Rightarrow> ('k \<times> string option) go" where
  "createClusterRoleAndRoleBinding y api roleStr roleBindingStr k =
     replace_role (meta_Name y) (decode_clusterRole y) (clusterRole_Get api) (clusterRole_Delete api) (clusterRole_Create api)
       (decode_clusterBinding y) (clusterBinding_Create api) roleStr roleBindingStr k"

definition createRoleAndRoleBinding :: "'x yaml \<Rightarrow> ('k, 'x) k8s \<Rightarrow> string \<Rightarrow> string \<Rightarrow> string \<Rightarrow> 'k \<Rightarrow> ('k \<times> string option) go" where
  "createRoleAndRoleBinding y api namespace roleStr roleBindingStr k =
     replace_role (meta_Name y) (decode_role y) (role_Get api namespace) (role_Delete api namespace) (role_Create api namespace)
       (decode_binding y) (binding_Create api namespace) roleStr roleBindingStr k"

text \<open>
  \<open>prepareLitmusExperiment\<close> and \<open>prepareLitmusRbac\<close>. A nil handler (\<open>None\<close>) panics where a client is used
  first. The file of the rights has its parts between \<open>---\<close>; the fourth is read once the third is
  decoded, though only three are asked for.
\<close>

definition prepareLitmusExperiment ::
  "'x yaml \<Rightarrow> ('k, 'x) k8s option \<Rightarrow> hub_answers \<Rightarrow> string \<Rightarrow> string \<Rightarrow> string \<Rightarrow> ('st, 'k) litmus_state \<Rightarrow> (('st, 'k) litmus_state \<times> string option) go" where
  "prepareLitmusExperiment y lh http experimentType experimentName namespace s =
     (let (w, result) = DownloadLitmus http (LitmusChaosVerison (lt_opts s)) experimentType experimentName LITMUS_EXPERIMENT (lt_files s);
          s = s\<lparr>lt_files := w\<rparr>
      in case result of
           Inl err \<Rightarrow> Some (s, Some err)
         | Inr text \<Rightarrow>
             (case decode_experiment y text of
                Inl err \<Rightarrow> Some (s, Some (''experiment Unmarshal err: '' @ err))
              | Inr expriment \<Rightarrow>
                  do {
                    api \<leftarrow> lh;
                    (let (k, err) = experiment_Create api namespace expriment (lt_cluster s)
                     in Some (s\<lparr>lt_cluster := k\<rparr>, ignore_exists err))
                  }))"

definition nth_panic :: "'a list \<Rightarrow> nat \<Rightarrow> 'a go" where
  "nth_panic xs i = (if i < length xs then Some (xs ! i) else None)"

definition apply_rbac :: "'x yaml \<Rightarrow> ('k, 'x) k8s \<Rightarrow> string \<Rightarrow> string list \<Rightarrow> 'k \<Rightarrow> ('k \<times> string option) go" where
  "apply_rbac y api namespace resArr k =
     do {
       saYaml \<leftarrow> nth_panic resArr 1;
       (let (k, err) = sa_Create api namespace (fst (decode_sa y (trim_newlines saYaml))) k
        in case ignore_exists err of
             Some e \<Rightarrow> Some (k, Some e)
           | None \<Rightarrow>
               do {
                 roleYaml \<leftarrow> nth_panic resArr 2;
                 (case decode_role y (trim_newlines roleYaml) of
                    Inl err \<Rightarrow> Some (k, Some err)
                  | Inr role \<Rightarrow>
                      do {
                        bindingYaml \<leftarrow> nth_panic resArr 3;
                        role \<leftarrow> role;
                        (if meta_Kind y role = K8sKindClusterRole
                         then createClusterRoleAndRoleBinding y api (trim_newlines roleYaml) (trim_newlines bindingYaml) k
                         else createRoleAndRoleBinding y api namespace (trim_newlines roleYaml) (trim_newlines bindingYaml) k)
                      })
               })
     }"

definition prepareLitmusRbac ::
  "'x yaml \<Rightarrow> ('k, 'x) k8s option \<Rightarrow> hub_answers \<Rightarrow> string \<Rightarrow> string \<Rightarrow> string \<Rightarrow> ('st, 'k) litmus_state \<Rightarrow> (('st, 'k) litmus_state \<times> string option) go" where
  "prepareLitmusRbac y lh http experimentType experimentName namespace s =
     (let (w, result) = DownloadLitmus http (LitmusChaosVerison (lt_opts s)) experimentType experimentName LITMUS_RBAC (lt_files s);
          s = s\<lparr>lt_files := w\<rparr>
      in case result of
           Inl err \<Rightarrow> Some (s, Some err)
         | Inr restr \<Rightarrow>
             if length (split_dashes restr) < 3 then Some (s, Some ''get rbac.yaml failed'')
             else do {
               api \<leftarrow> lh;
               (k, err) \<leftarrow> apply_rbac y api namespace (split_dashes restr) (lt_cluster s);
               Some (s\<lparr>lt_cluster := k\<rparr>, err)
             })"

text \<open>\<open>createEnginer\<close>; the maps are walked in the order \<open>ord\<close> gives.\<close>

definition map_entries :: "map_order \<Rightarrow> gomap \<Rightarrow> (string \<times> string) list" where
  "map_entries ord m = (case m of None \<Rightarrow> [] | Some al \<Rightarrow> ord al)"

definition componentEnv :: "map_order \<Rightarrow> gomap \<Rightarrow> (string \<times> string) list" where
  "componentEnv ord components = filter (\<lambda>(key, value). value \<noteq> []) (map_entries ord components)"

definition put_app :: "ChaosEngine \<Rightarrow> string \<times> string \<Rightarrow> ChaosEngine" where
  "put_app e kv =
     (case kv of (key, value) \<Rightarrow>
        if value = [] then e
        else if key = ''appkind'' then e\<lparr>eng_AppKind := value\<rparr>
        else if key = ''appns'' then e\<lparr>eng_Appns := value\<rparr>
        else if key = ''applabel'' then e\<lparr>eng_Applabel := value\<rparr>
        else e)"

definition chaosEnginer :: "map_order \<Rightarrow> string \<Rightarrow> string \<Rightarrow> string \<Rightarrow> gomap \<Rightarrow> gomap \<Rightarrow> ChaosEngine" where
  "chaosEnginer ord name namespace experimentName appInfo components =
     foldl put_app
       \<lparr>eng_Name = name, eng_Namespace = namespace, eng_Kind = ENGINE_KIND, eng_APIVersion = LITMUS_CRD_VERSION,
        eng_AppKind = [], eng_Appns = [], eng_Applabel = [], eng_ServiceAccount = experimentName @ ''-sa'',
        eng_JobCleanUpPolicy = ''delete'', eng_EngineState = ''active'', eng_Experiment = experimentName,
        eng_ENV = componentEnv ord components\<rparr>
       (map_entries ord appInfo)"

definition createEnginer ::
  "('k, 'x) k8s \<Rightarrow> map_order \<Rightarrow> string \<Rightarrow> string \<Rightarrow> string \<Rightarrow> gomap \<Rightarrow> gomap \<Rightarrow> 'k \<Rightarrow> 'k \<times> api_error option" where
  "createEnginer api ord name namespace experimentName appInfo components k =
     engine_Create api namespace (chaosEnginer ord name namespace experimentName appInfo components) k"

section \<open>The handler\<close>

definition fail_step :: "string \<Rightarrow> string \<Rightarrow> Response" where
  "fail_step what err = ReturnFail ServerError [''litmus '' @ what @ '' failed, err: '' @ err]"

definition createExec ::
  "'x yaml \<Rightarrow> ('k, 'x) k8s option \<Rightarrow> hub_answers \<Rightarrow> map_order \<Rightarrow> string \<Rightarrow> string \<Rightarrow> string \<Rightarrow> string \<Rightarrow> gomap \<Rightarrow> gomap
    \<Rightarrow> ('st, 'k) litmus_state \<Rightarrow> (('st, 'k) litmus_state \<times> Response) go" where
  "createExec y lh http ord experimentType experimentName namespace name appInfo components s =
     (if LitmusChaosVerison (lt_opts s) = []
      then Some (s, ReturnFail ServerError [''litmus operator not installed, please install first''])
      else do {
        (s, err) \<leftarrow> prepareLitmusExperiment y lh http experimentType experimentName namespace s;
        (case err of
           Some e \<Rightarrow> Some (s, fail_step ''prepare experiment'' e)
         | None \<Rightarrow>
             do {
               (s, err) \<leftarrow> prepareLitmusRbac y lh http experimentType experimentName namespace s;
               (case err of
                  Some e \<Rightarrow> Some (s, fail_step ''prepare rbac'' e)
                | None \<Rightarrow>
                    do {
                      api \<leftarrow> lh;
                      (case createEnginer api ord name namespace experimentName appInfo components (lt_cluster s) of
                         (k, Some e) \<Rightarrow> Some (s\<lparr>lt_cluster := k\<rparr>, fail_step ''create enginer'' (api_text e))
                       | (k, None) \<Rightarrow>
                           Some (s\<lparr>lt_cluster := k, lt_jobs := lt_jobs s @ [(name, namespace, experimentName)]\<rparr>, ReturnSuccess))
                    })
             })
      })"

definition unmarshal_string_map :: "string \<Rightarrow> gomap option" where
  "unmarshal_string_map text =
     (case json_parse text of
        None \<Rightarrow> None
      | Some v \<Rightarrow> (case decode_string_map None v of (m, True) \<Rightarrow> Some m | _ \<Rightarrow> None))"

definition namespace_of :: "Request \<Rightarrow> string" where
  "namespace_of request = (if gget (Params request) ''namespace'' = [] then ''default'' else gget (Params request) ''namespace'')"

text \<open>\<open>createParamerAndExec\<close>; \<open>name\<close> is the generated id. The later checks look at \<open>experimentType\<close> again.\<close>

definition createParamerAndExec ::
  "'x yaml \<Rightarrow> ('k, 'x) k8s option \<Rightarrow> hub_answers \<Rightarrow> map_order \<Rightarrow> string \<Rightarrow> Request \<Rightarrow> ('st, 'k) litmus_state \<Rightarrow> (('st, 'k) litmus_state \<times> Response) go" where
  "createParamerAndExec y lh http ord name request s =
     (let experimentType = gget (Params request) ''experimentType'';
          missing = (\<lambda>p. gfind (Params request) p = None \<or> experimentType = [])
      in if missing ''experimentType'' then Some (s, ReturnFail ParameterEmpty [''experimentType''])
         else if missing ''experimentName'' then Some (s, ReturnFail ParameterEmpty [''experimentName''])
         else if missing ''appInfo'' then Some (s, ReturnFail ParameterEmpty [''appInfo''])
         else (case unmarshal_string_map (gget (Params request) ''appInfo'') of
                 None \<Rightarrow> Some (s, ReturnFail ParameterTypeError [''appInfo''])
               | Some appInfo \<Rightarrow>
                   if missing ''components'' then Some (s, ReturnFail ParameterEmpty [''components''])
                   else (case unmarshal_string_map (gget (Params request) ''components'') of
                           None \<Rightarrow> Some (s, ReturnFail ParameterTypeError [''components''])
                         | Some components \<Rightarrow>
                             createExec y lh http ord experimentType (gget (Params request) ''experimentName'')
                               (namespace_of request) name appInfo components s)))"

definition destroyExec :: "('k, 'x) k8s option \<Rightarrow> string \<Rightarrow> string \<Rightarrow> ('st, 'k) litmus_state \<Rightarrow> (('st, 'k) litmus_state \<times> Response) go" where
  "destroyExec lh name namespace s =
     do {
       api \<leftarrow> lh;
       (case engine_Delete api namespace name (lt_cluster s) of
          (k, err) \<Rightarrow>
            Some (s\<lparr>lt_cluster := k\<rparr>,
              (case err of
                 None \<Rightarrow> ReturnSuccess
               | Some (NotFound _) \<Rightarrow> ReturnSuccess
               | Some e \<Rightarrow> fail_step ''destroy engine'' (api_text e))))
     }"

definition destroyParamerAndExec :: "('k, 'x) k8s option \<Rightarrow> Request \<Rightarrow> ('st, 'k) litmus_state \<Rightarrow> (('st, 'k) litmus_state \<times> Response) go" where
  "destroyParamerAndExec lh request s =
     (let name = gget (Params request) ''name'' in
      if name = [] then Some (s, ReturnFail ParameterEmpty [''name''])
      else destroyExec lh name (namespace_of request) s)"

definition litmus_Handle :: "'x yaml \<Rightarrow> ('k, 'x) k8s option \<Rightarrow> hub_answers \<Rightarrow> map_order \<Rightarrow> string \<Rightarrow> ('st, 'k) litmus_state ApiHandler" where
  "litmus_Handle y lh http ord name s request =
     (let chaosAction = gget (Params request) ''chaosAction'' in
      run_of_go
        (if CreateOperation chaosAction then createParamerAndExec y lh http ord name request s
         else if DestroyOperation chaosAction then destroyParamerAndExec lh request s
         else Some (s, ReturnFail ServerError [''litmus exec failed, no such action: '' @ chaosAction])))"

text \<open>
  The goroutine of a created engine: \<open>results i\<close> is the chaos result at the attempt \<open>i\<close> (the name of the
  engine and the number of failed runs), \<open>retry\<close> the library's loop over at most 90 attempts.
\<close>

definition attempt_error :: "(nat \<Rightarrow> string + string \<times> int) \<Rightarrow> nat \<Rightarrow> string option" where
  "attempt_error results i =
     (case results i of
        Inl err \<Rightarrow> Some err
      | Inr (engineName, failedRuns) \<Rightarrow>
          if engineName \<noteq> [] \<and> failedRuns = 0 then None else Some ''failed in chaos injection phase'')"

definition handlerResult :: "(string \<Rightarrow> string \<Rightarrow> 'r) \<Rightarrow> string \<Rightarrow> string \<Rightarrow> string \<Rightarrow> 'r" where
  "handlerResult get name namespace experimentName =
     (let chaosResultName = name @ ''-'' @ experimentName in get namespace chaosResultName)"

definition AsyncHandlerResultStatus ::
  "env \<Rightarrow> agent \<Rightarrow> (nat \<Rightarrow> (nat \<Rightarrow> string option) \<Rightarrow> string option) \<Rightarrow> (string \<Rightarrow> string \<Rightarrow> nat \<Rightarrow> string + string \<times> int)
    \<Rightarrow> string \<Rightarrow> string \<Rightarrow> string \<Rightarrow> (Request \<times> Response option \<times> string option) go" where
  "AsyncHandlerResultStatus e a retry get name namespace experimentName =
     (let err = retry 90 (attempt_error (handlerResult get name namespace experimentName)) in
      ReportStatus e a name (if err = None then ''Success'' else ''Error'')
        (case err of None \<Rightarrow> [] | Some x \<Rightarrow> ''inject fault failed, err: '' @ x) LitmusHelmName (uri_of a API_CHAOSBLADE_ASYNC))"

section \<open>Installing: correctness\<close>

lemmas run_simps = run_bind_Ret run_of_go_Ret

lemma Success_simps [simp]: "\<not> Success (ReturnFail c as)" "Success ReturnSuccess"
  by (simp_all add: ReturnFail_def ReturnSuccess_def)

lemma PullChartToCache_tag: "PullChartToCache g ref c = Some (c', None) \<Longrightarrow> ref_Tag ref \<noteq> []"
  by (cases "ref_Tag ref = []") (simp_all add: PullChartToCache_def)

lemma helm_PullChart_ok:
  "helm_PullChart h url c = Some (c', None) \<Longrightarrow>
     \<exists>ref. ParseReference url = Inr ref \<and> ref_Tag ref \<noteq> [] \<and> PullChartToCache (helm_registry h) ref c = Some (c', None)"
  by (auto simp: helm_PullChart_def dest: PullChartToCache_tag split: sum.splits)

lemma empty_tag: "ParseReference (u @ '':'') = Inr ref \<Longrightarrow> ref_Tag ref = []"
proof (rule ccontr)
  assume p: "ParseReference (u @ '':'') = Inr ref" and t: "ref_Tag ref \<noteq> []"
  from ParseReference_text [OF p] t have "u @ '':'' = Repo ref @ '':'' @ ref_Tag ref" by auto
  then have "last (u @ '':'') = last (Repo ref @ '':'' @ ref_Tag ref)" by simp
  then have "CHR '':'' \<in> set (ref_Tag ref)" using t last_in_set [OF t] by simp
  with ParseReference_text [OF p] show False by (simp add: validate_None)
qed

text \<open>
  C27: installing the operator succeeds only with a version that is not empty, after the chart at the address
  for that version was pulled to the cache and the chart that was then loaded from the cache for the same
  reference was installed by Helm; the version is then recorded. In every other case the recorded version
  is what it was, and the cluster is too unless Helm itself has changed it.
\<close>

theorem install_records_version:
  assumes "install_Handle (Some h) s request = Ret (s', resp)"
  shows "if Success resp
    then (\<exists>version ref c ch. gfind (Params request) ''version'' = Some version \<and> version \<noteq> []
      \<and> ParseReference (LitmusChartUrl (lt_opts s) @ '':'' @ version) = Inr ref
      \<and> PullChartToCache (helm_registry h) ref (lt_client s) = Some (c, None)
      \<and> LoadChart (helm_registry h) ref c = Some (lt_client s', Inr ch)
      \<and> helm_Install h ch [(''namespace'', LitmusHelmNamespace)] (lt_cluster s) = (lt_cluster s', None)
      \<and> lt_opts s' = (lt_opts s)\<lparr>LitmusChaosVerison := version\<rparr>)
    else lt_opts s' = lt_opts s
      \<and> (lt_cluster s' = lt_cluster s \<or> (\<exists>ch err. helm_Install h ch [(''namespace'', LitmusHelmNamespace)] (lt_cluster s) = (lt_cluster s', Some err)))"
proof (cases "gfind (Params request) ''version''")
  case None
  with assms show ?thesis by (auto simp: install_Handle_def)
next
  case (Some version)
  let ?url = "LitmusChartUrl (lt_opts s) @ '':'' @ version"
  from assms Some have r: "installLitmus h version [(''namespace'', LitmusHelmNamespace)] s = Ret (s', resp)"
    by (simp add: install_Handle_def)
  then obtain c1 e1 where p: "helm_PullChart h ?url (lt_client s) = Some (c1, e1)"
    by (auto simp: installLitmus_def getLitmusUrlByVersionAndEnv_def run_simps Let_def)
  show ?thesis
  proof (cases e1)
    case (Some e)
    with r p show ?thesis by (auto simp: installLitmus_def getLitmusUrlByVersionAndEnv_def Let_def)
  next
    case None
    from helm_PullChart_ok [OF p [unfolded None]] obtain ref where ref: "ParseReference ?url = Inr ref" "ref_Tag ref \<noteq> []"
      "PullChartToCache (helm_registry h) ref (lt_client s) = Some (c1, None)" by blast
    have v: "version \<noteq> []" using ref empty_tag [of "LitmusChartUrl (lt_opts s)" ref] by auto
    from r p None obtain c2 charts where l: "helm_LoadChart h ?url c1 = Some (c2, charts)"
      by (auto simp: installLitmus_def getLitmusUrlByVersionAndEnv_def run_simps Let_def)
    show ?thesis
    proof (cases charts)
      case (Inl e)
      with r p None l show ?thesis by (auto simp: installLitmus_def getLitmusUrlByVersionAndEnv_def Let_def)
    next
      case (Inr ch)
      obtain k e2 where i: "helm_Install h ch [(''namespace'', LitmusHelmNamespace)] (lt_cluster s) = (k, e2)" by fastforce
      moreover have "LoadChart (helm_registry h) ref c1 = Some (c2, Inr ch)" using l Inr ref(1) by (simp add: helm_LoadChart_def)
      ultimately show ?thesis using r p None l Inr Some v ref(1,3)
        by (cases e2) (auto simp: installLitmus_def getLitmusUrlByVersionAndEnv_def Let_def)
    qed
  qed
qed

text \<open>
  C36: once the operator is removed, no experiment is created: after a successful uninstall every create
  request fails and changes nothing.
\<close>

theorem uninstall_stops_creates:
  assumes "uninstall_litmus_Handle (Some h) s r0 = Ret (s1, resp)" "Success resp"
    and "CreateOperation (gget (Params request) ''chaosAction'')"
  shows "\<exists>resp'. litmus_Handle y lh http ord name s1 request = Ret (s1, resp') \<and> \<not> Success resp'"
proof -
  have "LitmusChaosVerison (lt_opts s1) = []"
    using assms(1,2) by (auto simp: uninstall_litmus_Handle_def uninstallLitmus_def Let_def split: prod.splits option.splits)
  then show ?thesis using assms(3)
    by (auto simp: litmus_Handle_def createParamerAndExec_def createExec_def Let_def split: option.splits)
qed

text \<open>
  the cache of hub files never holds a file: a file that could be created next to a download is empty,
  and the next download of the same file returns that empty file without asking the hub.
\<close>

theorem cached_file_is_empty:
  assumes "\<not> IsExist w (litmus_path v t n x)" "open_error w (litmus_path v t n x) = None"
    and "DownloadLitmus http v t n x w = (w', Inr text)"
  shows "http (litmus_url v t n x) = Inr (200, Inr text) \<and> DownloadLitmus http' v t n x w' = (w', Inr [])"
  using assms
  by (auto simp: DownloadLitmus_def os_Create_def IsExist_def ReadFile_def Let_def split: sum.splits if_splits)

text \<open>
  a file of rights with exactly three parts crashes the handler: the length check lets it pass, and the
  fourth part is read as soon as the account is created and the role is decoded.
\<close>

theorem rbac_three_parts_panics:
  assumes "DownloadLitmus http (LitmusChaosVerison (lt_opts s)) t n LITMUS_RBAC (lt_files s) = (w, Inr text)"
    and "split_dashes text = [p0, p1, p2]" and "decode_role y (trim_newlines p2) = Inr (Some role)"
    and "ignore_exists (snd (sa_Create api namespace (fst (decode_sa y (trim_newlines p1))) (lt_cluster s))) = None"
  shows "prepareLitmusRbac y (Some api) http t n namespace s = None"
  using assms by (auto simp: prepareLitmusRbac_def apply_rbac_def Let_def nth_panic_def split: prod.splits)

section \<open>Creating an experiment: correctness\<close>

lemma foldl_put_app:
  "eng_Name (foldl put_app e kvs) = eng_Name e \<and> eng_Namespace (foldl put_app e kvs) = eng_Namespace e
   \<and> eng_ServiceAccount (foldl put_app e kvs) = eng_ServiceAccount e \<and> eng_Experiment (foldl put_app e kvs) = eng_Experiment e
   \<and> eng_EngineState (foldl put_app e kvs) = eng_EngineState e \<and> eng_ENV (foldl put_app e kvs) = eng_ENV e"
proof (induction kvs arbitrary: e)
  case (Cons kv kvs)
  from Cons [of "put_app e kv"] show ?case by (auto simp: put_app_def split: prod.splits)
qed simp

text \<open>The application fields are the values of the three keys, whatever the order of the map.\<close>

definition app_value :: "(string \<times> string) list \<Rightarrow> string \<Rightarrow> string" where
  "app_value kvs k = (case map_of kvs k of None \<Rightarrow> [] | Some v \<Rightarrow> v)"

lemma put_app_fields:
  "distinct (map fst kvs) \<Longrightarrow>
    eng_AppKind (foldl put_app e kvs) = (if app_value kvs ''appkind'' = [] then eng_AppKind e else app_value kvs ''appkind'')
    \<and> eng_Appns (foldl put_app e kvs) = (if app_value kvs ''appns'' = [] then eng_Appns e else app_value kvs ''appns'')
    \<and> eng_Applabel (foldl put_app e kvs) = (if app_value kvs ''applabel'' = [] then eng_Applabel e else app_value kvs ''applabel'')"
proof (induction kvs arbitrary: e)
  case (Cons kv kvs)
  have "map_of kvs (fst kv) = None" using Cons.prems by (simp add: map_of_eq_None_iff)
  then have "app_value (kv # kvs) k = (if k = fst kv then snd kv else app_value kvs k)" "app_value kvs (fst kv) = []" for k
    by (auto simp: app_value_def)
  with Cons.IH [of "put_app e kv"] Cons.prems show ?case by (cases kv) (auto simp: put_app_def)
qed (simp add: app_value_def)

lemma chaosEnginer_fields:
  assumes "distinct (map fst (map_entries ord appInfo))"
  shows "eng_Name (chaosEnginer ord name ns exp appInfo components) = name"
    "eng_Namespace (chaosEnginer ord name ns exp appInfo components) = ns"
    "eng_ServiceAccount (chaosEnginer ord name ns exp appInfo components) = exp @ ''-sa''"
    "eng_Experiment (chaosEnginer ord name ns exp appInfo components) = exp"
    "eng_EngineState (chaosEnginer ord name ns exp appInfo components) = ''active''"
    "eng_ENV (chaosEnginer ord name ns exp appInfo components) = filter (\<lambda>(k, v). v \<noteq> []) (map_entries ord components)"
    "eng_AppKind (chaosEnginer ord name ns exp appInfo components) = app_value (map_entries ord appInfo) ''appkind''"
    "eng_Appns (chaosEnginer ord name ns exp appInfo components) = app_value (map_entries ord appInfo) ''appns''"
    "eng_Applabel (chaosEnginer ord name ns exp appInfo components) = app_value (map_entries ord appInfo) ''applabel''"
  using put_app_fields [OF assms] by (simp_all add: chaosEnginer_def foldl_put_app componentEnv_def)

lemma decode_string_map_ok: "decode_string_map None v = (m, b) \<Longrightarrow> gomap_ok m"
proof -
  have put: "gomap_ok (Some al) \<Longrightarrow> \<exists>al' b'. foldl put_member (Some al, b) kvs = (Some al', b') \<and> gomap_ok (Some al')" for al b kvs
  proof (induction kvs arbitrary: al b)
    case (Cons kv kvs)
    obtain k x where kv: "kv = (k, x)" by fastforce
    show ?case using Cons.IH [of "AList.update k (case x of JStr s \<Rightarrow> s | _ \<Rightarrow> []) al"] Cons.prems
      by (simp add: kv put_member_def)
  qed simp
  assume "decode_string_map None v = (m, b)"
  then show ?thesis
  proof (cases v)
    case (JObj kvs)
    with \<open>decode_string_map None v = (m, b)\<close> put [of "[]" True kvs] show ?thesis
      by (auto simp: decode_string_map_def gomap_ok_def)
  qed (auto simp: decode_string_map_def gomap_ok_def)
qed

lemma prepare_keeps:
  "prepareLitmusExperiment y lh http t n ns s = Some (s1, e) \<Longrightarrow> lt_opts s1 = lt_opts s \<and> lt_jobs s1 = lt_jobs s"
  "prepareLitmusRbac y lh http t n ns s = Some (s1, e) \<Longrightarrow> lt_opts s1 = lt_opts s \<and> lt_jobs s1 = lt_jobs s"
  by (auto simp: prepareLitmusExperiment_def prepareLitmusRbac_def Let_def bind_eq_Some_conv case_prod_unfold
      split: sum.splits if_splits)

lemma createExec_success:
  assumes "createExec y (Some api) http ord t n ns name appInfo components s = Some (s', resp)" "Success resp"
  shows "LitmusChaosVerison (lt_opts s) \<noteq> [] \<and> lt_jobs s' = lt_jobs s @ [(name, ns, n)]
    \<and> (\<exists>k. engine_Create api ns (chaosEnginer ord name ns n appInfo components) k = (lt_cluster s', None))"
proof -
  from assms have v: "LitmusChaosVerison (lt_opts s) \<noteq> []" by (auto simp: createExec_def)
  with assms(1) obtain s1 e1 where p1: "prepareLitmusExperiment y (Some api) http t n ns s = Some (s1, e1)"
    by (auto simp: createExec_def bind_eq_Some_conv)
  with assms v have "e1 = None" by (cases e1) (auto simp: createExec_def fail_step_def)
  with assms(1) v p1 obtain s2 e2 where p2: "prepareLitmusRbac y (Some api) http t n ns s1 = Some (s2, e2)"
    by (auto simp: createExec_def bind_eq_Some_conv)
  with assms v p1 \<open>e1 = None\<close> have "e2 = None" by (cases e2) (auto simp: createExec_def fail_step_def)
  obtain k e3 where c: "createEnginer api ord name ns n appInfo components (lt_cluster s2) = (k, e3)" by fastforce
  show ?thesis using assms v p1 \<open>e1 = None\<close> p2 \<open>e2 = None\<close> c prepare_keeps(1) [OF p1] prepare_keeps(2) [OF p2]
    by (cases e3) (auto simp: createExec_def fail_step_def createEnginer_def)
qed

text \<open>
  C22: a successful create request has created the engine it describes: with the operator installed, an
  active engine with the generated name in the requested namespace, for the requested experiment and
  its service account, with exactly the non-empty components as its environment and the application
  fields of the request; its result is then watched.
\<close>

theorem create_request_effect:
  assumes "litmus_Handle y (Some api) http ord name s request = Ret (s', resp)" "Success resp"
    and "CreateOperation (gget (Params request) ''chaosAction'')" and "\<And>al. set (ord al) = set al \<and> length (ord al) = length al"
  shows "LitmusChaosVerison (lt_opts s) \<noteq> []
    \<and> lt_jobs s' = lt_jobs s @ [(name, namespace_of request, gget (Params request) ''experimentName'')]
    \<and> (\<exists>k e appInfo components. engine_Create api (namespace_of request) e k = (lt_cluster s', None)
        \<and> unmarshal_string_map (gget (Params request) ''appInfo'') = Some appInfo
        \<and> unmarshal_string_map (gget (Params request) ''components'') = Some components
        \<and> eng_Name e = name \<and> eng_Namespace e = namespace_of request \<and> eng_EngineState e = ''active''
        \<and> eng_Experiment e = gget (Params request) ''experimentName''
        \<and> eng_ServiceAccount e = gget (Params request) ''experimentName'' @ ''-sa''
        \<and> eng_AppKind e = gget appInfo ''appkind'' \<and> eng_Appns e = gget appInfo ''appns'' \<and> eng_Applabel e = gget appInfo ''applabel''
        \<and> (\<forall>k v. (k, v) \<in> set (eng_ENV e) \<longleftrightarrow> gfind components k = Some v \<and> v \<noteq> []))"
proof -
  from assms(1,3) have c: "createParamerAndExec y (Some api) http ord name request s = Some (s', resp)"
    by (simp add: litmus_Handle_def run_of_go_Ret)
  with assms(2) obtain appInfo components where a: "unmarshal_string_map (gget (Params request) ''appInfo'') = Some appInfo"
    and b: "unmarshal_string_map (gget (Params request) ''components'') = Some components"
    and x: "createExec y (Some api) http ord (gget (Params request) ''experimentType'') (gget (Params request) ''experimentName'')
      (namespace_of request) name appInfo components s = Some (s', resp)"
    by (auto simp: createParamerAndExec_def Let_def split: if_splits option.splits)
  have ok: "gomap_ok appInfo" "gomap_ok components"
    using a b by (auto simp: unmarshal_string_map_def decode_string_map_ok split: option.splits prod.splits bool.splits)
  have ord: "distinct (map fst (ord al)) \<and> map_of (ord al) = map_of al" if "distinct (map fst al)" for al
  proof -
    have "card (set al) = length al" using that distinct_card distinct_map by blast
    then have "distinct (ord al)" using assms(4) [of al] card_distinct by metis
    then have "distinct (map fst (ord al))" using that assms(4) [of al] by (simp add: distinct_map)
    then show ?thesis using that assms(4) [of al] map_of_inject_set by blast
  qed
  have d: "distinct (map fst (map_entries ord appInfo))" "app_value (map_entries ord appInfo) k = gget appInfo k" for k
    using ok(1) ord by (auto simp: map_entries_def gomap_ok_def app_value_def gget_def split: option.splits)
  have env: "(k, v) \<in> set (filter (\<lambda>(k, v). v \<noteq> []) (map_entries ord components)) \<longleftrightarrow> gfind components k = Some v \<and> v \<noteq> []" for k v
    using ok(2) assms(4) by (auto simp: map_entries_def gomap_ok_def gfind_def split: option.splits)
  note cs = createExec_success [OF x assms(2)]
  let ?e = "chaosEnginer ord name (namespace_of request) (gget (Params request) ''experimentName'') appInfo components"
  from cs obtain k where k: "engine_Create api (namespace_of request) ?e k = (lt_cluster s', None)" by blast
  have "\<forall>k v. (k, v) \<in> set (eng_ENV ?e) \<longleftrightarrow> gfind components k = Some v \<and> v \<noteq> []"
    unfolding chaosEnginer_fields(6) [OF d(1)] using env by blast
  then show ?thesis using cs a b k chaosEnginer_fields(1-5,7-9) [OF d(1)] d(2)
    by (intro conjI exI [of _ k] exI [of _ ?e] exI [of _ appInfo] exI [of _ components]) simp_all
qed

section \<open>Examples\<close>

text \<open>A cluster that is the list of its engines and accepts everything, and a hub with one experiment.\<close>

definition open_api :: "(ChaosEngine list, unit) k8s" where
  "open_api = \<lparr>experiment_Create = (\<lambda>ns x k. (k, None)), sa_Create = (\<lambda>ns x k. (k, None)),
     role_Get = (\<lambda>ns n k. Some (NotFound n)), role_Delete = (\<lambda>ns n k. (k, None)), role_Create = (\<lambda>ns x k. (k, None)),
     binding_Create = (\<lambda>ns x k. (k, None)), clusterRole_Get = (\<lambda>n k. Some (NotFound n)), clusterRole_Delete = (\<lambda>n k. (k, None)),
     clusterRole_Create = (\<lambda>x k. (k, None)), clusterBinding_Create = (\<lambda>x k. (k, None)),
     engine_Create = (\<lambda>ns e k. (e # k, None)), engine_Delete = (\<lambda>ns n k. (filter (\<lambda>e. eng_Name e \<noteq> n) k, None))\<rparr>"

definition open_yaml :: "unit yaml" where
  "open_yaml = \<lparr>decode_experiment = (\<lambda>t. Inr (Some ())), decode_sa = (\<lambda>t. (Some (), None)), decode_role = (\<lambda>t. Inr (Some ())),
     decode_clusterRole = (\<lambda>t. Inr (Some ())), decode_binding = (\<lambda>t. Inr (Some ())), decode_clusterBinding = (\<lambda>t. Inr (Some ())),
     meta_Name = (\<lambda>x. ''r''), meta_Kind = (\<lambda>x. ''Role'')\<rparr>"

definition hub_file :: "string \<Rightarrow> hub_answers" where
  "hub_file text url = Inr (200, Inr text)"

definition litmus_helm :: "(mem_store, string, ChaosEngine list, unit) Helm" where
  "litmus_helm = \<lparr>helmName = LitmusHelmName, helmNamespace = LitmusHelmNamespace, helm_registry = hub,
     helm_actions = \<lparr>MergeValues = Inr (), strvals_ParseInto = (\<lambda>t v. Inr v), install_Run = (\<lambda>ns n ch v k. (k, None)),
       uninstall_Run = (\<lambda>n k. (k, None))\<rparr>\<rparr>"

definition litmus_start :: "string \<Rightarrow> (mem_store, ChaosEngine list) litmus_state" where
  "litmus_start version = \<lparr>lt_opts = zero_Options\<lparr>LitmusChartUrl := ''hub/litmus'', LitmusChaosVerison := version\<rparr>, lt_files = plain_fs,
     lt_client = fresh_client, lt_cluster = [], lt_jobs = []\<rparr>"

definition install_request :: Request where
  "install_request = \<lparr>Headers = None, Params = Some [(''version'', ''v1'')]\<rparr>"

definition create_request :: Request where
  "create_request = \<lparr>Headers = None, Params = Some [(''chaosAction'', ''create''), (''experimentType'', ''generic''),
     (''experimentName'', ''pod-delete''), (''appInfo'', ''{}''), (''components'', ''{}'')]\<rparr>"

fun resp_of :: "('s \<times> Response) run \<Rightarrow> bool option" where
  "resp_of (Ret (s, r)) = Some (Success r)"
| "resp_of _ = None"

lemma resp_of_Some: "resp_of x = Some b \<Longrightarrow> \<exists>s r. x = Ret (s, r) \<and> Success r = b"
  by (cases x rule: resp_of.cases) auto

theorem install_records_version_witness:
  "\<exists>s' resp version. install_Handle (Some litmus_helm) (litmus_start []) install_request = Ret (s', resp) \<and> Success resp
    \<and> version \<noteq> [] \<and> LitmusChaosVerison (lt_opts s') = version"
proof -
  have "resp_of (install_Handle (Some litmus_helm) (litmus_start []) install_request) = Some True" by code_simp
  then obtain s' resp where r: "install_Handle (Some litmus_helm) (litmus_start []) install_request = Ret (s', resp)" "Success resp"
    by (auto dest: resp_of_Some)
  with install_records_version [OF r(1)] show ?thesis by auto
qed

theorem uninstall_stops_creates_witness:
  "\<exists>s1 resp resp'. uninstall_litmus_Handle (Some litmus_helm) (litmus_start ''1'') install_request = Ret (s1, resp)
    \<and> litmus_Handle open_yaml (Some open_api) (hub_file []) id ''n1'' s1 create_request = Ret (s1, resp') \<and> \<not> Success resp'"
proof -
  have "resp_of (uninstall_litmus_Handle (Some litmus_helm) (litmus_start ''1'') install_request) = Some True" by code_simp
  then obtain s1 resp where r: "uninstall_litmus_Handle (Some litmus_helm) (litmus_start ''1'') install_request = Ret (s1, resp)" "Success resp"
    by (auto dest: resp_of_Some)
  have "CreateOperation (gget (Params create_request) ''chaosAction'')" by code_simp
  from uninstall_stops_creates [OF r this] r(1) show ?thesis by blast
qed

theorem cached_file_is_empty_witness:
  "\<exists>w'. DownloadLitmus (hub_file ''kind: Role'') ''1'' ''generic'' ''pod-delete'' LITMUS_RBAC plain_fs = (w', Inr ''kind: Role'')
    \<and> DownloadLitmus (hub_file ''kind: Role'') ''1'' ''generic'' ''pod-delete'' LITMUS_RBAC w' = (w', Inr [])"
proof -
  have e: "\<not> IsExist plain_fs f" "open_error plain_fs f = None" for f by (simp_all add: IsExist_def plain_fs_def)
  then obtain w' where d: "DownloadLitmus (hub_file ''kind: Role'') ''1'' ''generic'' ''pod-delete'' LITMUS_RBAC plain_fs = (w', Inr ''kind: Role'')"
    by (simp add: DownloadLitmus_def hub_file_def)
  from cached_file_is_empty [OF e d] d show ?thesis by blast
qed

theorem rbac_three_parts_panics_witness:
  "prepareLitmusRbac open_yaml (Some open_api) (hub_file ''---a---b'') ''generic'' ''pod-delete'' ''default'' (litmus_start ''1'') = None"
proof (rule rbac_three_parts_panics)
  show "DownloadLitmus (hub_file ''---a---b'') (LitmusChaosVerison (lt_opts (litmus_start ''1''))) ''generic'' ''pod-delete'' LITMUS_RBAC
      (lt_files (litmus_start ''1'')) = (os_Create plain_fs (litmus_path ''1'' ''generic'' ''pod-delete'' LITMUS_RBAC), Inr ''---a---b'')"
    by (simp add: DownloadLitmus_def hub_file_def litmus_start_def IsExist_def plain_fs_def)
  show "split_dashes ''---a---b'' = [[], ''a'', ''b'']" by code_simp
qed (simp_all add: open_yaml_def open_api_def ignore_exists_def)

theorem create_request_effect_witness:
  "\<exists>s' resp. litmus_Handle open_yaml (Some open_api) (hub_file ''---a---b---c'') id ''n1'' (litmus_start ''1'') create_request = Ret (s', resp)
    \<and> Success resp \<and> lt_jobs s' = [(''n1'', ''default'', ''pod-delete'')]"
proof -
  have "resp_of (litmus_Handle open_yaml (Some open_api) (hub_file ''---a---b---c'') id ''n1'' (litmus_start ''1'') create_request) = Some True"
    by code_simp
  then obtain s' resp where r: "litmus_Handle open_yaml (Some open_api) (hub_file ''---a---b---c'') id ''n1'' (litmus_start ''1'') create_request = Ret (s', resp)"
      "Success resp" by (auto dest: resp_of_Some)
  have c: "CreateOperation (gget (Params create_request) ''chaosAction'')" by code_simp
  have "lt_jobs s' = lt_jobs (litmus_start ''1'') @ [(''n1'', namespace_of create_request, gget (Params create_request) ''experimentName'')]"
    using create_request_effect [OF r c] by simp
  then show ?thesis using r by (auto simp: litmus_start_def namespace_of_def create_request_def gget_def)
qed

end
