(* ===== verification/Agent_Pods.thy ===== *)
theory Agent_Pods
  imports Agent_Collector
begin

text \<open>
  The collectors of services and pods (\<open>collector/kubernetes/service.go\<close>, \<open>pod.go\<close> and \<open>selectorMatch\<close> of
  \<open>common.go\<close>). The pod collector is the one the agent runs: every period it reads the services for
  their selectors, takes the agent's address from its own service, and reports the pods with their
  links.

  Objects of the Kubernetes API are records of the fields the code reads; a time is its formatted
  text. What the indexers hold at a call is an argument, as are \<open>set_list\<close> (\<open>sets.String.List\<close>) and
  \<open>matches\<close> (\<open>labels.SelectorFromSet(set).Matches\<close>) of the Kubernetes library.
\<close>

section \<open>Services\<close>

record ServiceInfo =
  si_Common :: CommonInfo
  si_Namespace :: string
  ClusterIp :: string
  ExternalIp :: string
  si_Ports :: "string list"
  si_Type :: string
  si_Selector :: gomap

definition json_of_ServiceInfo :: "ServiceInfo \<Rightarrow> json" where
  "json_of_ServiceInfo s = JObj (common_members (si_Common s)
     @ opt_str ''namespace'' (si_Namespace s) @ opt_str ''clusterIp'' (ClusterIp s)
     @ opt_str ''externalIp'' (ExternalIp s) @ opt_strs ''ports'' (si_Ports s)
     @ opt_str ''type'' (si_Type s) @ opt_map ''selector'' (si_Selector s))"

definition brief_service :: "CommonInfo \<Rightarrow> ServiceInfo" where
  "brief_service c = \<lparr>si_Common = c, si_Namespace = [], ClusterIp = [], ExternalIp = [], si_Ports = [],
     si_Type = [], si_Selector = None\<rparr>"

interpretation services: resource_info si_Common brief_service json_of_ServiceInfo
  by unfold_locales (simp add: brief_service_def)

text \<open>The closure \<open>selectorMatch\<close> returns.\<close>

record selector =
  sel_namespace :: string
  sel_set :: "(string \<times> string) list"
  sel_resource :: string
  sel_uid :: string

record ServiceCollector =
  sc_base :: K8sBaseCollector
  selectors :: "selector list"

definition ServiceResource :: string where "ServiceResource = ''services''"
definition DeploymentResource :: string where "DeploymentResource = ''deployments''"
definition DaemonsetResource :: string where "DaemonsetResource = ''daemonsets''"
definition ReplicaSetResource :: string where "ReplicaSetResource = ''replicasets''"
definition PodResource :: string where "PodResource = ''pods''"
definition NodeResource :: string where "NodeResource = ''nodes''"

lemmas resource_names =
  ServiceResource_def DeploymentResource_def DaemonsetResource_def ReplicaSetResource_def PodResource_def NodeResource_def

text \<open>Without an entry in the table the service collector is made with the zero URI.\<close>

definition NewServiceCollector :: "(string \<rightharpoonup> Uri) \<Rightarrow> ServiceCollector" where
  "NewServiceCollector m =
     \<lparr>sc_base = createK8sBaseCollector NodeResource (case m ''k8sService'' of Some u \<Rightarrow> u | None \<Rightarrow> zero_Uri),
      selectors = []\<rparr>"

definition service_info :: "(string list \<Rightarrow> string list) \<Rightarrow> Service \<Rightarrow> ServiceInfo" where
  "service_info set_list s =
     \<lparr>si_Common = \<lparr>c_Uid = s_UID s, c_Name = s_Name s, CreatedTime = s_Created s, c_Labels = s_Labels s,
        Exist = True, c_Cid = []\<rparr>,
      si_Namespace = s_Namespace s, ClusterIp = ClusterIP s, ExternalIp = getServiceExternalIP set_list s True,
      si_Ports = servicePortsToString (s_Ports s), si_Type = s_Type s, si_Selector = s_Selector s\<rparr>"

definition handleServiceIncrement :: "ServiceInfo \<Rightarrow> identifiers \<Rightarrow> ServiceInfo \<times> identifiers" where
  "handleServiceIncrement = handleIncrement si_Common brief_service json_of_ServiceInfo"

fun getServiceInfo ::
  "(string list \<Rightarrow> string list) \<Rightarrow> Service list \<Rightarrow> identifiers \<Rightarrow> ServiceInfo list \<times> selector list \<times> identifiers" where
  "getServiceInfo set_list [] ids = ([], [], ids)"
| "getServiceInfo set_list (s # ss) ids =
     (let (info, ids') = handleServiceIncrement (service_info set_list s) ids;
          (infos, sels, ids'') = getServiceInfo set_list ss ids'
      in (info # infos,
          (case s_Selector s of
             None \<Rightarrow> sels
           | Some labels \<Rightarrow> \<lparr>sel_namespace = s_Namespace s, sel_set = labels, sel_resource = ServiceResource,
                          sel_uid = s_UID s\<rparr> # sels),
          ids''))"

definition service_reportNotExist :: "env \<Rightarrow> agent \<Rightarrow> ServiceCollector \<Rightarrow> ServiceCollector go" where
  "service_reportNotExist e a sc =
     map_option (\<lambda>b. sc\<lparr>sc_base := b\<rparr>) (report_gone brief_service json_of_ServiceInfo e a (sc_base sc))"

definition service_Report ::
  "(string list \<Rightarrow> string list) \<Rightarrow> bool \<Rightarrow> env \<Rightarrow> agent \<Rightarrow> Service list \<Rightarrow> ServiceCollector \<Rightarrow> ServiceCollector go" where
  "service_Report set_list clientSet e a lst sc =
     (case ensure_indexer clientSet (sc_base sc) of
        None \<Rightarrow> Some sc
      | Some b \<Rightarrow>
          (let (infos, _, ids) = getServiceInfo set_list lst (identifiers b) in
           do {
             b \<leftarrow> reportK8sMetric e a True (map json_of_ServiceInfo infos) (b\<lparr>identifiers := ids\<rparr>);
             service_reportNotExist e a (sc\<lparr>sc_base := b\<rparr>)
           }))"

definition SetSelector :: "(string list \<Rightarrow> string list) \<Rightarrow> bool \<Rightarrow> Service list \<Rightarrow> ServiceCollector \<Rightarrow> ServiceCollector" where
  "SetSelector set_list clientSet lst sc =
     (case ensure_indexer clientSet (sc_base sc) of
        None \<Rightarrow> sc
      | Some b \<Rightarrow>
          (let (_, sels, ids) = getServiceInfo set_list lst (identifiers b)
           in sc\<lparr>sc_base := b\<lparr>identifiers := ids\<rparr>, selectors := sels\<rparr>))"

section \<open>Pods\<close>

record Terminated =
  ExitCode :: int
  Signal :: int
  t_Reason :: string

text \<open>The state of a container: the reason of \<open>Waiting\<close>, \<open>Terminated\<close>, and whether \<open>Running\<close> is set.\<close>

record ContainerStatus =
  cs_Waiting :: "string option"
  TerminatedState :: "Terminated option"
  RunningState :: bool
  Ready :: bool
  cs_RestartCount :: "32 word"

record Pod =
  p_UID :: string
  p_Name :: string
  p_Namespace :: string
  p_Created :: string
  p_Labels :: gomap
  Annotations :: gomap
  PodIP :: string
  Phase :: string
  p_Reason :: string
  p_Deleting :: bool
  InitContainers :: nat
  InitContainerStatuses :: "ContainerStatus list"
  ContainerStatuses :: "ContainerStatus list"
  OwnerReferences :: "(string \<times> string) list"

record PodInfo =
  pi_Common :: CommonInfo
  pi_Namespace :: string
  pi_Ip :: string
  RestartCount :: "32 word"
  State :: string
  DaemonsetUid :: string
  DaemonsetCid :: string
  ServiceUid :: string
  ServiceCid :: string
  DeploymentUid :: string
  DeploymentCid :: string
  ReplicaSetUid :: string
  ReplicaSetCid :: string

definition json_of_PodInfo :: "PodInfo \<Rightarrow> json" where
  "json_of_PodInfo p = JObj (common_members (pi_Common p)
     @ opt_str ''namespace'' (pi_Namespace p) @ opt_str ''ip'' (pi_Ip p)
     @ opt_int ''restartCount'' (sint (RestartCount p)) @ opt_str ''state'' (State p)
     @ opt_str ''daemonsetUid'' (DaemonsetUid p) @ opt_str ''daemonsetCid'' (DaemonsetCid p)
     @ opt_str ''serviceUid'' (ServiceUid p) @ opt_str ''serviceCid'' (ServiceCid p)
     @ opt_str ''deploymentUid'' (DeploymentUid p) @ opt_str ''deploymentCid'' (DeploymentCid p)
     @ opt_str ''replicasetUid'' (ReplicaSetUid p) @ opt_str ''replicasetCid'' (ReplicaSetCid p))"

definition brief_pod :: "CommonInfo \<Rightarrow> PodInfo" where
  "brief_pod c = \<lparr>pi_Common = c, pi_Namespace = [], pi_Ip = [], RestartCount = 0, State = [],
     DaemonsetUid = [], DaemonsetCid = [], ServiceUid = [], ServiceCid = [], DeploymentUid = [],
     DeploymentCid = [], ReplicaSetUid = [], ReplicaSetCid = []\<rparr>"

interpretation pods: resource_info pi_Common brief_pod json_of_PodInfo
  by unfold_locales (simp add: brief_pod_def)

text \<open>\<open>int32\<close> addition wraps.\<close>

definition getPodRestartCount :: "Pod \<Rightarrow> 32 word" where
  "getPodRestartCount pod = foldl (\<lambda>count c. count + cs_RestartCount c) 0 (ContainerStatuses pod)"

fun handleOwnerReferences :: "PodInfo \<Rightarrow> (string \<times> string) list \<Rightarrow> PodInfo" where
  "handleOwnerReferences info [] = info"
| "handleOwnerReferences info ((kind, uid) # refs) =
     handleOwnerReferences
       (if kind = ''ReplicaSet'' then info\<lparr>ReplicaSetUid := uid\<rparr>
        else if kind = ''DaemonSet'' then info\<lparr>DaemonsetUid := uid\<rparr> else info) refs"

text \<open>The two loops of \<open>getPodState\<close>. The first stops at a container that has not exited with 0.\<close>

fun init_state :: "nat \<Rightarrow> nat \<Rightarrow> ContainerStatus list \<Rightarrow> string \<Rightarrow> string \<times> bool" where
  "init_state i n [] reason = (reason, False)"
| "init_state i n (c # cs) reason =
     (case TerminatedState c of
        Some t \<Rightarrow>
          if ExitCode t = 0 then init_state (Suc i) n cs reason
          else (if t_Reason t = [] then
                  (if Signal t \<noteq> 0 then ''Init:Signal:'' @ Itoa (Signal t) else ''Init:ExitCode:'' @ Itoa (ExitCode t))
                else ''Init:'' @ t_Reason t, True)
      | None \<Rightarrow>
          (case cs_Waiting c of
             Some w \<Rightarrow> if w \<noteq> [] \<and> w \<noteq> ''PodInitializing'' then (''Init:'' @ w, True)
                       else (''Init:'' @ nat_str i @ ''/'' @ nat_str n, True)
           | None \<Rightarrow> (''Init:'' @ nat_str i @ ''/'' @ nat_str n, True)))"

definition container_step :: "ContainerStatus \<Rightarrow> string \<times> bool \<Rightarrow> string \<times> bool" where
  "container_step c st =
     (let (reason, hasRunning) = st in
      case cs_Waiting c of
        Some w \<Rightarrow>
          if w \<noteq> [] then (w, hasRunning)
          else (case TerminatedState c of
                  Some t \<Rightarrow> if t_Reason t \<noteq> [] then (t_Reason t, hasRunning)
                            else if Signal t \<noteq> 0 then (''Signal:'' @ Itoa (Signal t), hasRunning)
                            else (''ExitCode:'' @ Itoa (ExitCode t), hasRunning)
                | None \<Rightarrow> (reason, hasRunning \<or> Ready c \<and> RunningState c))
      | None \<Rightarrow>
          (case TerminatedState c of
             Some t \<Rightarrow> if t_Reason t \<noteq> [] then (t_Reason t, hasRunning)
                       else if Signal t \<noteq> 0 then (''Signal:'' @ Itoa (Signal t), hasRunning)
                       else (''ExitCode:'' @ Itoa (ExitCode t), hasRunning)
           | None \<Rightarrow> (reason, hasRunning \<or> Ready c \<and> RunningState c)))"

definition NodeUnreachablePodReason :: string where "NodeUnreachablePodReason = ''NodeLost''"

definition getPodState :: "Pod \<Rightarrow> string" where
  "getPodState pod =
     (let reason = (if p_Reason pod \<noteq> [] then p_Reason pod else Phase pod);
          (reason, initializing) = init_state 0 (InitContainers pod) (InitContainerStatuses pod) reason;
          reason =
            (if \<not> initializing then
               (let (reason, hasRunning) = fold container_step (rev (ContainerStatuses pod)) (reason, False)
                in if reason = ''Completed'' \<and> hasRunning then ''Running'' else reason)
             else reason)
      in if p_Deleting pod \<and> p_Reason pod = NodeUnreachablePodReason then ''Unknown''
         else if p_Deleting pod then ''Terminating''
         else reason)"

definition addLink :: "string \<Rightarrow> string \<Rightarrow> PodInfo \<Rightarrow> PodInfo" where
  "addLink resource uid pi =
     (if resource = ServiceResource then pi\<lparr>ServiceUid := uid\<rparr>
      else if resource = DeploymentResource then pi\<lparr>DeploymentUid := uid\<rparr>
      else if resource = ReplicaSetResource then pi\<lparr>ReplicaSetUid := uid\<rparr>
      else if resource = DaemonsetResource then pi\<lparr>DaemonsetUid := uid\<rparr>
      else pi)"

type_synonym matcher = "(string \<times> string) list \<Rightarrow> gomap \<Rightarrow> bool"

definition selectorMatch :: "matcher \<Rightarrow> selector \<Rightarrow> PodInfo \<Rightarrow> PodInfo" where
  "selectorMatch matches sel c =
     (if sel_namespace sel = pi_Namespace c \<and> matches (sel_set sel) (c_Labels (pi_Common c))
      then addLink (sel_resource sel) (sel_uid sel) c else c)"

definition pod_info :: "Pod \<Rightarrow> PodInfo" where
  "pod_info pod =
     (let podUid = (case gfind (Annotations pod) ''kubernetes.io/config.hash'' of Some hash \<Rightarrow> hash | None \<Rightarrow> p_UID pod) in
      handleOwnerReferences
        ((brief_pod \<lparr>c_Uid = podUid, c_Name = p_Name pod, CreatedTime = p_Created pod, c_Labels = p_Labels pod,
            Exist = True, c_Cid = []\<rparr>)
         \<lparr>pi_Namespace := p_Namespace pod, pi_Ip := PodIP pod, RestartCount := getPodRestartCount pod,
          State := getPodState pod\<rparr>)
        (OwnerReferences pod))"

definition handlePodIncrement :: "PodInfo \<Rightarrow> identifiers \<Rightarrow> PodInfo \<times> identifiers" where
  "handlePodIncrement = handleIncrement pi_Common brief_pod json_of_PodInfo"

fun getPodInfo :: "matcher \<Rightarrow> selector list \<Rightarrow> Pod list \<Rightarrow> identifiers \<Rightarrow> PodInfo list \<times> identifiers" where
  "getPodInfo matches sels [] ids = ([], ids)"
| "getPodInfo matches sels (pod # pods) ids =
     (let (podInfo, ids') = handlePodIncrement (pod_info pod) ids;
          (infos, ids'') = getPodInfo matches sels pods ids'
      in (fold (selectorMatch matches) sels podInfo # infos, ids''))"

section \<open>The agent's own address\<close>

definition DefaultAgentServiceName :: string where "DefaultAgentServiceName = ''chaos-agent''"

definition invalidIPs :: "string list" where "invalidIPs = [''<none>'', ''<pending>'', ''<unknown>'']"

fun pick_external_ip :: "ServiceInfo list \<Rightarrow> string option" where
  "pick_external_ip [] = None"
| "pick_external_ip (serviceInfo # ss) =
     (if c_Name (si_Common serviceInfo) \<noteq> DefaultAgentServiceName then pick_external_ip ss
      else if ExternalIp serviceInfo = [] then pick_external_ip ss
      else if ExternalIp serviceInfo \<in> set invalidIPs then None
      else
        (let validIP = TrimSpace (hd (Split (CHR '','') (ExternalIp serviceInfo))) in
         if validIP \<noteq> [] \<and> validIP \<notin> set invalidIPs then Some validIP
         else pick_external_ip ss))"

text \<open>A service collector without an indexer is a nil pointer in \<open>getServiceInfo\<close>.\<close>

definition setAgentExternalIp ::
  "(string list \<Rightarrow> string list) \<Rightarrow> Service list \<Rightarrow> ServiceCollector \<Rightarrow> Options \<Rightarrow> (ServiceCollector \<times> Options) go" where
  "setAgentExternalIp set_list lst sc o' =
     (if LocalIp o' \<noteq> [] then Some (sc, o')
      else if \<not> indexer (sc_base sc) then None
      else
        (let (infos, _, ids) = getServiceInfo set_list lst (identifiers (sc_base sc));
             sc' = sc\<lparr>sc_base := (sc_base sc)\<lparr>identifiers := ids\<rparr>\<rparr>
         in Some (sc', case pick_external_ip infos of None \<Rightarrow> o' | Some ip \<Rightarrow> o'\<lparr>Ip := ip\<rparr>)))"

section \<open>The pod collector\<close>

record PodCollector =
  pc_base :: K8sBaseCollector
  serviceCollector :: ServiceCollector

definition NewPodCollector :: "(string \<rightharpoonup> Uri) \<Rightarrow> ServiceCollector \<Rightarrow> PodCollector option" where
  "NewPodCollector m sc =
     (case m API_K8S_POD of
        None \<Rightarrow> None
      | Some uri \<Rightarrow> Some \<lparr>pc_base = createK8sBaseCollector PodResource uri, serviceCollector = sc\<rparr>)"

definition pod_reportNotExist :: "env \<Rightarrow> agent \<Rightarrow> K8sBaseCollector \<Rightarrow> K8sBaseCollector go" where
  "pod_reportNotExist = report_gone brief_pod json_of_PodInfo"

text \<open>What one call of \<open>Report\<close> sees of the cluster.\<close>

record cluster =
  clientSet :: bool
  services_now :: "Service list"
  pods_now :: "Pod list"

definition pod_Report ::
  "(string list \<Rightarrow> string list) \<Rightarrow> matcher \<Rightarrow> env \<Rightarrow> cluster \<Rightarrow> PodCollector \<times> agent \<Rightarrow> (PodCollector \<times> agent) go" where
  "pod_Report set_list matches e k st =
     (let (pc, a) = st in
      case ensure_indexer (clientSet k) (pc_base pc) of
        None \<Rightarrow> Some (pc, a)
      | Some b \<Rightarrow>
          do {
            let sc = SetSelector set_list (clientSet k) (services_now k) (serviceCollector pc);
            (sc, o') \<leftarrow> setAgentExternalIp set_list (services_now k) sc (opts a);
            let a = a\<lparr>opts := o'\<rparr>;
            let (infos, ids) = getPodInfo matches (selectors sc) (pods_now k) (identifiers b);
            b \<leftarrow> reportK8sMetric e a True (map json_of_PodInfo infos) (b\<lparr>identifiers := ids\<rparr>);
            b \<leftarrow> pod_reportNotExist e a b;
            Some (\<lparr>pc_base = b, serviceCollector = sc\<rparr>, a)
          })"

section \<open>The state of a pod: correctness\<close>

text \<open>The reason a container gives for the pod's state, if any.\<close>

definition terminated_reason :: "Terminated \<Rightarrow> string" where
  "terminated_reason t =
     (if t_Reason t \<noteq> [] then t_Reason t
      else if Signal t \<noteq> 0 then ''Signal:'' @ Itoa (Signal t) else ''ExitCode:'' @ Itoa (ExitCode t))"

definition container_reason :: "ContainerStatus \<Rightarrow> string option" where
  "container_reason c =
     (if cs_Waiting c \<noteq> None \<and> cs_Waiting c \<noteq> Some [] then cs_Waiting c
      else map_option terminated_reason (TerminatedState c))"

definition container_running :: "ContainerStatus \<Rightarrow> bool" where
  "container_running c \<longleftrightarrow> container_reason c = None \<and> Ready c \<and> RunningState c"

definition init_done :: "ContainerStatus \<Rightarrow> bool" where
  "init_done c \<longleftrightarrow> (\<exists>t. TerminatedState c = Some t \<and> ExitCode t = 0)"

text \<open>The text for an init container that is not done, the \<open>i\<close>-th of \<open>n\<close>.\<close>

definition init_text :: "nat \<Rightarrow> nat \<Rightarrow> ContainerStatus \<Rightarrow> string" where
  "init_text i n c = ''Init:'' @
     (case TerminatedState c of
        Some t \<Rightarrow> terminated_reason t
      | None \<Rightarrow> (case cs_Waiting c of
          Some w \<Rightarrow> if w \<notin> {[], ''PodInitializing''} then w else nat_str i @ ''/'' @ nat_str n
        | None \<Rightarrow> nat_str i @ ''/'' @ nat_str n))"

lemma init_state_step:
  "init_state i n (c # cs) reason =
     (if init_done c then init_state (Suc i) n cs reason else (init_text i n c, True))"
  by (auto simp: init_done_def init_text_def terminated_reason_def split: option.splits)

lemma init_state_spec:
  "init_state i n cs reason =
     (case dropWhile init_done cs of
        [] \<Rightarrow> (reason, False)
      | c # _ \<Rightarrow> (init_text (i + length (takeWhile init_done cs)) n c, True))"
proof (induction cs arbitrary: i)
  case (Cons c cs)
  then show ?case
    by (cases "init_done c"; cases "dropWhile init_done cs") (simp_all add: init_state_step del: init_state.simps dropWhile_eq_Nil_conv)
qed simp

lemma container_step_eq:
  "container_step c (reason, h) =
     (case container_reason c of Some r \<Rightarrow> (r, h) | None \<Rightarrow> (reason, h \<or> container_running c))"
  by (auto simp: container_step_def container_reason_def container_running_def terminated_reason_def split: option.splits)

lemma fold_container_step:
  "fold container_step (rev cs) (reason, h) =
     (case List.find (\<lambda>c. container_reason c \<noteq> None) cs of
        Some c \<Rightarrow> the (container_reason c) | None \<Rightarrow> reason,
      h \<or> (\<exists>c \<in> set cs. container_running c))"
proof (induction cs)
  case (Cons c cs)
  then show ?case by (auto simp: container_step_eq container_running_def split: option.splits)
qed simp

text \<open>
  C31: the state of a pod is decided in this order: a pod being deleted is \<open>Unknown\<close> on a lost node and
  \<open>Terminating\<close> otherwise; else the first init container that has not exited with 0 gives an \<open>Init:\<close>
  text; else the first container, in the order of the pod, that waits with a reason or has terminated
  gives its reason, with \<open>Completed\<close> turned into \<open>Running\<close> where some container still runs; else the
  pod's own reason or phase.
\<close>

theorem getPodState_order:
  "getPodState pod =
     (if p_Deleting pod then (if p_Reason pod = ''NodeLost'' then ''Unknown'' else ''Terminating'')
      else
        (case dropWhile init_done (InitContainerStatuses pod) of
           c # _ \<Rightarrow> init_text (length (takeWhile init_done (InitContainerStatuses pod))) (InitContainers pod) c
         | [] \<Rightarrow>
             (let reason = (case List.find (\<lambda>c. container_reason c \<noteq> None) (ContainerStatuses pod) of
                              Some c \<Rightarrow> the (container_reason c)
                            | None \<Rightarrow> if p_Reason pod \<noteq> [] then p_Reason pod else Phase pod)
              in if reason = ''Completed'' \<and> (\<exists>c \<in> set (ContainerStatuses pod). container_running c)
                 then ''Running'' else reason)))"
proof (cases "dropWhile init_done (InitContainerStatuses pod)")
  case Nil
  then show ?thesis
    by (simp add: getPodState_def init_state_spec fold_container_step NodeUnreachablePodReason_def Let_def
        del: dropWhile_eq_Nil_conv)
next
  case (Cons c cs)
  then show ?thesis by (simp add: getPodState_def init_state_spec NodeUnreachablePodReason_def)
qed

section \<open>Restart counts\<close>

lemma foldl_restarts:
  "foldl (\<lambda>count c. count + cs_RestartCount c) z cs = z + word_of_int (\<Sum>c\<leftarrow>cs. sint (cs_RestartCount c))"
  by (induction cs arbitrary: z) (simp_all add: algebra_simps)

text \<open>
  the restart count reported for a pod is the sum of its containers' counts wrapped to the range of
  an \<open>int32\<close>.
\<close>

theorem restart_count_wraps:
  "sint (getPodRestartCount pod) = signed_take_bit 31 (\<Sum>c\<leftarrow>ContainerStatuses pod. sint (cs_RestartCount c))"
  by (simp add: getPodRestartCount_def foldl_restarts sint_sbintrunc')

section \<open>The infos of a listing\<close>

definition pod_uid :: "Pod \<Rightarrow> string" where
  "pod_uid pod = (case gfind (Annotations pod) ''kubernetes.io/config.hash'' of Some hash \<Rightarrow> hash | None \<Rightarrow> p_UID pod)"

lemma handleOwnerReferences_keeps [simp]:
  "pi_Common (handleOwnerReferences info refs) = pi_Common info"
  "pi_Namespace (handleOwnerReferences info refs) = pi_Namespace info"
  "ServiceUid (handleOwnerReferences info refs) = ServiceUid info"
  by (induction info refs rule: handleOwnerReferences.induct) auto

lemma pod_info_fields [simp]:
  "c_Uid (pi_Common (pod_info pod)) = pod_uid pod" "Exist (pi_Common (pod_info pod))"
  "c_Cid (pi_Common (pod_info pod)) = []" "ServiceUid (pod_info pod) = []"
  by (simp_all add: pod_info_def pod_uid_def brief_pod_def Let_def)

lemma getPodInfo_increments:
  "getPodInfo matches sels ps ids =
     (let (ms, ids') = increments pi_Common brief_pod json_of_PodInfo (map pod_info ps) ids
      in (map (fold (selectorMatch matches) sels) ms, ids'))"
  by (induction ps arbitrary: ids) (auto simp: collect.simps(2) handlePodIncrement_def Let_def split: prod.splits)

lemma fresh_pods: "distinct (map pod_uid ps) \<Longrightarrow> fresh_infos pi_Common (map pod_info ps)"
  by (auto simp: fresh_infos_def comp_def)

lemma getServiceInfo_increments:
  "getServiceInfo set_list ss ids =
     (let (ms, ids') = increments si_Common brief_service json_of_ServiceInfo (map (service_info set_list) ss) ids
      in (ms, [\<lparr>sel_namespace = s_Namespace s, sel_set = the (s_Selector s), sel_resource = ServiceResource,
               sel_uid = s_UID s\<rparr>. s \<leftarrow> ss, s_Selector s \<noteq> None], ids'))"
  by (induction ss arbitrary: ids)
    (auto simp: collect.simps(2) handleServiceIncrement_def Let_def split: prod.splits option.splits)

text \<open>The links a selector may set are those of services; the rest of the info is untouched.\<close>

definition unlink :: "PodInfo \<Rightarrow> PodInfo" where
  "unlink p = p\<lparr>ServiceUid := []\<rparr>"

lemma unlink_same [simp]: "ServiceUid p = [] \<Longrightarrow> unlink p = p"
  by (cases p) (simp add: unlink_def)

lemma unlink_selectorMatch [simp]:
  "sel_resource s = ServiceResource \<Longrightarrow> unlink (selectorMatch matches s p) = unlink p"
  by (simp add: unlink_def selectorMatch_def addLink_def)

lemma unlink_links:
  "\<forall>s \<in> set sels. sel_resource s = ServiceResource \<Longrightarrow> unlink (fold (selectorMatch matches) sels p) = unlink p"
  by (induction sels arbitrary: p) auto

lemma increments_unlinked:
  "\<forall>i \<in> set infos. ServiceUid i = [] \<Longrightarrow>
   \<forall>m \<in> set (fst (increments pi_Common brief_pod json_of_PodInfo infos ids)). ServiceUid m = []"
proof (induction infos arbitrary: ids)
  case (Cons i infos)
  have "ServiceUid (fst (handleIncrement pi_Common brief_pod json_of_PodInfo i ids)) = []"
    using Cons.prems by (auto simp: pods.increment_cases brief_pod_def Let_def split: option.splits)
  with Cons show ?case by (simp add: increments_Cons Let_def)
qed simp

section \<open>The report of the pods: correctness\<close>

text \<open>The service collector after the first two steps of \<open>Report\<close>, and the options.\<close>

lemma SetSelector_client:
  "indexer (sc_base (SetSelector set_list True ss sc))"
  "s \<in> set (selectors (SetSelector set_list True ss sc)) \<Longrightarrow> sel_resource s = ServiceResource"
  by (cases "indexer (sc_base sc)";
      auto simp: SetSelector_def ensure_indexer_def getServiceInfo_increments Let_def split: prod.splits)+

lemma setAgentExternalIp_returns:
  "indexer (sc_base sc) \<Longrightarrow> \<exists>sc' o''. setAgentExternalIp set_list ss sc o' = Some (sc', o'')"
  by (simp add: setAgentExternalIp_def Let_def split: prod.splits)

lemma setAgentExternalIp_selectors:
  "setAgentExternalIp set_list ss sc o' = Some (sc', o'') \<Longrightarrow> selectors sc' = selectors sc"
  by (auto simp: setAgentExternalIp_def Let_def split: prod.splits if_splits)

text \<open>
  C9: a cycle of reports the server accepts brings the server's knowledge of the pods to exactly the
  pods of the cluster, links to services apart: with a cache that agrees with what the server holds,
  distinct pods and no collision of digests, \<open>Report\<close> returns; the requests it has sent carry the infos of the
  pods (unchanged pods by id only) and then the vanished pods as not existing, each report that is not empty in one
  request and nothing else; and by what they carry the server holds the current info of every pod and no
  other. The cache agrees with that again, so the next cycle starts from the same situation.
\<close>

theorem pod_report_synchronises:
  assumes "clientSet k"
    and "setAgentExternalIp set_list (services_now k) (SetSelector set_list True (services_now k) (serviceCollector pc)) (opts a)
           = Some (sc, o')"
    and "getPodInfo matches (selectors sc) (pods_now k) (identifiers (pc_base pc)) = (infos, ids1)"
    and "agrees (identifiers (pc_base pc)) view" "distinct (map pod_uid (pods_now k))"
    and "no_collision view (map (json_of_PodInfo \<circ> pod_info) (pods_now k))"
    and "ReportHandler (pc_base pc) \<noteq> VirtualNodeHandler" "resourceName (pc_base pc) \<notin> {[], TimestampKey}"
    and "accepted e (a\<lparr>opts := o'\<rparr>) (pc_base pc) (map json_of_PodInfo infos) kvs" "cids_ok kvs"
    and "\<forall>p \<in> set (pods_now k). known (identifiers (pc_base pc)) (pod_uid p) \<or> obj_get kvs (pod_uid p) \<noteq> None"
    and "store_cids (object_map kvs) ids1 = Some ids2" "sweep ids2 = (gone, ids3)"
    and "taken e (a\<lparr>opts := o'\<rparr>) (pc_base pc) (map (\<lambda>(u, cid). json_of_PodInfo (brief_pod (brief_common u cid False))) gone)"
  shows "\<exists>pc' bs. pod_Report set_list matches e k (pc, a) = Some (pc', a\<lparr>opts := o'\<rparr>)
    \<and> bs = map (\<lambda>(u, cid). brief_pod (brief_common u cid False)) gone
    \<and> sends (pc_base pc) [map json_of_PodInfo infos, map json_of_PodInfo bs] (pc_base pc')
    \<and> view_after pi_Common json_of_PodInfo (map unlink (infos @ bs)) view
        = map_of (map (\<lambda>p. (pod_uid p, json_of_PodInfo (pod_info p))) (pods_now k))
    \<and> agrees (identifiers (pc_base pc')) (map_of (map (\<lambda>p. (pod_uid p, json_of_PodInfo (pod_info p))) (pods_now k)))"
proof -
  let ?b = "(pc_base pc)\<lparr>indexer := True\<rparr>"
  obtain ms where inc: "increments pi_Common brief_pod json_of_PodInfo (map pod_info (pods_now k)) (identifiers ?b) = (ms, ids1)"
    and infos: "infos = map (fold (selectorMatch matches) (selectors sc)) ms"
    using assms(3) by (simp add: getPodInfo_increments split: prod.splits)
  have sels: "\<forall>s \<in> set (selectors sc). sel_resource s = ServiceResource"
    using SetSelector_client(2) setAgentExternalIp_selectors [OF assms(2)] by simp
  have ms: "map unlink infos = ms"
    using increments_unlinked [of "map pod_info (pods_now k)" "identifiers ?b"] inc
    by (simp add: infos unlink_links [OF sels] map_idI)
  have e: "ensure_indexer (clientSet k) (pc_base pc) = Some ?b" using assms(1) by (cases "pc_base pc") (simp add: ensure_indexer_def)
  have "\<exists>c' bs. report_infos brief_pod json_of_PodInfo e (a\<lparr>opts := o'\<rparr>) infos (?b\<lparr>identifiers := ids1\<rparr>) = Some c'
    \<and> bs = map (\<lambda>(u, cid). brief_pod (brief_common u cid False)) gone \<and> sends ?b [map json_of_PodInfo infos, map json_of_PodInfo bs] c'
    \<and> synchronised pi_Common json_of_PodInfo (map pod_info (pods_now k)) (ms @ bs) view (identifiers c')"
    by (rule pods.report_synchronises [of ?b view "map pod_info (pods_now k)" ms ids1 e "a\<lparr>opts := o'\<rparr>" infos kvs ids2 gone ids3])
      (use assms inc fresh_pods in \<open>simp_all add: comp_def\<close>)
  then obtain c' bs where c': "report_infos brief_pod json_of_PodInfo e (a\<lparr>opts := o'\<rparr>) infos (?b\<lparr>identifiers := ids1\<rparr>) = Some c'"
    and bs: "bs = map (\<lambda>(u, cid). brief_pod (brief_common u cid False)) gone"
    and s: "sends (pc_base pc) [map json_of_PodInfo infos, map json_of_PodInfo bs] c'"
    and y: "synchronised pi_Common json_of_PodInfo (map pod_info (pods_now k)) (ms @ bs) view (identifiers c')" by auto
  have "map unlink bs = bs" unfolding bs by (auto simp: unlink_def brief_pod_def)
  then have u: "map unlink (infos @ bs) = ms @ bs" using ms by simp
  have v: "view_after pi_Common json_of_PodInfo (map unlink (infos @ bs)) view
      = map_of (map (\<lambda>p. (pod_uid p, json_of_PodInfo (pod_info p))) (pods_now k))"
    "agrees (identifiers c') (map_of (map (\<lambda>p. (pod_uid p, json_of_PodInfo (pod_info p))) (pods_now k)))"
    using y unfolding u by (simp_all add: synchronised_def Let_def comp_def)
  have "pod_Report set_list matches e k (pc, a) = Some (\<lparr>pc_base = c', serviceCollector = sc\<rparr>, a\<lparr>opts := o'\<rparr>)"
    using assms(1,2,3) e c' by (simp add: pod_Report_def pod_reportNotExist_def report_infos_def Let_def bind_eq_Some_conv)
  then show ?thesis
    by (intro exI [of _ "\<lparr>pc_base = c', serviceCollector = sc\<rparr>"] exI [of _ bs] conjI) (assumption | rule bs v(1) | simp add: s v(2))+
qed

text \<open>One pod, reported for the first time by a registered agent to a server that gives it an id.\<close>

definition sample_pod :: Pod where
  "sample_pod = \<lparr>p_UID = ''u1'', p_Name = ''web'', p_Namespace = ''default'', p_Created = [], p_Labels = None,
     Annotations = None, PodIP = ''10.0.0.7'', Phase = ''Running'', p_Reason = [], p_Deleting = False, InitContainers = 0,
     InitContainerStatuses = [], ContainerStatuses = [], OwnerReferences = [(''ReplicaSet'', ''rs1'')]\<rparr>"

definition sample_cluster :: cluster where
  "sample_cluster = \<lparr>clientSet = True, services_now = [], pods_now = [sample_pod]\<rparr>"

definition sample_pc :: PodCollector where
  "sample_pc = \<lparr>pc_base = createK8sBaseCollector PodResource zero_Uri, serviceCollector = NewServiceCollector (\<lambda>_. None)\<rparr>"

definition registered_agent :: agent where
  "registered_agent = sample_agent\<lparr>keys := \<lparr>localAccessKey = ''ak'', localSecureKey = ''sk''\<rparr>\<rparr>"

definition answering :: "(string \<times> json) list \<Rightarrow> env" where
  "answering kvs = sample_env\<lparr>e_chan := \<lambda>u b. Inr (json_print (json_of_response (ReturnSuccessWithResult (JObj kvs))))\<rparr>"

lemma answering_accepts:
  assumes "response_ok (ReturnSuccessWithResult (JObj kvs))" "resource \<noteq> []"
  shows "accepted (answering kvs) (registered_agent\<lparr>opts := o'\<rparr>) c resource kvs"
  using invoke_report_constant [of "registered_agent\<lparr>opts := o'\<rparr>" "answering kvs" "ReturnSuccessWithResult (JObj kvs)" resource c] assms
  by (auto simp: accepted_def answering_def registered_agent_def GetAccessKey_def GetSecureKey_def ReturnSuccessWithResult_def)

lemma sample_response_ok: "response_ok (ReturnSuccessWithResult (JObj [(''u1'', JStr ''c1'')]))"
proof -
  have "valid_utf8 ''success''" "valid_utf8 ''u1''" "valid_utf8 ''c1''" by (auto intro!: valid_utf8_ascii)
  then show ?thesis by (simp add: response_ok_def ReturnSuccessWithResult_def OK_def max_depth_def)
qed

theorem pod_report_synchronises_witness:
  "\<exists>pc' a' r. pod_Report id (\<lambda>s l. True) (answering [(''u1'', JStr ''c1'')]) sample_cluster (sample_pc, registered_agent)
     = Some (pc', a') \<and> sent (pc_base pc') = [r] \<and> known (identifiers (pc_base pc')) ''u1''"
proof -
  let ?kvs = "[(''u1'', JStr ''c1'')]"
  let ?d = "digest (json_of_PodInfo (pod_info sample_pod))"
  let ?v = "\<lparr>r_Uid = ''u1'', r_Cid = [], Md5 = ?d, Curr = True, r_name = ''web''\<rparr>"
  have uid: "pod_uid sample_pod = ''u1''" by (simp add: pod_uid_def sample_pod_def gfind_def)
  have name: "c_Name (pi_Common (pod_info sample_pod)) = ''web''"
    by (simp add: pod_info_def brief_pod_def sample_pod_def Let_def gfind_def)
  obtain sc o' where sc: "setAgentExternalIp id (services_now sample_cluster)
      (SetSelector id True (services_now sample_cluster) (serviceCollector sample_pc)) (opts registered_agent) = Some (sc, o')"
    using setAgentExternalIp_returns [OF SetSelector_client(1)] by blast
  have ids: "identifiers (pc_base sample_pc) = []" by (simp add: sample_pc_def createK8sBaseCollector_def)
  have g: "getPodInfo (\<lambda>s l. True) (selectors sc) (pods_now sample_cluster) (identifiers (pc_base sample_pc))
      = ([fold (selectorMatch (\<lambda>s l. True)) (selectors sc) (pod_info sample_pod)], [(''u1'', ?v)])"
    by (simp add: sample_cluster_def ids handlePodIncrement_def pods.increment_cases uid name Let_def)
  let ?infos = "[fold (selectorMatch (\<lambda>s l. True)) (selectors sc) (pod_info sample_pod)]"
  have "\<exists>pc' bs. pod_Report id (\<lambda>s l. True) (answering ?kvs) sample_cluster (sample_pc, registered_agent)
      = Some (pc', registered_agent\<lparr>opts := o'\<rparr>) \<and> bs = map (\<lambda>(u, cid). brief_pod (brief_common u cid False)) []
    \<and> sends (pc_base sample_pc) [map json_of_PodInfo ?infos, map json_of_PodInfo bs] (pc_base pc')
    \<and> view_after pi_Common json_of_PodInfo (map unlink (?infos @ bs)) Map.empty
        = map_of (map (\<lambda>p. (pod_uid p, json_of_PodInfo (pod_info p))) (pods_now sample_cluster))
    \<and> agrees (identifiers (pc_base pc'))
        (map_of (map (\<lambda>p. (pod_uid p, json_of_PodInfo (pod_info p))) (pods_now sample_cluster)))"
    by (rule pod_report_synchronises [OF _ sc g, where kvs = ?kvs and ?ids2.0 = "[(''u1'', ?v\<lparr>r_Cid := ''c1''\<rparr>)]"])
      (simp_all add: ids uid sample_cluster_def agrees_def known_def no_collision_def cids_ok_def obj_get_def object_map_def
        taken_def answering_accepts sample_response_ok sample_pc_def createK8sBaseCollector_def VirtualNodeHandler_def
        zero_Uri_def PodResource_def TimestampKey_def)
  then show ?thesis
    by (auto simp: sends_def sample_pc_def createK8sBaseCollector_def agrees_def sample_cluster_def uid map_eq_Cons_conv)
qed

text \<open>
  C37: a failed report of vanished pods is not repeated: the cache is emptied with it, and in the next
  cycle, whatever pods there are, nothing is reported as gone.
\<close>

theorem failed_removal_is_lost:
  assumes "sweep (identifiers c) = (gone, ids)"
    and "refused e a c (map (\<lambda>(u, cid). json_of_PodInfo (brief_pod (brief_common u cid False))) gone)"
  shows "\<exists>c'. pod_reportNotExist e a c = Some c' \<and> identifiers c' = []
    \<and> (\<forall>matches sels ps. fst (sweep (snd (getPodInfo matches sels ps (identifiers c')))) = [])"
proof -
  have "fst (sweep (snd (getPodInfo matches sels ps []))) = []" for matches sels ps
    using pods.no_gone_after_reset [of "map pod_info ps"] by (auto simp: getPodInfo_increments split: prod.splits)
  with reportK8sMetric_refused [of e a "c\<lparr>identifiers := ids\<rparr>"] assms show ?thesis
    by (fastforce simp: pod_reportNotExist_def report_gone_def)
qed

theorem failed_removal_is_lost_witness:
  "\<exists>c'. pod_reportNotExist sample_env registered_agent
      ((pc_base sample_pc)\<lparr>identifiers := [(''u1'', \<lparr>r_Uid = ''u1'', r_Cid = ''c1'', Md5 = [], Curr = False, r_name = []\<rparr>)]\<rparr>)
      = Some c' \<and> identifiers c' = []"
proof -
  let ?c = "(pc_base sample_pc)\<lparr>identifiers := [(''u1'', \<lparr>r_Uid = ''u1'', r_Cid = ''c1'', Md5 = [], Curr = False, r_name = []\<rparr>)]\<rparr>"
  have k: "GetAccessKey (keys registered_agent) \<noteq> []" "GetSecureKey (keys registered_agent) \<noteq> []"
    by (simp_all add: registered_agent_def GetAccessKey_def GetSecureKey_def)
  have "refused sample_env registered_agent ?c (map (\<lambda>(u, cid). json_of_PodInfo (brief_pod (brief_common u cid False))) [(''u1'', ''c1'')])"
    using invoke_report_registered [OF k, of sample_env] by (fastforce simp: refused_def answer_def sample_env_def)
  from failed_removal_is_lost [OF _ this] show ?thesis by force
qed

section \<open>Links to services\<close>

lemma selectorMatch_keeps [simp]:
  "pi_Namespace (selectorMatch matches s p) = pi_Namespace p" "pi_Common (selectorMatch matches s p) = pi_Common p"
  by (simp_all add: selectorMatch_def addLink_def)

lemma links_keep [simp]:
  "pi_Namespace (fold (selectorMatch matches) sels p) = pi_Namespace p"
  "pi_Common (fold (selectorMatch matches) sels p) = pi_Common p"
  by (induction sels arbitrary: p) simp_all

lemma selectorMatch_ServiceUid:
  "sel_resource s = ServiceResource \<Longrightarrow> ServiceUid (selectorMatch matches s p) =
     (if sel_namespace s = pi_Namespace p \<and> matches (sel_set s) (c_Labels (pi_Common p)) then sel_uid s else ServiceUid p)"
  by (simp add: selectorMatch_def addLink_def)

text \<open>
  a pod is linked to the last service in the listing that lies in the pod's namespace and whose
  selector matches the pod's labels, and to none where there is no such service.
\<close>

theorem pod_link_is_last_match:
  assumes "\<forall>s \<in> set sels. sel_resource s = ServiceResource"
  shows "ServiceUid (fold (selectorMatch matches) sels p) =
    (case filter (\<lambda>s. sel_namespace s = pi_Namespace p \<and> matches (sel_set s) (c_Labels (pi_Common p))) (rev sels) of
       [] \<Rightarrow> ServiceUid p | s # _ \<Rightarrow> sel_uid s)"
  using assms
proof (induction sels rule: rev_induct)
  case (snoc s sels)
  then show ?case by (simp add: selectorMatch_ServiceUid)
qed simp

theorem pod_link_is_last_match_witness:
  "ServiceUid (fold (selectorMatch (\<lambda>s l. True))
      [\<lparr>sel_namespace = ''a'', sel_set = [], sel_resource = ServiceResource, sel_uid = ''s1''\<rparr>,
       \<lparr>sel_namespace = ''b'', sel_set = [], sel_resource = ServiceResource, sel_uid = ''s2''\<rparr>]
      ((brief_pod zero_CommonInfo)\<lparr>pi_Namespace := ''a''\<rparr>)) = ''s1''"
  by (subst pod_link_is_last_match) (simp_all add: brief_pod_def)

text \<open>
  a change of the services alone is not reported for an unchanged pod the server knows: its message
  is the brief one, whatever the selectors are.
\<close>

theorem link_change_is_not_reported:
  assumes "map_of ids (pod_uid pod) = Some v" "r_Cid v \<noteq> []" "Md5 v = digest (json_of_PodInfo (pod_info pod))"
    and "\<forall>s \<in> set sels. sel_namespace s \<noteq> []"
  shows "fst (getPodInfo matches sels [pod] ids) = [brief_pod (brief_common (r_Uid v) (r_Cid v) True)]"
proof -
  have "fold (selectorMatch matches) sels (brief_pod c) = brief_pod c" for c
    using assms(4) by (induction sels) (simp_all add: selectorMatch_def brief_pod_def)
  with assms(1-3) show ?thesis by (simp add: handlePodIncrement_def pods.increment_cases Let_def)
qed

theorem link_change_is_not_reported_witness:
  "fst (getPodInfo (\<lambda>s l. True)
      [\<lparr>sel_namespace = ''default'', sel_set = [], sel_resource = ServiceResource, sel_uid = ''s1''\<rparr>] [sample_pod]
      [(''u1'', \<lparr>r_Uid = ''u1'', r_Cid = ''c1'', Md5 = digest (json_of_PodInfo (pod_info sample_pod)), Curr = False, r_name = []\<rparr>)])
   = [brief_pod (brief_common ''u1'' ''c1'' True)]"
proof -
  let ?v = "\<lparr>r_Uid = ''u1'', r_Cid = ''c1'', Md5 = digest (json_of_PodInfo (pod_info sample_pod)), Curr = False, r_name = []\<rparr>"
  have "pod_uid sample_pod = ''u1''" by (simp add: pod_uid_def sample_pod_def gfind_def)
  then have "map_of [(''u1'', ?v)] (pod_uid sample_pod) = Some ?v" by simp
  from link_change_is_not_reported [OF this, of "[\<lparr>sel_namespace = ''default'', sel_set = [], sel_resource = ServiceResource, sel_uid = ''s1''\<rparr>]"
      "\<lambda>s l. True"] show ?thesis by (simp del: getPodInfo.simps)
qed

section \<open>The agent's address: correctness\<close>

lemma pick_external_ip_sound:
  "pick_external_ip infos = Some ip \<Longrightarrow>
     ip \<noteq> [] \<and> ip \<notin> set invalidIPs
     \<and> (\<exists>i \<in> set infos. c_Name (si_Common i) = DefaultAgentServiceName
          \<and> ExternalIp i \<notin> set invalidIPs \<and> ip = TrimSpace (hd (Split (CHR '','') (ExternalIp i))))"
  by (induction infos rule: pick_external_ip.induct) (auto simp: Let_def split: if_splits)

text \<open>The cache of a collector whose resources were never reported has no ids, and stays so.\<close>

definition no_cids :: "identifiers \<Rightarrow> bool" where
  "no_cids ids \<longleftrightarrow> (\<forall>k v. map_of ids k = Some v \<longrightarrow> r_Cid v = [])"

lemma increments_no_cids:
  "no_cids ids \<Longrightarrow> fst (increments si_Common brief_service json_of_ServiceInfo infos ids) = infos
     \<and> no_cids (snd (increments si_Common brief_service json_of_ServiceInfo infos ids))"
proof (induction infos arbitrary: ids)
  case (Cons i infos)
  have "no_cids (snd (handleIncrement si_Common brief_service json_of_ServiceInfo i ids))"
    using Cons.prems by (auto simp: no_cids_def services.increment_lookup split: option.splits if_splits)
  moreover have "fst (handleIncrement si_Common brief_service json_of_ServiceInfo i ids) = i"
    using Cons.prems by (auto simp: no_cids_def services.increment_cases Let_def split: option.splits)
  ultimately show ?case using Cons.IH by (simp add: increments_Cons Let_def)
qed simp

text \<open>
  the agent's address is only ever taken from its own service: where \<open>--localIp\<close> is given the options
  are unchanged; otherwise they are unchanged or the address becomes the first external address of a
  service named \<open>chaos-agent\<close>, trimmed, neither empty nor one of the placeholders; and the services are
  read in full at every call, since the service cache never holds an id.
\<close>

theorem agent_ip_from_own_service:
  assumes "setAgentExternalIp set_list ss sc o' = Some (sc', o'')" "no_cids (identifiers (sc_base sc))"
  shows "(o'' = o' \<or> LocalIp o' = [] \<and> o'' = o'\<lparr>Ip := Ip o''\<rparr> \<and> Ip o'' \<noteq> [] \<and> Ip o'' \<notin> set invalidIPs
            \<and> (\<exists>s \<in> set ss. s_Name s = DefaultAgentServiceName
                 \<and> Ip o'' = TrimSpace (hd (Split (CHR '','') (getServiceExternalIP set_list s True)))))
    \<and> (LocalIp o' = [] \<longrightarrow> o'' = (case pick_external_ip (map (service_info set_list) ss) of None \<Rightarrow> o' | Some ip \<Rightarrow> o'\<lparr>Ip := ip\<rparr>))
    \<and> no_cids (identifiers (sc_base sc'))"
proof (cases "LocalIp o' = []")
  case True
  let ?ms = "map (service_info set_list) ss"
  have o'': "o'' = (case pick_external_ip ?ms of None \<Rightarrow> o' | Some ip \<Rightarrow> o'\<lparr>Ip := ip\<rparr>)" and n: "no_cids (identifiers (sc_base sc'))"
    using assms True increments_no_cids [OF assms(2), of ?ms]
    by (auto simp: setAgentExternalIp_def getServiceInfo_increments Let_def split: prod.splits if_splits)
  show ?thesis
  proof (cases "pick_external_ip ?ms")
    case None
    with o'' n show ?thesis by simp
  next
    case (Some ip)
    from pick_external_ip_sound [OF Some] o'' Some True n show ?thesis
      by (auto simp: service_info_def)
  qed
next
  case False
  with assms show ?thesis by (simp add: setAgentExternalIp_def)
qed

definition sample_service :: Service where
  "sample_service = \<lparr>s_UID = ''s1'', s_Name = ''chaos-agent'', s_Namespace = ''default'', s_Created = [], s_Labels = None,
     s_Type = ''NodePort'', ClusterIP = [], ExternalIPs = [''1.2.3.4'', ''5.6.7.8''], ExternalName = [], s_Ports = [],
     s_Selector = None, LoadBalancer = []\<rparr>"

theorem agent_ip_from_own_service_witness:
  "\<exists>sc' o''. setAgentExternalIp id [sample_service] (SetSelector id True [] (NewServiceCollector (\<lambda>_. None))) zero_Options
      = Some (sc', o'') \<and> Ip o'' = ''1.2.3.4''"
proof -
  let ?sc = "SetSelector id True [] (NewServiceCollector (\<lambda>_. None))"
  obtain sc' o'' where s: "setAgentExternalIp id [sample_service] ?sc zero_Options = Some (sc', o'')"
    using setAgentExternalIp_returns [OF SetSelector_client(1)] by blast
  have "no_cids (identifiers (sc_base ?sc))"
    by (simp add: no_cids_def SetSelector_def ensure_indexer_def NewServiceCollector_def createK8sBaseCollector_def)
  moreover have "TrimSpace ''1.2.3.4'' = ''1.2.3.4''" by code_simp
  ultimately have "o'' = zero_Options\<lparr>Ip := ''1.2.3.4''\<rparr>"
    using agent_ip_from_own_service [OF s]
    by (simp add: zero_Options_def service_info_def sample_service_def DefaultAgentServiceName_def getServiceExternalIP_def
        invalidIPs_def Let_def)
  with s show ?thesis by simp
qed

end
