(* ===== verification/Agent_Workloads.thy ===== *)
theory Agent_Workloads
  imports Agent_Pods
begin

text \<open>
  The collectors of namespaces, deployments, replica sets, daemon sets, nodes, ingresses and virtual
  nodes (the other files of \<open>collector/kubernetes\<close>). Each has its info with the JSON form, the reading
  of an API object, and the report; the incremental part is the one of \<open>Agent_Collector\<close>, through the
  interpretation of \<open>resource_info\<close> on each info type.

  Integers an object carries (\<open>int32\<close> and \<open>int64\<close>) are passed on unchanged and are \<^typ>\<open>int\<close> here. The
  JSON form of a type of the Kubernetes library (\<open>IngressTLS\<close>, \<open>NodeSystemInfo\<close>, \<open>NodeAddress\<close>) and
  the text of a resource quantity are part of the object.
\<close>

section \<open>Metadata of an object\<close>

record meta =
  m_UID :: string
  m_Name :: string
  m_Namespace :: string
  m_Created :: string
  m_Labels :: gomap
  m_Owners :: "(string \<times> string) list"

definition common_of :: "meta \<Rightarrow> CommonInfo" where
  "common_of m = \<lparr>c_Uid = m_UID m, c_Name = m_Name m, CreatedTime = m_Created m, c_Labels = m_Labels m,
     Exist = True, c_Cid = []\<rparr>"

lemma common_of_fields [simp]:
  "c_Uid (common_of m) = m_UID m" "Exist (common_of m)" "c_Cid (common_of m) = []"
  by (simp_all add: common_of_def)

section \<open>Namespaces\<close>

record NamespaceInfo =
  ni_Common :: CommonInfo

definition json_of_NamespaceInfo :: "NamespaceInfo \<Rightarrow> json" where
  "json_of_NamespaceInfo n = JObj (common_members (ni_Common n))"

definition brief_namespace :: "CommonInfo \<Rightarrow> NamespaceInfo" where
  "brief_namespace c = \<lparr>ni_Common = c\<rparr>"

interpretation namespaces: resource_info ni_Common brief_namespace json_of_NamespaceInfo
  by unfold_locales (simp add: brief_namespace_def)

definition NewNamespaceCollector :: "(string \<rightharpoonup> Uri) \<Rightarrow> K8sBaseCollector option" where
  "NewNamespaceCollector m = map_option (createK8sBaseCollector NodeResource) (m ''k8sNamespace'')"

definition getNamespaces :: "meta list \<Rightarrow> K8sBaseCollector \<Rightarrow> string + string list" where
  "getNamespaces lst c =
     (if \<not> indexer c then Inl ''namespace index is nil'' else Inr (map (TrimSpace \<circ> m_Name) lst))"

definition handleNamespaceIncrement :: "NamespaceInfo \<Rightarrow> identifiers \<Rightarrow> NamespaceInfo \<times> identifiers" where
  "handleNamespaceIncrement = handleIncrement ni_Common brief_namespace json_of_NamespaceInfo"

definition getNamespaceInfo :: "meta list \<Rightarrow> NamespaceInfo list" where
  "getNamespaceInfo lst = map (\<lambda>m. \<lparr>ni_Common = common_of m\<rparr>) lst"

definition namespace_reportNotExist :: "env \<Rightarrow> agent \<Rightarrow> K8sBaseCollector \<Rightarrow> K8sBaseCollector go" where
  "namespace_reportNotExist = report_gone brief_namespace json_of_NamespaceInfo"

definition namespace_Report :: "bool \<Rightarrow> env \<Rightarrow> agent \<Rightarrow> meta list \<Rightarrow> K8sBaseCollector \<Rightarrow> K8sBaseCollector go" where
  "namespace_Report client e a lst c =
     (case ensure_indexer client c of
        None \<Rightarrow> Some c
      | Some b \<Rightarrow> report_listing handleNamespaceIncrement json_of_NamespaceInfo namespace_reportNotExist e a (getNamespaceInfo lst) b)"

section \<open>Deployments\<close>

record Deployment =
  d_meta :: meta
  d_AvailableReplicas :: int
  d_SpecReplicas :: "int option"
  d_ObservedGeneration :: int
  d_ReadyReplicas :: int
  d_UpdatedReplicas :: int
  d_UnavailableReplicas :: int
  d_Strategy :: string

record DeploymentInfo =
  di_Common :: CommonInfo
  di_Namespace :: string
  AvailableReplicas :: int
  Replicas :: int
  ObservedGeneration :: int
  ReadyReplicas :: int
  UpdatedReplicas :: int
  Strategy :: string
  UnavailableReplicas :: int

definition json_of_DeploymentInfo :: "DeploymentInfo \<Rightarrow> json" where
  "json_of_DeploymentInfo d = JObj (common_members (di_Common d)
     @ opt_str ''namespace'' (di_Namespace d) @ opt_int ''availableReplicas'' (AvailableReplicas d)
     @ opt_int ''replicas'' (Replicas d) @ opt_int ''observedGeneration'' (ObservedGeneration d)
     @ opt_int ''readyReplicas'' (ReadyReplicas d) @ opt_int ''updatedReplicas'' (UpdatedReplicas d)
     @ opt_str ''strategy'' (Strategy d) @ opt_int ''unavailableReplicas'' (UnavailableReplicas d))"

definition brief_deployment :: "CommonInfo \<Rightarrow> DeploymentInfo" where
  "brief_deployment c = \<lparr>di_Common = c, di_Namespace = [], AvailableReplicas = 0, Replicas = 0, ObservedGeneration = 0,
     ReadyReplicas = 0, UpdatedReplicas = 0, Strategy = [], UnavailableReplicas = 0\<rparr>"

interpretation deployments: resource_info di_Common brief_deployment json_of_DeploymentInfo
  by unfold_locales (simp add: brief_deployment_def)

definition NewDeploymentCollector :: "(string \<rightharpoonup> Uri) \<Rightarrow> K8sBaseCollector option" where
  "NewDeploymentCollector m = map_option (createK8sBaseCollector DeploymentResource) (m ''k8sDeployment'')"

text \<open>\<open>*d.Spec.Replicas\<close> panics on a nil pointer.\<close>

definition deployment_info :: "Deployment \<Rightarrow> DeploymentInfo go" where
  "deployment_info d =
     map_option (\<lambda>n. \<lparr>di_Common = common_of (d_meta d), di_Namespace = m_Namespace (d_meta d),
        AvailableReplicas = d_AvailableReplicas d, Replicas = n, ObservedGeneration = d_ObservedGeneration d,
        ReadyReplicas = d_ReadyReplicas d, UpdatedReplicas = d_UpdatedReplicas d, Strategy = d_Strategy d,
        UnavailableReplicas = d_UnavailableReplicas d\<rparr>) (d_SpecReplicas d)"

definition handleDeploymentIncrement :: "DeploymentInfo \<Rightarrow> identifiers \<Rightarrow> DeploymentInfo \<times> identifiers" where
  "handleDeploymentIncrement = handleIncrement di_Common brief_deployment json_of_DeploymentInfo"

definition getDeploymentInfo :: "Deployment list \<Rightarrow> DeploymentInfo list go" where
  "getDeploymentInfo lst = those (map deployment_info lst)"

definition deployment_reportNotExist :: "env \<Rightarrow> agent \<Rightarrow> K8sBaseCollector \<Rightarrow> K8sBaseCollector go" where
  "deployment_reportNotExist = report_gone brief_deployment json_of_DeploymentInfo"

definition deployment_Report :: "bool \<Rightarrow> env \<Rightarrow> agent \<Rightarrow> Deployment list \<Rightarrow> K8sBaseCollector \<Rightarrow> K8sBaseCollector go" where
  "deployment_Report client e a lst c =
     (case ensure_indexer client c of
        None \<Rightarrow> Some c
      | Some b \<Rightarrow>
          do {
            infos \<leftarrow> getDeploymentInfo lst;
            report_listing handleDeploymentIncrement json_of_DeploymentInfo deployment_reportNotExist e a infos b
          })"

section \<open>Replica sets\<close>

record ReplicaSet =
  r_meta :: meta
  r_AvailableReplicas :: int
  r_Replicas :: int
  r_ObservedGeneration :: int
  r_ReadyReplicas :: int

record ReplicaSetInfo =
  ri_Common :: CommonInfo
  ri_Namespace :: string
  ri_AvailableReplicas :: int
  ri_Replicas :: int
  ri_ObservedGeneration :: int
  ri_ReadyReplicas :: int
  ri_DeploymentUid :: string

definition json_of_ReplicaSetInfo :: "ReplicaSetInfo \<Rightarrow> json" where
  "json_of_ReplicaSetInfo r = JObj (common_members (ri_Common r)
     @ opt_str ''namespace'' (ri_Namespace r) @ opt_int ''availableReplicas'' (ri_AvailableReplicas r)
     @ opt_int ''replicas'' (ri_Replicas r) @ opt_int ''observedGeneration'' (ri_ObservedGeneration r)
     @ opt_int ''readyReplicas'' (ri_ReadyReplicas r) @ opt_str ''deploymentUid'' (ri_DeploymentUid r))"

definition brief_replicaset :: "CommonInfo \<Rightarrow> ReplicaSetInfo" where
  "brief_replicaset c = \<lparr>ri_Common = c, ri_Namespace = [], ri_AvailableReplicas = 0, ri_Replicas = 0,
     ri_ObservedGeneration = 0, ri_ReadyReplicas = 0, ri_DeploymentUid = []\<rparr>"

interpretation replicasets: resource_info ri_Common brief_replicaset json_of_ReplicaSetInfo
  by unfold_locales (simp add: brief_replicaset_def)

definition NewReplicasetCollector :: "(string \<rightharpoonup> Uri) \<Rightarrow> K8sBaseCollector option" where
  "NewReplicasetCollector m = map_option (createK8sBaseCollector NodeResource) (m ''k8sReplicaset'')"

text \<open>The last owner of kind \<open>Deployment\<close> counts.\<close>

fun owning_deployment :: "string \<Rightarrow> (string \<times> string) list \<Rightarrow> string" where
  "owning_deployment uid [] = uid"
| "owning_deployment uid ((kind, ref) # refs) = owning_deployment (if kind = ''Deployment'' then ref else uid) refs"

definition replicaset_info :: "ReplicaSet \<Rightarrow> ReplicaSetInfo" where
  "replicaset_info rs =
     \<lparr>ri_Common = common_of (r_meta rs), ri_Namespace = m_Namespace (r_meta rs),
      ri_AvailableReplicas = r_AvailableReplicas rs, ri_Replicas = r_Replicas rs,
      ri_ObservedGeneration = r_ObservedGeneration rs, ri_ReadyReplicas = r_ReadyReplicas rs,
      ri_DeploymentUid = owning_deployment [] (m_Owners (r_meta rs))\<rparr>"

definition handleReplicaSetIncrement :: "ReplicaSetInfo \<Rightarrow> identifiers \<Rightarrow> ReplicaSetInfo \<times> identifiers" where
  "handleReplicaSetIncrement = handleIncrement ri_Common brief_replicaset json_of_ReplicaSetInfo"

definition replicaset_reportNotExist :: "env \<Rightarrow> agent \<Rightarrow> K8sBaseCollector \<Rightarrow> K8sBaseCollector go" where
  "replicaset_reportNotExist = report_gone brief_replicaset json_of_ReplicaSetInfo"

definition replicaset_Report :: "bool \<Rightarrow> env \<Rightarrow> agent \<Rightarrow> ReplicaSet list \<Rightarrow> K8sBaseCollector \<Rightarrow> K8sBaseCollector go" where
  "replicaset_Report client e a lst c =
     (case ensure_indexer client c of
        None \<Rightarrow> Some c
      | Some b \<Rightarrow> report_listing handleReplicaSetIncrement json_of_ReplicaSetInfo replicaset_reportNotExist e a (map replicaset_info lst) b)"

section \<open>Daemon sets\<close>

record DaemonSet =
  s_meta :: meta
  s_CurrentNumberScheduled :: int
  s_DesiredNumberScheduled :: int
  s_NumberAvailable :: int
  s_NumberMisscheduled :: int
  s_NumberReady :: int
  s_UpdatedNumberScheduled :: int
  s_UpdateStrategy :: string

text \<open>\<open>ObservedGeneration\<close> of the info is never set.\<close>

record DaemonsetInfo =
  dsi_Common :: CommonInfo
  dsi_Namespace :: string
  CurrentNumberScheduled :: int
  DesiredNumberScheduled :: int
  NumberAvailable :: int
  NumberMisscheduled :: int
  NumberReady :: int
  dsi_ObservedGeneration :: int
  UpdatedNumberScheduled :: int
  UpdateStrategy :: string

definition json_of_DaemonsetInfo :: "DaemonsetInfo \<Rightarrow> json" where
  "json_of_DaemonsetInfo d = JObj (common_members (dsi_Common d)
     @ opt_str ''namespace'' (dsi_Namespace d) @ opt_int ''currentNumberScheduled'' (CurrentNumberScheduled d)
     @ opt_int ''desiredNumberScheduled'' (DesiredNumberScheduled d) @ opt_int ''numberAvailable'' (NumberAvailable d)
     @ opt_int ''numberMisscheduled'' (NumberMisscheduled d) @ opt_int ''int32'' (NumberReady d)
     @ opt_int ''observedGeneration'' (dsi_ObservedGeneration d)
     @ opt_int ''updatedNumberScheduled'' (UpdatedNumberScheduled d) @ opt_str ''updateStrategy'' (UpdateStrategy d))"

definition brief_daemonset :: "CommonInfo \<Rightarrow> DaemonsetInfo" where
  "brief_daemonset c = \<lparr>dsi_Common = c, dsi_Namespace = [], CurrentNumberScheduled = 0, DesiredNumberScheduled = 0,
     NumberAvailable = 0, NumberMisscheduled = 0, NumberReady = 0, dsi_ObservedGeneration = 0,
     UpdatedNumberScheduled = 0, UpdateStrategy = []\<rparr>"

interpretation daemonsets: resource_info dsi_Common brief_daemonset json_of_DaemonsetInfo
  by unfold_locales (simp add: brief_daemonset_def)

definition NewDaemonsetCollector :: "(string \<rightharpoonup> Uri) \<Rightarrow> K8sBaseCollector option" where
  "NewDaemonsetCollector m = map_option (createK8sBaseCollector DaemonsetResource) (m ''k8sDaemonset'')"

definition daemonset_info :: "DaemonSet \<Rightarrow> DaemonsetInfo" where
  "daemonset_info d =
     (brief_daemonset (common_of (s_meta d)))
       \<lparr>dsi_Namespace := m_Namespace (s_meta d), CurrentNumberScheduled := s_CurrentNumberScheduled d,
        DesiredNumberScheduled := s_DesiredNumberScheduled d, NumberAvailable := s_NumberAvailable d,
        NumberMisscheduled := s_NumberMisscheduled d, NumberReady := s_NumberReady d,
        UpdatedNumberScheduled := s_UpdatedNumberScheduled d, UpdateStrategy := s_UpdateStrategy d\<rparr>"

definition handleDaemonsetIncrement :: "DaemonsetInfo \<Rightarrow> identifiers \<Rightarrow> DaemonsetInfo \<times> identifiers" where
  "handleDaemonsetIncrement = handleIncrement dsi_Common brief_daemonset json_of_DaemonsetInfo"

definition daemonset_reportNotExist :: "env \<Rightarrow> agent \<Rightarrow> K8sBaseCollector \<Rightarrow> K8sBaseCollector go" where
  "daemonset_reportNotExist = report_gone brief_daemonset json_of_DaemonsetInfo"

definition daemonset_Report :: "bool \<Rightarrow> env \<Rightarrow> agent \<Rightarrow> DaemonSet list \<Rightarrow> K8sBaseCollector \<Rightarrow> K8sBaseCollector go" where
  "daemonset_Report client e a lst c =
     (case ensure_indexer client c of
        None \<Rightarrow> Some c
      | Some b \<Rightarrow> report_listing handleDaemonsetIncrement json_of_DaemonsetInfo daemonset_reportNotExist e a (map daemonset_info lst) b)"

section \<open>Nodes\<close>

text \<open>The quantities of a node are kept as the texts the Kubernetes library prints them with.\<close>

record Node =
  n_meta :: meta
  n_SystemInfo :: json
  n_Allocatable :: "(string \<times> string) list"
  n_Addresses :: "json list"

record NodeInfo =
  no_Uid :: string
  no_Name :: string
  no_Role :: string
  no_ClusterId :: string
  no_ClusterName :: string

definition json_of_NodeInfo :: "NodeInfo \<Rightarrow> json" where
  "json_of_NodeInfo n = JObj [(''uid'', JStr (no_Uid n)), (''name'', JStr (no_Name n)), (''role'', JStr (no_Role n)),
     (''clusterId'', JStr (no_ClusterId n)), (''clusterName'', JStr (no_ClusterName n))]"

definition NewNodeCollector :: "(string \<rightharpoonup> Uri) \<Rightarrow> K8sBaseCollector option" where
  "NewNodeCollector m = map_option (createK8sBaseCollector NodeResource) (m ''k8sNode'')"

definition labelNodeRolePrefix :: string where "labelNodeRolePrefix = ''node-role.kubernetes.io/''"
definition nodeLabelRole :: string where "nodeLabelRole = ''kubernetes.io/role''"

definition role_of_label :: "string \<times> string \<Rightarrow> string list" where
  "role_of_label kv =
     (let (k, v) = kv in
      if prefix labelNodeRolePrefix k then
        (let role = drop (length labelNodeRolePrefix) k in if role \<noteq> [] then [role] else [])
      else if k = nodeLabelRole \<and> v \<noteq> [] then [v] else [])"

definition findNodeRoles :: "(string list \<Rightarrow> string list) \<Rightarrow> Node \<Rightarrow> string list" where
  "findNodeRoles set_list node =
     set_list (concat (map role_of_label (case m_Labels (n_meta node) of None \<Rightarrow> [] | Some ls \<Rightarrow> ls)))"

definition roles_text :: "string list \<Rightarrow> string" where
  "roles_text roles = (if roles \<noteq> [] then Join '','' roles else ''<none>'')"

text \<open>The loop leaves after the first node.\<close>

definition getNodeInfo :: "(string list \<Rightarrow> string list) \<Rightarrow> Options \<Rightarrow> Node list \<Rightarrow> NodeInfo list" where
  "getNodeInfo set_list o' lst =
     (case lst of
        [] \<Rightarrow> []
      | node # _ \<Rightarrow> [\<lparr>no_Uid = m_UID (n_meta node), no_Name = m_Name (n_meta node),
                     no_Role = roles_text (findNodeRoles set_list node), no_ClusterId = ClusterId o', no_ClusterName = []\<rparr>])"

definition node_Report ::
  "(string list \<Rightarrow> string list) \<Rightarrow> bool \<Rightarrow> env \<Rightarrow> agent \<Rightarrow> Node list \<Rightarrow> K8sBaseCollector \<Rightarrow> K8sBaseCollector go" where
  "node_Report set_list client e a lst c =
     (case ensure_indexer client c of
        None \<Rightarrow> Some c
      | Some b \<Rightarrow> reportK8sMetric e a True (map json_of_NodeInfo (getNodeInfo set_list (opts a) lst)) b)"

section \<open>Ingresses\<close>

record IngressBackend =
  ServiceName :: string
  be_ServicePort :: string
  be_ServiceUid :: string

record HTTPIngressPath =
  Path :: string
  Backend :: IngressBackend

record IngressRule =
  Host :: string
  Paths :: "HTTPIngressPath list"

record IngressInfo =
  ii_Common :: CommonInfo
  ii_Namespace :: string
  Address :: string
  ii_Annotations :: gomap
  Tls :: "json list"
  Rules :: "IngressRule list"

text \<open>An \<open>Ingress\<close> object: a rule is its host and, where \<open>HTTP\<close> is set, the paths with their backends.\<close>

record Ingress =
  i_meta :: meta
  i_Annotations :: gomap
  i_TLS :: "json list"
  i_LoadBalancer :: "(string \<times> string) list"
  i_Rules :: "(string \<times> (string \<times> string \<times> IntOrString) list option) list"

definition json_of_path :: "HTTPIngressPath \<Rightarrow> json" where
  "json_of_path p = JObj (opt_str ''path'' (Path p)
     @ [(''backend'', JObj [(''serviceName'', JStr (ServiceName (Backend p))), (''servicePort'', JStr (be_ServicePort (Backend p))),
          (''serviceUid'', JStr (be_ServiceUid (Backend p)))])])"

definition json_of_rule :: "IngressRule \<Rightarrow> json" where
  "json_of_rule r = JObj (opt_str ''host'' (Host r) @ [(''http'', JObj [(''paths'', JArr (map json_of_path (Paths r)))])])"

definition opt_arr :: "string \<Rightarrow> json list \<Rightarrow> (string \<times> json) list" where
  "opt_arr k js = (if js = [] then [] else [(k, JArr js)])"

definition json_of_IngressInfo :: "IngressInfo \<Rightarrow> json" where
  "json_of_IngressInfo i = JObj (common_members (ii_Common i)
     @ opt_str ''Namespace'' (ii_Namespace i) @ opt_str ''Address'' (Address i) @ opt_map ''Annotations'' (ii_Annotations i)
     @ opt_arr ''Tls'' (Tls i) @ opt_arr ''Rules'' (map json_of_rule (Rules i)))"

definition brief_ingress :: "CommonInfo \<Rightarrow> IngressInfo" where
  "brief_ingress c = \<lparr>ii_Common = c, ii_Namespace = [], Address = [], ii_Annotations = None, Tls = [], Rules = []\<rparr>"

interpretation ingresses: resource_info ii_Common brief_ingress json_of_IngressInfo
  by unfold_locales (simp add: brief_ingress_def)

definition NewIngressCollector :: "(string \<rightharpoonup> Uri) \<Rightarrow> K8sBaseCollector option" where
  "NewIngressCollector m = map_option (createK8sBaseCollector ''ingresses'') (m ''k8sIgress'')"

text \<open>The lookup of a service's uid goes to the cache of the collector itself.\<close>

definition generateIngressRules :: "K8sBaseCollector \<Rightarrow> Ingress \<Rightarrow> IngressRule list" where
  "generateIngressRules c ing =
     map (\<lambda>(host, http).
       \<lparr>Host = host,
        Paths = map (\<lambda>(path, service, port).
          \<lparr>Path = path, Backend = \<lparr>ServiceName = service, be_ServicePort = getServicePort port,
             be_ServiceUid = getServiceUidByName c service\<rparr>\<rparr>) (case http of None \<Rightarrow> [] | Some ps \<Rightarrow> ps)\<rparr>) (i_Rules ing)"

text \<open>The addresses go through \<open>tools.Set\<close>, whose keys come in the order \<open>ord\<close> of a map.\<close>

definition ingress_address :: "(string list \<Rightarrow> string list) \<Rightarrow> Ingress \<Rightarrow> string" where
  "ingress_address ord ing =
     (if i_LoadBalancer ing = [] then []
      else Join '','' (ord (Set_Keys (fold Set_Add (lb_names (i_LoadBalancer ing)) NewSet))))"

definition ingress_info :: "(string list \<Rightarrow> string list) \<Rightarrow> K8sBaseCollector \<Rightarrow> Ingress \<Rightarrow> IngressInfo" where
  "ingress_info ord c ing =
     \<lparr>ii_Common = common_of (i_meta ing), ii_Namespace = m_Namespace (i_meta ing), Address = ingress_address ord ing,
      ii_Annotations = i_Annotations ing, Tls = i_TLS ing, Rules = generateIngressRules c ing\<rparr>"

definition handleIngressIncrement :: "IngressInfo \<Rightarrow> identifiers \<Rightarrow> IngressInfo \<times> identifiers" where
  "handleIngressIncrement = handleIncrement ii_Common brief_ingress json_of_IngressInfo"

fun getIngressInfo :: "(string list \<Rightarrow> string list) \<Rightarrow> Ingress list \<Rightarrow> K8sBaseCollector \<Rightarrow> IngressInfo list \<times> K8sBaseCollector" where
  "getIngressInfo ord [] c = ([], c)"
| "getIngressInfo ord (ing # ings) c =
     (let (info, ids) = handleIngressIncrement (ingress_info ord c ing) (identifiers c);
          (infos, c') = getIngressInfo ord ings (c\<lparr>identifiers := ids\<rparr>)
      in (info # infos, c'))"

definition ingress_reportNotExist :: "env \<Rightarrow> agent \<Rightarrow> K8sBaseCollector \<Rightarrow> K8sBaseCollector go" where
  "ingress_reportNotExist = report_gone brief_ingress json_of_IngressInfo"

definition ingress_Report ::
  "(string list \<Rightarrow> string list) \<Rightarrow> bool \<Rightarrow> env \<Rightarrow> agent \<Rightarrow> Ingress list \<Rightarrow> K8sBaseCollector \<Rightarrow> K8sBaseCollector go" where
  "ingress_Report ord client e a lst c =
     (case ensure_indexer client c of
        None \<Rightarrow> Some c
      | Some b \<Rightarrow>
          (let (infos, b') = getIngressInfo ord lst b in
           do {
             b \<leftarrow> reportK8sMetric e a True (map json_of_IngressInfo infos) b';
             ingress_reportNotExist e a b
           }))"

section \<open>Virtual nodes\<close>

record NodeCapacity =
  nc_Cpu :: string
  nc_Memory :: string

text \<open>A quantity that is missing is the zero value, which prints as 0.\<close>

definition getNodeCapacity :: "(string \<times> string) list \<Rightarrow> NodeCapacity" where
  "getNodeCapacity allocatable =
     (let quantity = (\<lambda>name. case map_of allocatable name of Some q \<Rightarrow> q | None \<Rightarrow> ''0'')
      in \<lparr>nc_Cpu = quantity ''cpu'', nc_Memory = quantity ''memory''\<rparr>)"

record VirtualNodeInfo =
  vi_Common :: CommonInfo
  vi_Role :: string
  vi_ClusterId :: string
  vi_ClusterName :: string
  vi_NodeInfo :: json
  vi_Capacity :: NodeCapacity
  vi_Addresses :: "json list"
  vi_Pods :: "PodInfo list"

definition json_of_VirtualNodeInfo :: "VirtualNodeInfo \<Rightarrow> json" where
  "json_of_VirtualNodeInfo v = JObj (common_members (vi_Common v)
     @ opt_str ''role'' (vi_Role v) @ opt_str ''clusterId'' (vi_ClusterId v) @ opt_str ''clusterName'' (vi_ClusterName v)
     @ [(''nodeInfo'', vi_NodeInfo v), (''capacity'', JObj (opt_str ''cpu'' (nc_Cpu (vi_Capacity v)) @ opt_str ''memory'' (nc_Memory (vi_Capacity v))))]
     @ opt_arr ''addresses'' (vi_Addresses v) @ opt_arr ''pods'' (map json_of_PodInfo (vi_Pods v)))"

text \<open>\<open>zs\<close> is the JSON form of the zero \<open>NodeSystemInfo\<close>.\<close>

definition brief_vnode :: "json \<Rightarrow> CommonInfo \<Rightarrow> VirtualNodeInfo" where
  "brief_vnode zs c = \<lparr>vi_Common = c, vi_Role = [], vi_ClusterId = [], vi_ClusterName = [], vi_NodeInfo = zs,
     vi_Capacity = \<lparr>nc_Cpu = [], nc_Memory = []\<rparr>, vi_Addresses = [], vi_Pods = []\<rparr>"

interpretation vnodes: resource_info vi_Common "brief_vnode zs" json_of_VirtualNodeInfo for zs
  by unfold_locales (simp add: brief_vnode_def)

record VirtualNodeCollector =
  vc_base :: K8sBaseCollector
  nodeIndex :: bool
  podIndex :: "string list"

definition NewVirtualNodeCollector :: "(string \<rightharpoonup> Uri) \<Rightarrow> VirtualNodeCollector option" where
  "NewVirtualNodeCollector m =
     map_option (\<lambda>uri. \<lparr>vc_base = createK8sBaseCollector NodeResource uri, nodeIndex = False, podIndex = []\<rparr>)
       (m ''k8sVirtualNode'')"

definition handleVirtualNodeIncrement :: "json \<Rightarrow> VirtualNodeInfo \<Rightarrow> identifiers \<Rightarrow> VirtualNodeInfo \<times> identifiers" where
  "handleVirtualNodeIncrement zs = handleIncrement vi_Common (brief_vnode zs) json_of_VirtualNodeInfo"

definition handlePodInfoIncrement :: "PodInfo \<Rightarrow> identifiers \<Rightarrow> PodInfo \<times> identifiers" where
  "handlePodInfoIncrement = handleIncrement pi_Common brief_pod json_of_PodInfo"

text \<open>\<open>getPods\<close> on what the pod index of the node returns; the owners are not read here.\<close>

definition getPods :: "(string \<Rightarrow> Pod list) \<Rightarrow> Node \<Rightarrow> VirtualNodeCollector \<Rightarrow> (PodInfo list \<times> VirtualNodeCollector) go" where
  "getPods pods_on node vc =
     (case secondIdentifiers (vc_base vc) of
        None \<Rightarrow> if pods_on (m_Name (n_meta node)) = [] then Some ([], vc\<lparr>podIndex := List.insert (m_Name (n_meta node)) (podIndex vc)\<rparr>)
                else None
      | Some ids \<Rightarrow>
          (let (infos, ids') = collect handlePodInfoIncrement
                 (map (\<lambda>p. pod_info (p\<lparr>OwnerReferences := []\<rparr>)) (pods_on (m_Name (n_meta node)))) ids
           in Some (infos, vc\<lparr>vc_base := (vc_base vc)\<lparr>secondIdentifiers := Some ids'\<rparr>,
                              podIndex := List.insert (m_Name (n_meta node)) (podIndex vc)\<rparr>)))"

definition vnode_info :: "(string list \<Rightarrow> string list) \<Rightarrow> Node \<Rightarrow> VirtualNodeInfo" where
  "vnode_info set_list node =
     \<lparr>vi_Common = common_of (n_meta node), vi_Role = roles_text (findNodeRoles set_list node), vi_ClusterId = [],
      vi_ClusterName = [], vi_NodeInfo = n_SystemInfo node, vi_Capacity = getNodeCapacity (n_Allocatable node),
      vi_Addresses = n_Addresses node, vi_Pods = []\<rparr>"

fun vnode_infos ::
  "(string list \<Rightarrow> string list) \<Rightarrow> json \<Rightarrow> (string \<Rightarrow> Pod list) \<Rightarrow> Node list \<Rightarrow> VirtualNodeCollector
     \<Rightarrow> (VirtualNodeInfo list \<times> VirtualNodeCollector) go" where
  "vnode_infos set_list zs pods_on [] vc = Some ([], vc)"
| "vnode_infos set_list zs pods_on (node # nodes) vc =
     (let (info, ids) = handleVirtualNodeIncrement zs (vnode_info set_list node) (identifiers (vc_base vc)) in
      do {
        (pods, vc) \<leftarrow> getPods pods_on node (vc\<lparr>vc_base := (vc_base vc)\<lparr>identifiers := ids\<rparr>\<rparr>);
        (infos, vc) \<leftarrow> vnode_infos set_list zs pods_on nodes vc;
        Some (info\<lparr>vi_Pods := pods\<rparr> # infos, vc)
      })"

text \<open>The list is taken from \<open>nodeIndex\<close>, which is a nil interface where it was never set.\<close>

definition getVirtualNodeInfo ::
  "(string list \<Rightarrow> string list) \<Rightarrow> json \<Rightarrow> (string \<Rightarrow> Pod list) \<Rightarrow> Node list \<Rightarrow> VirtualNodeCollector
     \<Rightarrow> (VirtualNodeInfo list \<times> VirtualNodeCollector) go" where
  "getVirtualNodeInfo set_list zs pods_on nodes vc =
     (if nodeIndex vc then vnode_infos set_list zs pods_on nodes vc else None)"

definition vnode_reportNotExist :: "json \<Rightarrow> env \<Rightarrow> agent \<Rightarrow> K8sBaseCollector \<Rightarrow> K8sBaseCollector go" where
  "vnode_reportNotExist zs e a c =
     (let (gonePods, second) = (case secondIdentifiers c of
            None \<Rightarrow> ([], None)
          | Some ids \<Rightarrow> (case sweep ids of (gone, ids') \<Rightarrow> (map (\<lambda>(u, cid). brief_pod (brief_common u cid False)) gone, Some ids')));
          (gone, ids) = sweep (identifiers c)
      in reportK8sMetric e a True
           (map (\<lambda>(u, cid). json_of_VirtualNodeInfo ((brief_vnode zs (brief_common u cid False))\<lparr>vi_Pods := gonePods\<rparr>)) gone)
           (c\<lparr>identifiers := ids, secondIdentifiers := second\<rparr>))"

definition vnode_Report ::
  "(string list \<Rightarrow> string list) \<Rightarrow> json \<Rightarrow> (string \<Rightarrow> Pod list) \<Rightarrow> bool \<Rightarrow> env \<Rightarrow> agent \<Rightarrow> Node list
     \<Rightarrow> VirtualNodeCollector \<Rightarrow> VirtualNodeCollector go" where
  "vnode_Report set_list zs pods_on client e a nodes vc =
     (case ensure_indexer client (vc_base vc) of
        None \<Rightarrow> Some vc
      | Some b \<Rightarrow>
          do {
            (infos, vc) \<leftarrow> getVirtualNodeInfo set_list zs pods_on nodes (vc\<lparr>vc_base := b\<rparr>);
            b \<leftarrow> reportK8sMetric e a True (map json_of_VirtualNodeInfo infos) (vc_base vc);
            b \<leftarrow> vnode_reportNotExist zs e a b;
            Some (vc\<lparr>vc_base := b\<rparr>)
          })"

section \<open>Reports of the listings: correctness\<close>

lemma namespace_Report_synchronises:
  assumes "agrees (identifiers c) view" "distinct (map m_UID lst)"
    and "no_collision view (map json_of_NamespaceInfo (getNamespaceInfo lst))" "ReportHandler c \<noteq> VirtualNodeHandler"
    and "resourceName c \<notin> {[], TimestampKey}"
    and "accepted_cycle ni_Common brief_namespace json_of_NamespaceInfo e a c (getNamespaceInfo lst)"
  shows "\<exists>c' listed gone. namespace_Report True e a lst c = Some c'
    \<and> sends c [map json_of_NamespaceInfo listed, map json_of_NamespaceInfo gone] c'
    \<and> synchronised ni_Common json_of_NamespaceInfo (getNamespaceInfo lst) (listed @ gone) view (identifiers c')"
proof -
  have "fresh_infos ni_Common (getNamespaceInfo lst)" using assms(2) by (auto simp: fresh_infos_def getNamespaceInfo_def comp_def)
  with namespaces.listing_synchronises [of "c\<lparr>indexer := True\<rparr>" view "getNamespaceInfo lst" e a] assms show ?thesis
    by (simp add: namespace_Report_def handleNamespaceIncrement_def namespace_reportNotExist_def)
qed

lemma replicaset_Report_synchronises:
  assumes "agrees (identifiers c) view" "distinct (map (m_UID \<circ> r_meta) lst)"
    and "no_collision view (map (json_of_ReplicaSetInfo \<circ> replicaset_info) lst)" "ReportHandler c \<noteq> VirtualNodeHandler"
    and "resourceName c \<notin> {[], TimestampKey}"
    and "accepted_cycle ri_Common brief_replicaset json_of_ReplicaSetInfo e a c (map replicaset_info lst)"
  shows "\<exists>c' listed gone. replicaset_Report True e a lst c = Some c'
    \<and> sends c [map json_of_ReplicaSetInfo listed, map json_of_ReplicaSetInfo gone] c'
    \<and> synchronised ri_Common json_of_ReplicaSetInfo (map replicaset_info lst) (listed @ gone) view (identifiers c')"
proof -
  have "fresh_infos ri_Common (map replicaset_info lst)" using assms(2) by (auto simp: fresh_infos_def replicaset_info_def comp_def)
  with replicasets.listing_synchronises [of "c\<lparr>indexer := True\<rparr>" view "map replicaset_info lst" e a] assms show ?thesis
    by (simp add: replicaset_Report_def handleReplicaSetIncrement_def replicaset_reportNotExist_def)
qed

lemma daemonset_Report_synchronises:
  assumes "agrees (identifiers c) view" "distinct (map (m_UID \<circ> s_meta) lst)"
    and "no_collision view (map (json_of_DaemonsetInfo \<circ> daemonset_info) lst)" "ReportHandler c \<noteq> VirtualNodeHandler"
    and "resourceName c \<notin> {[], TimestampKey}"
    and "accepted_cycle dsi_Common brief_daemonset json_of_DaemonsetInfo e a c (map daemonset_info lst)"
  shows "\<exists>c' listed gone. daemonset_Report True e a lst c = Some c'
    \<and> sends c [map json_of_DaemonsetInfo listed, map json_of_DaemonsetInfo gone] c'
    \<and> synchronised dsi_Common json_of_DaemonsetInfo (map daemonset_info lst) (listed @ gone) view (identifiers c')"
proof -
  have "fresh_infos dsi_Common (map daemonset_info lst)"
    using assms(2) by (auto simp: fresh_infos_def daemonset_info_def brief_daemonset_def comp_def)
  with daemonsets.listing_synchronises [of "c\<lparr>indexer := True\<rparr>" view "map daemonset_info lst" e a] assms show ?thesis
    by (simp add: daemonset_Report_def handleDaemonsetIncrement_def daemonset_reportNotExist_def)
qed

lemma getDeploymentInfo_common:
  "getDeploymentInfo lst = Some infos \<Longrightarrow> map di_Common infos = map (common_of \<circ> d_meta) lst"
proof (induction lst arbitrary: infos)
  case (Cons d lst)
  then show ?case by (auto simp: getDeploymentInfo_def deployment_info_def split: option.splits)
qed (simp add: getDeploymentInfo_def)


definition sample_deployment :: Deployment where
  "sample_deployment = \<lparr>d_meta = \<lparr>m_UID = ''u1'', m_Name = ''web'', m_Namespace = ''default'', m_Created = [], m_Labels = None,
     m_Owners = []\<rparr>, d_AvailableReplicas = 2, d_SpecReplicas = Some 3, d_ObservedGeneration = 1, d_ReadyReplicas = 2,
     d_UpdatedReplicas = 3, d_UnavailableReplicas = 1, d_Strategy = ''RollingUpdate''\<rparr>"

lemma agrees_known_iff: "agrees ids view \<Longrightarrow> known ids k \<longleftrightarrow> k \<in> dom view"
  unfolding agrees_def known_def by blast


section \<open>Collectors without an address\<close>

text \<open>
  of all collectors only the one for pods can be made: the table of addresses has no entry for the
  others, so their constructors return nil, and the service collector is made with an empty address.
\<close>

theorem only_pod_collector_exists:
  "NewNamespaceCollector (InitTransprotUri o') = None \<and> NewDeploymentCollector (InitTransprotUri o') = None
   \<and> NewReplicasetCollector (InitTransprotUri o') = None \<and> NewDaemonsetCollector (InitTransprotUri o') = None
   \<and> NewNodeCollector (InitTransprotUri o') = None \<and> NewIngressCollector (InitTransprotUri o') = None
   \<and> NewVirtualNodeCollector (InitTransprotUri o') = None
   \<and> c_uri (sc_base (NewServiceCollector (InitTransprotUri o'))) = zero_Uri
   \<and> NewPodCollector (InitTransprotUri o') sc \<noteq> None"
  by (simp add: NewNamespaceCollector_def NewDeploymentCollector_def NewReplicasetCollector_def NewDaemonsetCollector_def
      NewNodeCollector_def NewIngressCollector_def NewVirtualNodeCollector_def NewServiceCollector_def NewPodCollector_def
      createK8sBaseCollector_def InitTransprotUri_def api_consts)

text \<open>
  a virtual node collector panics at its first report with a client: the list is asked of an index
  that no code sets.
\<close>

theorem vnode_Report_panics:
  assumes "NewVirtualNodeCollector m = Some vc"
  shows "vnode_Report set_list zs pods_on True e a nodes vc = None"
  using assms by (auto simp: NewVirtualNodeCollector_def vnode_Report_def getVirtualNodeInfo_def)

theorem vnode_Report_panics_witness:
  "vnode_Report id JNull (\<lambda>n. []) True sample_env sample_agent []
     \<lparr>vc_base = createK8sBaseCollector NodeResource zero_Uri, nodeIndex = False, podIndex = []\<rparr> = None"
  by (rule vnode_Report_panics [of "[''k8sVirtualNode'' \<mapsto> zero_Uri]"]) (simp add: NewVirtualNodeCollector_def)

section \<open>Roles of a node\<close>

text \<open>
  the roles of a node are the non-empty rests of its labels with the role prefix and the non-empty
  value of its role label, for a set listing that returns the members of the set.
\<close>

theorem findNodeRoles_labels:
  assumes "\<And>xs. set (set_list xs) = set xs" "m_Labels (n_meta node) = Some ls"
  shows "role \<in> set (findNodeRoles set_list node) \<longleftrightarrow>
    role \<noteq> [] \<and> ((\<exists>v. (labelNodeRolePrefix @ role, v) \<in> set ls) \<or> (nodeLabelRole, role) \<in> set ls)"
proof -
  have np: "\<not> prefix labelNodeRolePrefix nodeLabelRole" by (simp add: labelNodeRolePrefix_def nodeLabelRole_def)
  have label: "role \<in> set (role_of_label (k, v)) \<longleftrightarrow> role \<noteq> [] \<and> (k = labelNodeRolePrefix @ role \<or> k = nodeLabelRole \<and> v = role)" for k v
  proof (cases "prefix labelNodeRolePrefix k")
    case True
    then obtain zs where "k = labelNodeRolePrefix @ zs" by (auto simp: prefix_def)
    moreover from True np have "k \<noteq> nodeLabelRole" by auto
    ultimately show ?thesis by (auto simp: role_of_label_def Let_def)
  next
    case False
    then have "k \<noteq> labelNodeRolePrefix @ role" by auto
    with False show ?thesis by (auto simp: role_of_label_def)
  qed
  have "role \<in> set (findNodeRoles set_list node) \<longleftrightarrow> (\<exists>k v. (k, v) \<in> set ls \<and> role \<in> set (role_of_label (k, v)))"
    by (auto simp: findNodeRoles_def assms)
  then show ?thesis unfolding label by blast
qed

theorem findNodeRoles_labels_witness:
  "''master'' \<in> set (findNodeRoles remdups
     \<lparr>n_meta = \<lparr>m_UID = [], m_Name = [], m_Namespace = [], m_Created = [],
        m_Labels = Some [(labelNodeRolePrefix @ ''master'', []), (''zone'', ''a'')], m_Owners = []\<rparr>,
      n_SystemInfo = JNull, n_Allocatable = [], n_Addresses = []\<rparr>)"
  by (subst findNodeRoles_labels [of remdups _ "[(labelNodeRolePrefix @ ''master'', []), (''zone'', ''a'')]"]) auto

end
