(* ===== verification/Agent_Files.thy ===== *)
theory Agent_Files
  imports Agent_Bash
begin

text \<open>
  The rest of \<open>pkg/tools\<close>: unpacking an archive and compressing a body (\<open>file.go\<close>), downloading a file
  (\<open>download.go\<close>), generating an id (\<open>uuid.go\<close>), and the cached paths, the uptime and the platform of
  \<open>env.go\<close>. What gzip and tar make of their input, the random bytes, the network, the running
  of \<open>uptime\<close> and the refusals of \<open>os.MkdirAll\<close> and \<open>os.RemoveAll\<close> are arguments. Where an archive is unpacked the
  operating system resolves the path it is given: files and directories are named by their cleaned paths
  there, the directories that exist are those listed, and there are no symbolic links.
\<close>

section \<open>Archives\<close>

text \<open>
  The first \<open>k\<close> runes of a text as a string. The slice \<open>[]rune(s)\<close> may have more capacity than runes, filled
  with zero runes: a slice expression reaches up to the capacity \<open>rcap\<close>, beyond it is a panic.
\<close>

definition rune_prefix :: "(nat \<Rightarrow> nat) \<Rightarrow> string \<Rightarrow> int \<Rightarrow> string go" where
  "rune_prefix rcap s k =
     (let rs = runes s; n = max (length rs) (rcap (length rs)) in
      if k < 0 \<or> int n < k then None
      else Some (concat (take (nat k) (rs @ replicate (n - length rs) [CHR 0x00]))))"

definition LastIndex :: "string \<Rightarrow> char \<Rightarrow> int" where
  "LastIndex s c = (if c \<in> set s then int (length s) - 1 - int (length (takeWhile (\<lambda>x. x \<noteq> c) (rev s))) else - 1)"

text \<open>
  \<open>os.MkdirAll\<close>: the directories above and the directory itself, each made unless it is there. A file in the way is
  an error, and so is a directory that \<open>mk\<close> refuses; what was made by then stays.
\<close>

definition dir_chain :: "string \<Rightarrow> string list" where
  "dir_chain d = [take i d. i \<leftarrow> [1..<length d], d ! i = CHR ''/''] @ [d]"

definition is_dir :: "fs \<Rightarrow> string \<Rightarrow> bool" where
  "is_dir w p \<longleftrightarrow> p \<in> {''/'', ''.''} \<or> p \<in> set (dirs w)"

fun make_dirs :: "(string \<Rightarrow> string option) \<Rightarrow> string list \<Rightarrow> fs \<Rightarrow> fs \<times> string option" where
  "make_dirs mk [] w = (w, None)"
| "make_dirs mk (d # ds) w =
     (let p = path_Clean d in
      if d = [] then (w, Some ''mkdir : no such file or directory'')
      else if is_dir w p then make_dirs mk ds w
      else if content w p \<noteq> None then (w, Some (''mkdir '' @ d @ '': not a directory''))
      else (case mk p of
              Some e \<Rightarrow> (w, Some e)
            | None \<Rightarrow> make_dirs mk ds (w\<lparr>dirs := dirs w @ [p]\<rparr>)))"

definition MkdirAll :: "(string \<Rightarrow> string option) \<Rightarrow> string \<Rightarrow> fs \<Rightarrow> fs \<times> string option" where
  "MkdirAll mk d w = make_dirs mk (dir_chain d) w"

text \<open>
  \<open>io.Copy\<close> into an open file: \<open>d\<close> is what can be read, \<open>rerr\<close> the error at its end. Writing starts at the first
  byte and leaves what the file holds behind the data.
\<close>

definition copy_to :: "string \<Rightarrow> string \<Rightarrow> string option \<Rightarrow> fs \<Rightarrow> fs \<times> string option" where
  "copy_to f d rerr w =
     (let old = (case content w f of None \<Rightarrow> [] | Some c \<Rightarrow> c) in
      case (if d = [] then None else write_error w f d) of
        Some e \<Rightarrow> (w, Some e)
      | None \<Rightarrow> (w\<lparr>content := (content w)(f \<mapsto> d @ drop (length d) old)\<rparr>, rerr))"

text \<open>
  \<open>os.OpenFile\<close> with \<open>O_CREATE|O_WRONLY\<close>, without truncation, of a path with a slash: a directory cannot be opened
  for writing, and a new file needs the directory it lies in.
\<close>

definition open_write :: "string \<Rightarrow> fs \<Rightarrow> fs \<times> string option" where
  "open_write f w =
     (let p = path_Clean f; above = path_Clean (take (nat (LastIndex f (CHR ''/''))) f) in
      if is_dir w p \<or> last (Split (CHR ''/'') f) \<in> {''.'', ''..''} then (w, Some (''open '' @ f @ '': is a directory''))
      else if content w p = None \<and> \<not> is_dir w above then (w, Some (''open '' @ f @ '': no such file or directory''))
      else (case open_error w p of
              Some e \<Rightarrow> (w, Some e)
            | None \<Rightarrow> (w\<lparr>content := (content w)(p \<mapsto> (case content w p of None \<Rightarrow> [] | Some c \<Rightarrow> c))\<rparr>, None)))"

definition createFile ::
  "(string \<Rightarrow> string option) \<Rightarrow> (nat \<Rightarrow> nat) \<Rightarrow> string \<Rightarrow> string \<Rightarrow> string option \<Rightarrow> fs \<Rightarrow> (fs \<times> string option) go" where
  "createFile mk rcap fileName d rerr w =
     do {
       dir \<leftarrow> rune_prefix rcap fileName (LastIndex fileName (CHR ''/''));
       Some (case MkdirAll mk dir w of
               (w, Some err) \<Rightarrow> (w, Some err)
             | (w, None) \<Rightarrow>
                 if last fileName = CHR ''/'' then (w, None)
                 else (case open_write fileName w of
                         (w, Some err) \<Rightarrow> (w, Some err)
                       | (w, None) \<Rightarrow> copy_to (path_Clean fileName) d rerr w))
     }"

text \<open>
  What \<open>tarReader.Next\<close> returns before the end: an entry with its name, its readable data and the error of
  reading it, or an error. The type of an entry is not looked at.
\<close>

datatype tar_next = Header string string "string option" | NextErr string

fun untar :: "(string \<Rightarrow> string option) \<Rightarrow> (nat \<Rightarrow> nat) \<Rightarrow> string \<Rightarrow> tar_next list \<Rightarrow> fs \<Rightarrow> (fs \<times> string option) go" where
  "untar mk rcap destPath [] w = Some (w, None)"
| "untar mk rcap destPath (NextErr err # ns) w = Some (w, Some err)"
| "untar mk rcap destPath (Header name d rerr # ns) w =
     do {
       (w, err) \<leftarrow> createFile mk rcap (destPath @ ''/'' @ name) d rerr w;
       if err \<noteq> None then Some (w, err) else untar mk rcap destPath ns w
     }"

text \<open>
  \<open>gz\<close> is the archive reader on the bytes of the file: an error where the gzip header is bad, which is
  dropped. Opening a directory succeeds and gives no bytes.
\<close>

definition DeCompressTgz ::
  "(string \<Rightarrow> string option) \<Rightarrow> (nat \<Rightarrow> nat) \<Rightarrow> (string \<Rightarrow> string + tar_next list) \<Rightarrow> string \<Rightarrow> string \<Rightarrow> fs \<Rightarrow> (fs \<times> string option) go" where
  "DeCompressTgz mk rcap gz tarFile destPath w =
     (case (if open_error w tarFile = None \<and> tarFile \<in> set (dirs w) then Inr [] else ReadFile w tarFile) of
        Inl err \<Rightarrow> Some (w, Some err)
      | Inr bytes \<Rightarrow>
          (case gz bytes of
             Inl err \<Rightarrow> Some (w, None)
           | Inr ns \<Rightarrow> untar mk rcap destPath ns w))"

section \<open>Downloads\<close>

text \<open>\<open>http.Get\<close> answers with an error, or the status, the readable body and the error of reading it.\<close>

type_synonym http_get = "string \<Rightarrow> string + int \<times> string \<times> string option"

definition Download :: "http_get \<Rightarrow> string \<Rightarrow> string \<Rightarrow> fs \<Rightarrow> fs \<times> string option" where
  "Download get destFileFullPath url w =
     (case open_error w destFileFullPath of
        Some err \<Rightarrow> (w, Some err)
      | None \<Rightarrow>
          (let w = w\<lparr>content := (content w)(destFileFullPath \<mapsto> [])\<rparr> in
           case get url of
             Inl err \<Rightarrow> (w, Some err)
           | Inr (code, body, rerr) \<Rightarrow>
               if code \<noteq> 200 then (w, Some (''response code: '' @ Itoa code))
               else copy_to destFileFullPath body rerr w))"

section \<open>Compressed bodies and ids\<close>

text \<open>
  \<open>gzw\<close> is what a gzip writer makes of a text, or its error; \<open>gzr\<close> the error of a bad header, or what a gzip
  reader reads and the error at its end. \<open>bytes.Buffer\<close> takes everything.
\<close>

definition CompressByGzip :: "(string \<Rightarrow> string + string) \<Rightarrow> string \<Rightarrow> string \<times> string option" where
  "CompressByGzip gzw body = (case gzw body of Inl err \<Rightarrow> ([], Some err) | Inr z \<Rightarrow> (z, None))"

definition DecompressByGzip :: "(string \<Rightarrow> string + string \<times> string option) \<Rightarrow> string \<Rightarrow> string \<times> string option" where
  "DecompressByGzip gzr body =
     (case gzr body of
        Inl err \<Rightarrow> ([], Some err)
      | Inr (d, Some err) \<Rightarrow> ([], Some err)
      | Inr (d, None) \<Rightarrow> (d, None))"

text \<open>The id of an experiment: eight bytes of a generator that is seeded with the clock, in hexadecimal.\<close>

definition GenerateUid :: "(int \<Rightarrow> string + string) \<Rightarrow> int \<Rightarrow> string \<times> string option" where
  "GenerateUid rand now = (case rand now of Inl err \<Rightarrow> ([], Some err) | Inr b \<Rightarrow> (hex b, None))"

text \<open>It fits the name of an object in the cluster, and different bytes give different ids.\<close>

lemma GenerateUid_name:
  assumes "rand now = Inr b" "length b = 8"
  shows "snd (GenerateUid rand now) = None \<and> length (fst (GenerateUid rand now)) = 16
    \<and> set (fst (GenerateUid rand now)) \<subseteq> set ''0123456789abcdef''"
proof -
  define D where "D = set ''0123456789abcdef''"
  have d: "hex_digit n \<in> D" if "n < 16" for n
  proof -
    have "n \<in> set [0..<16]" using that by simp
    moreover have "list_all (\<lambda>n. hex_digit n \<in> set ''0123456789abcdef'') [0..<16]" by code_simp
    ultimately show ?thesis unfolding D_def by (simp only: list_all_iff)
  qed
  have "hex_digit (byte c div 16) \<in> D" "hex_digit (byte c mod 16) \<in> D" for c
    using byte_less [of c] by (auto intro!: d simp: less_mult_imp_div_less)
  then have "set (hex b) \<subseteq> D" by (auto simp: hex_def)
  then show ?thesis using assms by (simp add: GenerateUid_def length_hex D_def)
qed

lemma GenerateUid_distinct:
  "rand1 now1 = Inr b1 \<Longrightarrow> rand2 now2 = Inr b2 \<Longrightarrow> b1 \<noteq> b2 \<Longrightarrow> fst (GenerateUid rand1 now1) \<noteq> fst (GenerateUid rand2 now2)"
  using hex_inj by (auto simp: GenerateUid_def)

section \<open>Paths, uptime and platform\<close>

definition AgentLog :: string where "AgentLog = ''agent.log''"

record env_paths =
  chaosPath :: string
  metricPath :: string
  agentPath :: string
  chaosLogFilePath :: string

text \<open>
  \<open>absdir\<close> is the answer of \<open>filepath.Abs\<close> for the directory of the program. \<^const>\<open>None\<close> stands for the end of the
  process by \<open>logrus.Fatalln\<close>.
\<close>

definition GetCurrentDirectory :: "string + string \<Rightarrow> env_paths \<Rightarrow> (env_paths \<times> string) option" where
  "GetCurrentDirectory absdir p =
     (if chaosPath p \<noteq> [] then Some (p, chaosPath p)
      else (case absdir of Inl err \<Rightarrow> None | Inr dir \<Rightarrow> Some (p\<lparr>chaosPath := dir\<rparr>, dir)))"

definition GetAgentLogFilePath :: "string + string \<Rightarrow> env_paths \<Rightarrow> (env_paths \<times> string) option" where
  "GetAgentLogFilePath absdir p =
     (if chaosLogFilePath p \<noteq> [] then Some (p, chaosLogFilePath p)
      else do {
        (p, dir) \<leftarrow> GetCurrentDirectory absdir p;
        let f = path_Join [dir, AgentLog];
        Some (p\<lparr>chaosLogFilePath := f\<rparr>, f)
      })"

definition GetMetricDirectory ::
  "(string \<Rightarrow> string option) \<Rightarrow> string + string \<Rightarrow> env_paths \<Rightarrow> fs \<Rightarrow> (env_paths \<times> fs \<times> string) option" where
  "GetMetricDirectory mk absdir p w =
     (if metricPath p \<noteq> [] then Some (p, w, metricPath p)
      else do {
        (p, dir) \<leftarrow> GetCurrentDirectory absdir p;
        let m = path_Join [dir, ''metric''];
        let p = p\<lparr>metricPath := m\<rparr>;
        if IsExist w m then Some (p, w, m)
        else (case MkdirAll mk m w of (w, None) \<Rightarrow> Some (p, w, m) | (w, Some err) \<Rightarrow> None)
      })"

definition GetAgentDirectory ::
  "(string \<Rightarrow> string option) \<Rightarrow> string + string \<Rightarrow> env_paths \<Rightarrow> fs \<Rightarrow> (env_paths \<times> fs \<times> string) option" where
  "GetAgentDirectory mk absdir p w =
     (if agentPath p \<noteq> [] then Some (p, w, agentPath p)
      else do {
        (p, dir) \<leftarrow> GetCurrentDirectory absdir p;
        let m = path_Join [dir, ''agent''];
        let p = p\<lparr>agentPath := m\<rparr>;
        if IsExist w m then Some (p, w, m)
        else (case MkdirAll mk m w of (w, None) \<Rightarrow> Some (p, w, m) | (w, Some err) \<Rightarrow> None)
      })"

text \<open>\<open>os.RemoveAll\<close> where \<open>rm\<close> does not refuse: the directory and everything below it.\<close>

definition below :: "string \<Rightarrow> string \<Rightarrow> bool" where
  "below d f \<longleftrightarrow> f = d \<or> prefix (d @ ''/'') f"

definition RemoveAll :: "(string \<Rightarrow> string option) \<Rightarrow> string \<Rightarrow> fs \<Rightarrow> fs \<times> string option" where
  "RemoveAll rm d w =
     (case rm d of
        Some e \<Rightarrow> (w, Some e)
      | None \<Rightarrow> (w\<lparr>content := (\<lambda>f. if below d f then None else content w f), dirs := filter (\<lambda>f. \<not> below d f) (dirs w)\<rparr>, None))"

definition ClearMetricDirectory ::
  "(string \<Rightarrow> string option) \<Rightarrow> (string \<Rightarrow> string option) \<Rightarrow> string + string \<Rightarrow> env_paths \<Rightarrow> fs \<Rightarrow> (env_paths \<times> fs \<times> string option) option" where
  "ClearMetricDirectory mk rm absdir p w =
     do {
       (p, w, m) \<leftarrow> GetMetricDirectory mk absdir p w;
       Some (case RemoveAll rm m w of
               (w, Some err) \<Rightarrow> (p, w, Some err)
             | (w, None) \<Rightarrow> (p\<lparr>metricPath := []\<rparr>, w, None))
     }"

definition SetchaosPath :: "string \<Rightarrow> env_paths \<Rightarrow> env_paths" where
  "SetchaosPath path p = p\<lparr>chaosPath := path\<rparr>"

text \<open>\<open>GetUptime\<close>: \<open>out\<close> is what running \<open>uptime\<close> for at most five seconds gives.\<close>

definition GetUptime :: "string + string \<Rightarrow> fs \<Rightarrow> string" where
  "GetUptime out w =
     (case out of
        Inl err \<Rightarrow>
          (case ReadFile w (path_Join [''/proc'', ''uptime'']) of
             Inl err \<Rightarrow> []
           | Inr bytes \<Rightarrow> if bytes = [] then [] else hd (Split (CHR '' '') bytes))
      | Inr output \<Rightarrow> if output = [] then [] else hd (Split (CHR '','') output))"

definition IsPublicEnv :: "string \<Rightarrow> bool" where
  "IsPublicEnv regionId \<longleftrightarrow> regionId = ''cn-public''"

definition IsUnix :: "string \<Rightarrow> bool" where
  "IsUnix goos \<longleftrightarrow> goos = ''linux'' \<or> goos = ''darwin''"

text \<open>Whether the process goes on.\<close>

definition CheckEnvironment :: "string \<Rightarrow> bool" where
  "CheckEnvironment goos \<longleftrightarrow> \<not> IsWindows goos"

section \<open>Which directory an entry gets\<close>

lemma LastIndex_split: "c \<notin> set b \<Longrightarrow> LastIndex (a @ c # b) c = int (length a)"
proof -
  assume "c \<notin> set b"
  then have "takeWhile (\<lambda>x. x \<noteq> c) (rev b @ c # rev a) = rev b" by (subst takeWhile_append2) auto
  then show ?thesis by (simp add: LastIndex_def)
qed

lemma rune_prefix_ascii:
  assumes "list_all (\<lambda>c. byte c < 128) a"
  shows "valid_utf8 a \<and> rune_prefix rcap (a @ b) (int (length a)) = Some a"
proof -
  have v: "valid_utf8 a" using assms by (auto intro!: valid_utf8_ascii simp: list_all_iff)
  have r: "runes (a @ b) = runes a @ runes b" "length (runes a) = length a" using v assms by (simp_all add: runes_append runes_ascii)
  then show ?thesis using v runes_concat [OF v] by (simp add: rune_prefix_def Let_def)
qed

text \<open>
  the directory made for an entry of an archive is the one above it exactly where the path to it is
  ASCII: the code cuts a slice of runes at an index counted in bytes, so a longer character before the last
  slash takes the directory too far, up to one with the name of the file itself, or panics.
\<close>

theorem createFile_directory_iff:
  assumes "valid_utf8 dir" "CHR ''/'' \<notin> set name"
  shows "rune_prefix rcap (dir @ ''/'' @ name) (LastIndex (dir @ ''/'' @ name) (CHR ''/'')) = Some dir
    \<longleftrightarrow> list_all (\<lambda>c. byte c < 128) dir" (is "?p = Some dir \<longleftrightarrow> ?ascii")
proof
  assume ?ascii
  then show "?p = Some dir" using rune_prefix_ascii LastIndex_split [OF assms(2), of dir] by simp
next
  assume p: "?p = Some dir"
  show ?ascii
  proof (rule ccontr)
    assume "\<not> ?ascii"
    then have "length (runes dir) \<noteq> length dir" using runes_length_eq [OF assms(1)] by blast
    then obtain k where k: "length dir = length (runes dir) + Suc k"
      using runes_length [of dir] by (metis add_Suc_right le_antisym less_iff_Suc_add not_less)
    have r: "runes (dir @ ''/'' @ name) = runes dir @ ''/'' # runes name"
      using runes_append [OF assms(1), of "''/'' @ name"] runes_form [of "''/''" name] by (simp add: utf8_form_def)
    obtain zs where "concat (take (length dir) (runes dir @ ''/'' # zs)) = dir"
      using p unfolding rune_prefix_def Let_def r using LastIndex_split [OF assms(2), of dir]
      by (auto split: if_splits simp del: take_append)
    then have "concat (runes dir) @ ''/'' @ concat (take k zs) = dir" unfolding k by simp
    then show False using runes_concat [OF assms(1)] by simp
  qed
qed

section \<open>What unpacking leaves\<close>

definition fs_accepts :: "fs \<Rightarrow> bool" where
  "fs_accepts w \<longleftrightarrow> open_error w = (\<lambda>f. None) \<and> write_error w = (\<lambda>f d. None)"

definition overwritten :: "string option \<Rightarrow> string \<Rightarrow> string" where
  "overwritten old d = d @ drop (length d) (case old of None \<Rightarrow> [] | Some c \<Rightarrow> c)"

text \<open>Paths without empty, \<open>.\<close> and \<open>..\<close> elements name what they say.\<close>

definition plain_elem :: "string \<Rightarrow> bool" where
  "plain_elem e \<longleftrightarrow> e \<notin> {[], ''.'', ''..''}"

definition plain_path :: "string \<Rightarrow> bool" where
  "plain_path f \<longleftrightarrow> f \<noteq> [] \<and> hd f = CHR ''/'' \<and> list_all plain_elem (Split (CHR ''/'') (tl f))"

lemma clean_plain: "list_all plain_elem es \<Longrightarrow> clean_elems rooted out es = rev out @ es"
  by (induction es arbitrary: out) (auto simp: plain_elem_def)

lemma Split_at_sep: "Split c (a @ c # b) = Split c a @ Split c b"
proof (induction a)
  case (Cons x a)
  then show ?case by (cases "Split c a") auto
qed simp

lemma path_Clean_rooted: "path_Clean (CHR ''/'' # s) = ''/'' @ Join ''/'' (clean_elems True [] (Split (CHR ''/'') s))"
  by (simp add: path_Clean_def Let_def)

lemma path_Clean_plain: "plain_path f \<Longrightarrow> path_Clean f = f"
  by (cases f) (auto simp: plain_path_def path_Clean_rooted clean_plain Join_Split)

lemma plain_path_append:
  "plain_path (a @ CHR ''/'' # b) \<longleftrightarrow> (a = [] \<or> plain_path a) \<and> list_all plain_elem (Split (CHR ''/'') b)"
  by (cases a) (auto simp: plain_path_def Split_at_sep)

lemma plain_path_not_root: "plain_path f \<Longrightarrow> f \<notin> {[], ''/'', ''.''}"
  by (auto simp: plain_path_def plain_elem_def)

text \<open>The directories on the way to a file.\<close>

definition ancestors :: "string \<Rightarrow> string list" where
  "ancestors f = [take i f. i \<leftarrow> [1..<length f], f ! i = CHR ''/'']"

lemma ancestors_iff: "x \<in> set (ancestors f) \<longleftrightarrow> x \<noteq> [] \<and> prefix (x @ ''/'') f"
proof
  assume "x \<in> set (ancestors f)"
  then obtain i where i: "0 < i" "i < length f" "f ! i = CHR ''/''" "x = take i f" by (auto simp: ancestors_def Suc_le_eq)
  then show "x \<noteq> [] \<and> prefix (x @ ''/'') f" using take_is_prefix [of "Suc i" f] by (auto simp: take_Suc_conv_app_nth)
next
  assume "x \<noteq> [] \<and> prefix (x @ ''/'') f"
  then obtain zs where f: "f = x @ CHR ''/'' # zs" "x \<noteq> []" by (auto simp: prefix_def)
  then have "x = take (length x) f" "1 \<le> length x" "length x < length f" "f ! length x = CHR ''/''" by (auto simp: Suc_le_eq)
  then show "x \<in> set (ancestors f)" unfolding ancestors_def by (auto intro!: exI [of _ "length x"])
qed

lemma dir_chain_iff: "x \<in> set (dir_chain d) \<longleftrightarrow> x \<in> set (ancestors d) \<or> x = d"
  by (auto simp: dir_chain_def ancestors_def)

lemma dir_chain_ancestors:
  assumes "CHR ''/'' \<notin> set name" "d \<noteq> []"
  shows "set (dir_chain d) = set (ancestors (d @ CHR ''/'' # name))"
proof -
  have "prefix (x @ ''/'') (d @ CHR ''/'' # name) \<longleftrightarrow> prefix (x @ ''/'') d \<or> x = d" for x
  proof
    assume "prefix (x @ ''/'') (d @ CHR ''/'' # name)"
    then obtain zs where "d @ CHR ''/'' # name = x @ CHR ''/'' # zs" by (auto simp: prefix_def)
    then obtain us where "d = x @ us \<and> us @ CHR ''/'' # name = CHR ''/'' # zs \<or> d @ us = x \<and> CHR ''/'' # name = us @ CHR ''/'' # zs"
      by (auto simp: append_eq_append_conv2)
    then show "prefix (x @ ''/'') d \<or> x = d" using assms(1) by (cases us) (auto simp: prefix_def)
  qed (auto simp: prefix_def)
  then show ?thesis using assms(2) by (auto simp: dir_chain_iff ancestors_iff)
qed

lemma ancestors_snoc:
  assumes "CHR ''/'' \<notin> set name" "d \<noteq> []"
  shows "set (ancestors (d @ ''/'' @ name)) = insert d (set (ancestors d))"
proof -
  have "set (dir_chain d) = insert d (set (ancestors d))" by (simp add: dir_chain_def ancestors_def)
  with dir_chain_ancestors [OF assms] show ?thesis by simp
qed

lemma plain_ancestor: "plain_path f \<Longrightarrow> x \<in> set (ancestors f) \<Longrightarrow> plain_path x"
  by (auto simp: ancestors_iff prefix_def plain_path_append)

lemma make_dirs_accepted:
  assumes "\<forall>d \<in> set ds. d \<noteq> [] \<and> content w (path_Clean d) = None"
  shows "\<exists>ms. make_dirs (\<lambda>d. None) ds w = (w\<lparr>dirs := dirs w @ ms\<rparr>, None) \<and> set ms \<subseteq> path_Clean ` set ds
    \<and> (\<forall>d \<in> set ds. is_dir (w\<lparr>dirs := dirs w @ ms\<rparr>) (path_Clean d))"
  using assms
proof (induction ds arbitrary: w)
  case (Cons d ds)
  let ?w = "w\<lparr>dirs := dirs w @ (if is_dir w (path_Clean d) then [] else [path_Clean d])\<rparr>"
  obtain ms where ms: "make_dirs (\<lambda>d. None) ds ?w = (?w\<lparr>dirs := dirs ?w @ ms\<rparr>, None)" "set ms \<subseteq> path_Clean ` set ds"
    "\<forall>d \<in> set ds. is_dir (?w\<lparr>dirs := dirs ?w @ ms\<rparr>) (path_Clean d)"
    using Cons.IH [of ?w] Cons.prems by auto
  then show ?case using Cons.prems
    by (intro exI [of _ "(if is_dir w (path_Clean d) then [] else [path_Clean d]) @ ms"]) (auto simp: Let_def is_dir_def)
qed (auto intro: exI [of _ "[]"])

text \<open>A file that nothing stands in the way of is written at its resolved path.\<close>

lemma createFile_makes:
  assumes f: "f = dir @ CHR ''/'' # name" "CHR ''/'' \<notin> set name" "dir \<noteq> []" "plain_elem name" "list_all (\<lambda>c. byte c < 128) dir"
    and w: "fs_accepts w" "\<forall>x \<in> set (dir_chain dir). content w (path_Clean x) = None"
    and p: "\<not> is_dir w (path_Clean f)" "path_Clean f \<notin> path_Clean ` set (dir_chain dir)"
  shows "\<exists>ms. createFile (\<lambda>d. None) rcap f d None w
      = Some (w\<lparr>dirs := dirs w @ ms, content := (content w)(path_Clean f \<mapsto> overwritten (content w (path_Clean f)) d)\<rparr>, None)
    \<and> set ms \<subseteq> path_Clean ` set (dir_chain dir)"
proof -
  have i: "LastIndex f (CHR ''/'') = int (length dir)" unfolding f(1) by (rule LastIndex_split [OF f(2)])
  then have r: "rune_prefix rcap f (LastIndex f (CHR ''/'')) = Some dir" using rune_prefix_ascii [OF f(5)] f(1) by simp
  have "[] \<notin> set (dir_chain dir)" using f(3) by (simp add: dir_chain_iff ancestors_iff)
  then obtain ms where ms: "make_dirs (\<lambda>d. None) (dir_chain dir) w = (w\<lparr>dirs := dirs w @ ms\<rparr>, None)"
    "set ms \<subseteq> path_Clean ` set (dir_chain dir)" "is_dir (w\<lparr>dirs := dirs w @ ms\<rparr>) (path_Clean dir)"
    using make_dirs_accepted [of "dir_chain dir" w] w(2) by (metis dir_chain_iff)
  have "\<not> is_dir (w\<lparr>dirs := dirs w @ ms\<rparr>) (path_Clean f)" using p ms(2) by (auto simp: is_dir_def)
  moreover have "last (Split (CHR ''/'') f) = name" unfolding f(1) by (simp add: Split_at_sep Split_no_sep [OF f(2)])
  moreover have "take (nat (LastIndex f (CHR ''/''))) f = dir" unfolding i by (simp add: f(1))
  moreover have "last f \<noteq> CHR ''/''" using f(1,2,4) last_in_set [of name] by (metis last_appendR last_ConsR list.distinct(1) plain_elem_def insertI1)
  ultimately show ?thesis using r ms w(1) f(4)
    by (auto simp: createFile_def MkdirAll_def open_write_def copy_to_def fs_accepts_def overwritten_def plain_elem_def Let_def
        split: option.splits)
qed

text \<open>
  An entry with a plain name below a plain destination, and its place where it is free: no file on the way to it
  and no directory in its stead.
\<close>

definition plain_name :: "string \<Rightarrow> string \<Rightarrow> bool" where
  "plain_name destPath n \<longleftrightarrow> plain_path destPath \<and> list_all plain_elem (Split (CHR ''/'') n) \<and> list_all (\<lambda>c. byte c < 128) (destPath @ n)"

definition free_place :: "fs \<Rightarrow> string \<Rightarrow> bool" where
  "free_place w f \<longleftrightarrow> f \<notin> set (dirs w) \<and> list_all (\<lambda>x. content w x = None) (ancestors f)"

lemma createFile_accepted:
  assumes "plain_name destPath n" "fs_accepts w" "free_place w (destPath @ ''/'' @ n)"
  shows "\<exists>ds. createFile (\<lambda>d. None) rcap (destPath @ ''/'' @ n) d None w
      = Some (w\<lparr>dirs := dirs w @ ds, content := (content w)(destPath @ ''/'' @ n \<mapsto> overwritten (content w (destPath @ ''/'' @ n)) d)\<rparr>, None)
    \<and> set ds \<subseteq> set (ancestors (destPath @ ''/'' @ n))"
proof -
  let ?f = "destPath @ ''/'' @ n"
  have plain: "plain_path ?f" using assms(1) by (simp add: plain_name_def plain_path_append)
  have "CHR ''/'' \<in> set ?f" by simp
  then obtain dir name where f: "?f = dir @ CHR ''/'' # name" "CHR ''/'' \<notin> set name" by (meson split_list_last)
  have "dir \<noteq> []"
  proof
    assume "dir = []"
    then have "tl ?f = name" using f(1) by simp
    moreover obtain x xs where "destPath = x # xs" using assms(1) by (cases destPath) (auto simp: plain_name_def plain_path_def)
    ultimately show False using f(2) by auto
  qed
  then have chain: "set (dir_chain dir) = set (ancestors ?f)" using dir_chain_ancestors [OF f(2)] f(1) by simp
  have same: "path_Clean x = x" if "x \<in> set (ancestors ?f)" for x using path_Clean_plain [OF plain_ancestor [OF plain that]] .
  then have image: "path_Clean ` set (ancestors ?f) = set (ancestors ?f)" by force
  have "list_all (\<lambda>c. byte c < 128) ?f" using assms(1) by (auto simp: plain_name_def)
  then have a: "list_all (\<lambda>c. byte c < 128) dir" unfolding f(1) by simp
  have n: "plain_elem name" using plain \<open>dir \<noteq> []\<close> unfolding f(1) by (simp add: plain_path_append Split_no_sep [OF f(2)])
  have "?f \<notin> set (ancestors ?f)" by (auto simp: ancestors_iff prefix_def)
  then show ?thesis
    using createFile_makes [OF f \<open>dir \<noteq> []\<close> n a assms(2), of rcap d] assms(3) plain_path_not_root [OF plain] same
    unfolding chain image path_Clean_plain [OF plain] by (auto simp: free_place_def is_dir_def list_all_iff)
qed

lemma untar_accepted:
  assumes "list_all (\<lambda>(n, d). plain_name destPath n) es" "distinct (map fst es)" "fs_accepts w"
    and "list_all (\<lambda>(n, d). free_place w (destPath @ ''/'' @ n)) es"
    and "\<forall>n \<in> set (map fst es). \<forall>n' \<in> set (map fst es). \<not> prefix (n @ ''/'') n'"
  shows "\<exists>w'. untar (\<lambda>d. None) rcap destPath (map (\<lambda>(n, d). Header n d None) es) w = Some (w', None)
    \<and> content w' = (\<lambda>f. case map_of (map (\<lambda>(n, d). (destPath @ ''/'' @ n, d)) es) f of
          None \<Rightarrow> content w f | Some d \<Rightarrow> Some (overwritten (content w f) d))"
  using assms
proof (induction es arbitrary: w)
  case (Cons e es)
  obtain n d where e: "e = (n, d)" by fastforce
  let ?f = "destPath @ ''/'' @ n"
  obtain ds where c: "createFile (\<lambda>d. None) rcap ?f d None w
      = Some (w\<lparr>dirs := dirs w @ ds, content := (content w)(?f \<mapsto> overwritten (content w ?f) d)\<rparr>, None)" (is "_ = Some (?w1, None)")
    and ds: "set ds \<subseteq> set (ancestors ?f)"
    using createFile_accepted [of destPath n w rcap d] Cons.prems e by auto
  have "fs_accepts ?w1" using Cons.prems by (simp add: fs_accepts_def)
  moreover have "free_place ?w1 (destPath @ ''/'' @ m)" if m: "(m, d') \<in> set es" for m d'
  proof -
    have "free_place w (destPath @ ''/'' @ m)" using Cons.prems(4) m by (auto simp: list_all_iff)
    moreover have "\<not> prefix (n @ ''/'') m" "\<not> prefix (m @ ''/'') n" using Cons.prems(5) m e by force+
    then have "?f \<notin> set (ancestors (destPath @ ''/'' @ m))" "destPath @ ''/'' @ m \<notin> set (ancestors ?f)"
      by (simp_all add: ancestors_iff)
    ultimately show ?thesis using ds by (auto simp: free_place_def list_all_iff)
  qed
  ultimately obtain w' where w': "untar (\<lambda>d. None) rcap destPath (map (\<lambda>(n, d). Header n d None) es) ?w1 = Some (w', None)"
    "content w' = (\<lambda>f. case map_of (map (\<lambda>(n, d). (destPath @ ''/'' @ n, d)) es) f of
          None \<Rightarrow> content ?w1 f | Some d \<Rightarrow> Some (overwritten (content ?w1 f) d))"
    using Cons.IH [of ?w1] Cons.prems e by (auto simp: list_all_iff)
  have "?f \<notin> fst ` set (map (\<lambda>(n, d). (destPath @ ''/'' @ n, d)) es)" using Cons.prems e by force
  then have "map_of (map (\<lambda>(n, d). (destPath @ ''/'' @ n, d)) es) ?f = None" by (simp only: map_of_eq_None_iff not_False_eq_True)
  then show ?case using c w' e by (auto simp: fun_eq_iff split: option.splits)
qed simp


lemma path_Clean_up:
  assumes "plain_path dir" "plain_elem c" "CHR ''/'' \<notin> set c"
  shows "path_Clean (dir @ ''/'' @ c @ ''/..'') = dir"
    "plain_elem n \<Longrightarrow> CHR ''/'' \<notin> set n \<Longrightarrow> path_Clean (dir @ ''/'' @ c @ ''/../'' @ n) = dir @ ''/'' @ n"
proof -
  obtain s where s: "dir = CHR ''/'' # s" "list_all plain_elem (Split (CHR ''/'') s)" using assms(1) by (cases dir) (auto simp: plain_path_def)
  have clean: "clean_elems True out (es @ c # ''..'' # zs) = clean_elems True (rev es @ out) zs" if "list_all plain_elem es" for es out zs
    using that assms(2) by (induction es arbitrary: out) (auto simp: plain_elem_def)
  have split: "path_Clean (dir @ CHR ''/'' # t) = ''/'' @ Join ''/'' (clean_elems True [] (Split (CHR ''/'') s @ Split (CHR ''/'') t))" for t
    by (simp add: s(1) path_Clean_rooted Split_at_sep)
  show "path_Clean (dir @ ''/'' @ c @ ''/..'') = dir"
    using split [of "c @ CHR ''/'' # ''..''"] clean [OF s(2), of "[]" "[]"] unfolding Split_at_sep Split_no_sep [OF assms(3)]
    by (simp add: Join_Split s(1))
  assume n: "plain_elem n" "CHR ''/'' \<notin> set n"
  have "plain_path (dir @ ''/'' @ n)" using assms(1) n by (simp add: plain_path_append Split_no_sep)
  then show "path_Clean (dir @ ''/'' @ c @ ''/../'' @ n) = dir @ ''/'' @ n"
    using split [of "c @ CHR ''/'' # ''..'' @ CHR ''/'' # n"] clean [OF s(2), of "[]" "[n]"] n(1) split [of n] path_Clean_plain
    unfolding Split_at_sep Split_no_sep [OF assms(3)] Split_no_sep [OF n(2)] by (simp add: clean_plain s(2) plain_elem_def)
qed

text \<open>
  C13: nothing keeps the entries of an archive below the destination: an entry \<open>../n\<close> is written beside the destination
  directory, over what stands there, and the call succeeds.
\<close>

theorem dotdot_entry_escapes:
  assumes "tarFile \<notin> set (dirs w)" "content w tarFile = Some bytes" "fs_accepts w"
    and "gz bytes = Inr [Header (''../'' @ n) d None]"
    and "plain_name dir (c @ ''/'' @ n)" "CHR ''/'' \<notin> set c \<union> set n" "n \<noteq> c"
    and "free_place w (dir @ ''/'' @ n)" "content w (dir @ ''/'' @ c) = None"
  shows "\<exists>w'. DeCompressTgz (\<lambda>d. None) rcap gz tarFile (dir @ ''/'' @ c) w = Some (w', None)
    \<and> content w' = (content w)(dir @ ''/'' @ n \<mapsto> overwritten (content w (dir @ ''/'' @ n)) d)
    \<and> \<not> below (dir @ ''/'' @ c) (dir @ ''/'' @ n)"
proof -
  let ?dest = "dir @ ''/'' @ c" and ?up = "dir @ ''/'' @ c @ ''/..''"
  have es: "plain_elem c" "plain_elem n" and dp: "plain_path dir"
    using assms(5,6) by (simp_all add: plain_name_def Split_at_sep Split_no_sep)
  have pd: "plain_path ?dest" "plain_path (dir @ ''/'' @ n)" using dp es assms(6) by (simp_all add: plain_path_append Split_no_sep)
  have up: "path_Clean ?up = dir" using path_Clean_up(1) [OF dp es(1)] assms(6) by simp
  have target: "path_Clean (?up @ ''/'' @ n) = dir @ ''/'' @ n" using path_Clean_up(2) [OF dp es(1) _ es(2)] assms(6) by simp
  have ne: "dir \<noteq> []" using plain_path_not_root [OF dp] by blast
  have anc: "set (ancestors (dir @ ''/'' @ x)) = insert dir (set (ancestors dir))" if "CHR ''/'' \<notin> set x" for x
    by (rule ancestors_snoc [OF that ne])
  have c0: "set (dir_chain ?up) = {?up, ?dest, dir} \<union> set (ancestors dir)"
  proof -
    have "set (dir_chain ?up) = insert ?up (set (ancestors ?up))" by (simp add: dir_chain_def ancestors_def)
    also have "set (ancestors ?up) = insert ?dest (set (ancestors ?dest))" using ancestors_snoc [of "''..''" ?dest] by simp
    also have "set (ancestors ?dest) = insert dir (set (ancestors dir))" using assms(6) by (intro anc) simp
    finally show ?thesis by simp
  qed
  have "path_Clean ` set (ancestors dir) = set (ancestors dir)" using path_Clean_plain [OF plain_ancestor [OF dp]] by force
  then have chain: "path_Clean ` set (dir_chain ?up) = {dir, ?dest} \<union> set (ancestors dir)"
    unfolding c0 image_Un image_insert image_empty up path_Clean_plain [OF dp] path_Clean_plain [OF pd(1)] by blast
  have none: "\<forall>x \<in> path_Clean ` set (dir_chain ?up). content w x = None"
    unfolding chain using assms(6,8,9) anc [of n] by (auto simp: free_place_def list_all_iff)
  have out: "path_Clean (?up @ ''/'' @ n) \<notin> path_Clean ` set (dir_chain ?up)"
    unfolding chain target using assms(7) by (auto simp: ancestors_iff prefix_def)
  have nodir: "\<not> is_dir w (path_Clean (?up @ ''/'' @ n))"
    unfolding target using assms(8) plain_path_not_root [OF pd(2)] by (auto simp: free_place_def is_dir_def)
  have ascii: "list_all (\<lambda>c. byte c < 128) ?up" using assms(5) by (simp add: plain_name_def)
  have "\<exists>ms. createFile (\<lambda>d. None) rcap (?up @ ''/'' @ n) d None w
      = Some (w\<lparr>dirs := dirs w @ ms, content := (content w)(path_Clean (?up @ ''/'' @ n) \<mapsto> overwritten (content w (path_Clean (?up @ ''/'' @ n))) d)\<rparr>, None)
    \<and> set ms \<subseteq> path_Clean ` set (dir_chain ?up)"
    by (rule createFile_makes [OF _ _ _ es(2) ascii assms(3) _ nodir out]) (use assms(6) none in auto)
  then obtain ms where "createFile (\<lambda>d. None) rcap (?up @ ''/'' @ n) d None w
      = Some (w\<lparr>dirs := dirs w @ ms, content := (content w)(dir @ ''/'' @ n \<mapsto> overwritten (content w (dir @ ''/'' @ n)) d)\<rparr>, None)"
    unfolding target by blast
  moreover have "\<not> below ?dest (dir @ ''/'' @ n)" using assms(6,7) by (auto simp: below_def prefix_def)
  ultimately show ?thesis using assms(1-4) by (simp add: DeCompressTgz_def ReadFile_def fs_accepts_def)
qed

definition sample_archive :: fs where
  "sample_archive = plain_fs\<lparr>content := [''/a.tgz'' \<mapsto> ''z'', ''/d/x'' \<mapsto> ''older'']\<rparr>"


theorem dotdot_entry_escapes_witness:
  "\<exists>w'. DeCompressTgz (\<lambda>d. None) id (\<lambda>z. Inr [Header ''../x'' ''new'' None]) ''/a.tgz'' ''/d/e'' sample_archive = Some (w', None)
    \<and> content w' ''/d/x'' = Some ''newer'' \<and> \<not> below ''/d/e'' ''/d/x''"
  using dotdot_entry_escapes [of "''/a.tgz''" sample_archive "''z''" "\<lambda>z. Inr [Header ''../x'' ''new'' None]" "''x''" "''new''" "''/d''" "''e''" id]
  by (auto simp: sample_archive_def plain_fs_def overwritten_def free_place_def ancestors_def fs_accepts_def plain_name_def plain_path_def plain_elem_def)

theorem createFile_directory_iff_witness:
  "rune_prefix id (''/'' @ [CHR 0xC3, CHR 0xA9] @ ''/a'') 3 \<noteq> Some (''/'' @ [CHR 0xC3, CHR 0xA9])"
proof -
  have "valid_utf8 (''/'' @ [CHR 0xC3, CHR 0xA9])" "\<not> list_all (\<lambda>c. byte c < 128) (''/'' @ [CHR 0xC3, CHR 0xA9])"
    "LastIndex (''/'' @ [CHR 0xC3, CHR 0xA9] @ ''/a'') (CHR ''/'') = 3" by code_simp+
  then show ?thesis using createFile_directory_iff [of "''/'' @ [CHR 0xC3, CHR 0xA9]" "''a''" id] by simp
qed

section \<open>What a download leaves\<close>

text \<open>
  a download succeeds only with the whole body of an answer of status 200, which is then the content of
  the file; where it fails after the file was opened, the old content is lost and part of the body, or
  nothing, is left in its place; no other file changes.
\<close>

theorem Download_result:
  "(case Download get f url w of
      (w', None) \<Rightarrow> \<exists>body. get url = Inr (200, body, None) \<and> content w' = (content w)(f \<mapsto> body)
    | (w', Some err) \<Rightarrow>
        (if open_error w f \<noteq> None then w' = w
         else \<exists>part. content w' = (content w)(f \<mapsto> part)
           \<and> (part = [] \<or> (\<exists>rerr. get url = Inr (200, part, Some rerr)))))"
  by (auto simp: Download_def copy_to_def Let_def split: option.splits sum.splits prod.splits if_splits)

section \<open>The cached paths\<close>

text \<open>The caches agree: what is remembered lies in the directory of the agent.\<close>

definition paths_inv :: "env_paths \<Rightarrow> bool" where
  "paths_inv p \<longleftrightarrow>
     (metricPath p \<noteq> [] \<or> agentPath p \<noteq> [] \<or> chaosLogFilePath p \<noteq> [] \<longrightarrow> chaosPath p \<noteq> [])
     \<and> (metricPath p \<noteq> [] \<longrightarrow> metricPath p = path_Join [chaosPath p, ''metric''])
     \<and> (agentPath p \<noteq> [] \<longrightarrow> agentPath p = path_Join [chaosPath p, ''agent''])
     \<and> (chaosLogFilePath p \<noteq> [] \<longrightarrow> chaosLogFilePath p = path_Join [chaosPath p, AgentLog])"

text \<open>The operations on the paths, one at a time; each may find other files and other answers of the system.\<close>

inductive paths_step :: "env_paths \<Rightarrow> env_paths \<Rightarrow> bool" where
  Dir: "GetCurrentDirectory absdir p = Some (p', dir) \<Longrightarrow> dir \<noteq> [] \<Longrightarrow> paths_step p p'"
| Log: "GetAgentLogFilePath absdir p = Some (p', f) \<Longrightarrow> absdir \<noteq> Inr [] \<Longrightarrow> paths_step p p'"
| Metric: "GetMetricDirectory mk absdir p w = Some (p', w', m) \<Longrightarrow> absdir \<noteq> Inr [] \<Longrightarrow> paths_step p p'"
| Agent: "GetAgentDirectory mk absdir p w = Some (p', w', m) \<Longrightarrow> absdir \<noteq> Inr [] \<Longrightarrow> paths_step p p'"
| Clear: "ClearMetricDirectory mk rm absdir p w = Some (p', w', err) \<Longrightarrow> absdir \<noteq> Inr [] \<Longrightarrow> paths_step p p'"

lemma GetCurrentDirectory_path:
  "GetCurrentDirectory absdir p = Some (p', dir) \<Longrightarrow> absdir \<noteq> Inr [] \<Longrightarrow>
     dir \<noteq> [] \<and> p' = p\<lparr>chaosPath := dir\<rparr> \<and> (chaosPath p \<noteq> [] \<longrightarrow> p' = p \<and> dir = chaosPath p)"
  by (auto simp: GetCurrentDirectory_def split: if_splits sum.splits)

lemma GetMetricDirectory_cases:
  assumes "GetMetricDirectory mk absdir p w = Some (p', w', m)" "absdir \<noteq> Inr []"
  obtains "metricPath p \<noteq> []" "p' = p" "m = metricPath p"
  | dir where "metricPath p = []" "dir \<noteq> []" "chaosPath p = [] \<or> dir = chaosPath p" "m = path_Join [dir, ''metric'']"
      "p' = p\<lparr>chaosPath := dir, metricPath := m\<rparr>"
proof (cases "metricPath p = []")
  case True
  with assms(1) obtain p1 dir where d: "GetCurrentDirectory absdir p = Some (p1, dir)" "m = path_Join [dir, ''metric'']" "p' = p1\<lparr>metricPath := m\<rparr>"
    by (auto simp: GetMetricDirectory_def bind_eq_Some_conv Let_def split: if_splits option.splits prod.splits)
  with GetCurrentDirectory_path [OF d(1) assms(2)] True show ?thesis by (intro that(2) [of dir]) auto
next
  case False
  then show ?thesis using assms(1) by (intro that(1)) (auto simp: GetMetricDirectory_def)
qed

lemma GetAgentDirectory_cases:
  assumes "GetAgentDirectory mk absdir p w = Some (p', w', m)" "absdir \<noteq> Inr []"
  obtains "p' = p"
  | dir where "dir \<noteq> []" "chaosPath p = [] \<or> dir = chaosPath p" "p' = p\<lparr>chaosPath := dir, agentPath := path_Join [dir, ''agent'']\<rparr>"
proof (cases "agentPath p = []")
  case True
  with assms(1) obtain p1 dir where d: "GetCurrentDirectory absdir p = Some (p1, dir)" "p' = p1\<lparr>agentPath := path_Join [dir, ''agent'']\<rparr>"
    by (auto simp: GetAgentDirectory_def bind_eq_Some_conv Let_def split: if_splits option.splits prod.splits)
  with GetCurrentDirectory_path [OF d(1) assms(2)] show ?thesis by (intro that(2) [of dir]) auto
next
  case False
  then show ?thesis using assms(1) by (intro that(1)) (auto simp: GetAgentDirectory_def)
qed

lemma GetMetricDirectory_path:
  assumes "GetMetricDirectory mk absdir p w = Some (p', w', m)" "absdir \<noteq> Inr []" "paths_inv p"
  shows "paths_inv p' \<and> metricPath p' = m \<and> chaosPath p' \<noteq> [] \<and> m = path_Join [chaosPath p', ''metric'']"
  using assms(1,2) by (cases rule: GetMetricDirectory_cases) (use assms(3) in \<open>auto simp: paths_inv_def\<close>)

lemma paths_inv_step: "paths_step p p' \<Longrightarrow> paths_inv p \<Longrightarrow> paths_inv p'"
proof (induction rule: paths_step.induct)
  case (Dir absdir p p' dir)
  then show ?case by (auto simp: GetCurrentDirectory_def paths_inv_def split: if_splits sum.splits)
next
  case (Log absdir p p' f)
  then show ?case using GetCurrentDirectory_path [of absdir p]
    by (fastforce simp: GetAgentLogFilePath_def paths_inv_def bind_eq_Some_conv Let_def split: if_splits)
next
  case (Metric mk absdir p w p' w' m)
  then show ?case using GetMetricDirectory_path by blast
next
  case (Agent mk absdir p w p' w' m)
  from Agent.hyps show ?case by (cases rule: GetAgentDirectory_cases) (use Agent.prems in \<open>auto simp: paths_inv_def\<close>)
next
  case (Clear mk rm absdir p w p' w' err)
  then obtain p1 w1 m where g: "GetMetricDirectory mk absdir p w = Some (p1, w1, m)"
    "(case RemoveAll rm m w1 of (w, Some err) \<Rightarrow> (p1, w, Some err) | (w, None) \<Rightarrow> (p1\<lparr>metricPath := []\<rparr>, w, None)) = (p', w', err)"
    by (auto simp: ClearMetricDirectory_def bind_eq_Some_conv)
  then have "p' = p1 \<or> p' = p1\<lparr>metricPath := []\<rparr>" by (cases "RemoveAll rm m w1") (auto split: option.splits)
  moreover have "paths_inv p1" using GetMetricDirectory_path [OF g(1) Clear.hyps(2) Clear.prems] by blast
  ultimately show ?case by (elim disjE) (simp_all add: paths_inv_def)
qed

text \<open>
  C21: the remembered paths always agree: from the start of the process, whatever order the operations come in
  (unless the directory is set by hand), metrics, log and agent lie in the same directory.
\<close>

theorem cached_paths_agree:
  assumes "paths_step\<^sup>*\<^sup>* \<lparr>chaosPath = [], metricPath = [], agentPath = [], chaosLogFilePath = []\<rparr> p"
  shows "paths_inv p"
  using assms by (induction rule: rtranclp_induct) (auto simp: paths_inv_step, simp add: paths_inv_def)

text \<open>
  clearing the metrics starts afresh: nothing is left in the directory, and the next request for it asks for
  the same directory again.
\<close>

theorem clear_metrics_starts_afresh:
  assumes "ClearMetricDirectory mk rm absdir p w = Some (p', w', None)" "paths_inv p" "absdir \<noteq> Inr []"
  shows "\<exists>m. (\<forall>f. \<not> (below m f \<and> IsExist w' f))
    \<and> GetMetricDirectory mk absdir p' w'
        = (case MkdirAll mk m w' of (w'', None) \<Rightarrow> Some (p'\<lparr>metricPath := m\<rparr>, w'', m) | (w'', Some err) \<Rightarrow> None)"
proof -
  obtain p1 w1 m where g: "GetMetricDirectory mk absdir p w = Some (p1, w1, m)" "p' = p1\<lparr>metricPath := []\<rparr>"
    "w' = w1\<lparr>content := (\<lambda>f. if below m f then None else content w1 f), dirs := filter (\<lambda>f. \<not> below m f) (dirs w1)\<rparr>"
    using assms(1) by (auto simp: ClearMetricDirectory_def RemoveAll_def bind_eq_Some_conv split: option.splits prod.splits)
  have c: "chaosPath p1 \<noteq> [] \<and> m = path_Join [chaosPath p1, ''metric'']" using GetMetricDirectory_path [OF g(1) assms(3,2)] by auto
  have gone: "\<not> (below m f \<and> IsExist w' f)" for f by (auto simp: g(3) IsExist_def)
  have "\<not> IsExist w' m" using gone [of m] by (auto simp: below_def)
  then show ?thesis using c gone by (intro exI [of _ m]) (auto simp: GetMetricDirectory_def GetCurrentDirectory_def g(2) Let_def)
qed

lemma sample_log_path:
  "GetAgentLogFilePath (Inr ''/opt'') \<lparr>chaosPath = [], metricPath = [], agentPath = [], chaosLogFilePath = []\<rparr>
    = Some (\<lparr>chaosPath = ''/opt'', metricPath = [], agentPath = [], chaosLogFilePath = ''/opt/agent.log''\<rparr>, ''/opt/agent.log'')"
  by code_simp

theorem cached_paths_agree_witness:
  "paths_inv \<lparr>chaosPath = ''/opt'', metricPath = [], agentPath = [], chaosLogFilePath = ''/opt/agent.log''\<rparr>"
proof (rule cached_paths_agree, rule r_into_rtranclp [of paths_step])
  show "paths_step \<lparr>chaosPath = [], metricPath = [], agentPath = [], chaosLogFilePath = []\<rparr>
    \<lparr>chaosPath = ''/opt'', metricPath = [], agentPath = [], chaosLogFilePath = ''/opt/agent.log''\<rparr>"
    using Log [OF sample_log_path] by simp
qed

definition sample_paths :: "string \<Rightarrow> env_paths" where
  "sample_paths m = \<lparr>chaosPath = ''/opt'', metricPath = m, agentPath = [], chaosLogFilePath = []\<rparr>"

theorem clear_metrics_starts_afresh_witness:
  "\<exists>w''. IsExist w'' ''/opt/metric''
    \<and> GetMetricDirectory (\<lambda>d. None) (Inr ''/opt'') (sample_paths []) plain_fs = Some (sample_paths ''/opt/metric'', w'', ''/opt/metric'')"
proof -
  let ?w = "plain_fs\<lparr>content := [''/opt/metric/x'' \<mapsto> ''1'']\<rparr>"
  have j: "path_Join [''/opt'', ''metric''] = ''/opt/metric''" "dir_chain ''/opt/metric'' = [''/opt'', ''/opt/metric'']"
    "path_Clean ''/opt'' = ''/opt''" "path_Clean ''/opt/metric'' = ''/opt/metric''" by code_simp+
  have d: "dirs plain_fs = []" "plain_fs\<lparr>content := Map.empty, dirs := []\<rparr> = plain_fs" by (simp_all add: plain_fs_def)
  have "(\<lambda>f. if below ''/opt/metric'' f then None else content ?w f) = Map.empty"
    by (auto simp: fun_eq_iff below_def)
  then have c: "ClearMetricDirectory (\<lambda>d. None) (\<lambda>d. None) (Inr ''/opt'') (sample_paths ''/opt/metric'') ?w = Some (sample_paths [], plain_fs, None)"
    by (simp add: ClearMetricDirectory_def GetMetricDirectory_def RemoveAll_def sample_paths_def d)
  have "paths_inv (sample_paths ''/opt/metric'')" by (simp add: paths_inv_def j sample_paths_def)
  then obtain m where m: "GetMetricDirectory (\<lambda>d. None) (Inr ''/opt'') (sample_paths []) plain_fs
      = (case MkdirAll (\<lambda>d. None) m plain_fs of (w'', None) \<Rightarrow> Some ((sample_paths [])\<lparr>metricPath := m\<rparr>, w'', m) | (w'', Some err) \<Rightarrow> None)"
    using clear_metrics_starts_afresh [OF c] by auto
  have k: "MkdirAll (\<lambda>d. None) ''/opt/metric'' plain_fs = (plain_fs\<lparr>dirs := [''/opt'', ''/opt/metric'']\<rparr>, None)"
    by (simp add: MkdirAll_def j is_dir_def plain_fs_def Let_def)
  then have "m = ''/opt/metric''" using m
    by (auto simp: GetMetricDirectory_def GetCurrentDirectory_def j IsExist_def sample_paths_def plain_fs_def Let_def split: prod.splits option.splits)
  with m k show ?thesis by (auto simp: sample_paths_def IsExist_def)
qed

end
