(* ===== verification/Agent_Start.thy ===== *)
theory Agent_Start
  imports Agent_Litmus Agent_Workloads Agent_Files
begin

text \<open>
  The start of the agent (\<open>cmd/chaos_agent.go\<close>) and the Kubernetes channel (\<open>pkg/kubernetes\<close>): what \<open>main\<close>
  sets up, with its exits, and then the goroutines of the start side by side: the three client handlers, the
  listener, and \<open>main\<close> writing its process id, with the panics and exits of each, until \<open>main\<close> waits for a signal.
\<close>

section \<open>The Kubernetes channel\<close>

text \<open>
  \<open>NewK8sClient\<close>: the configuration of the cluster (its host, or an error) and the client made from it
  are the library's. \<open>GetInstance\<close> runs once; the channel holds no client where that failed.
\<close>

definition NewK8sClient :: "string + string \<Rightarrow> string + 'c \<Rightarrow> Options \<Rightarrow> Options \<times> (string + 'c)" where
  "NewK8sClient clusterConfig clientset op =
     (case clusterConfig of
        Inl err \<Rightarrow> (op, Inl err)
      | Inr host \<Rightarrow>
          (SetClusterIdIfNotPresent (if host \<noteq> [] then ''API_SERVER_'' @ host else ''default-cluster'') op, clientset))"

record 'c Channel =
  ClientSet :: "'c option"

definition GetInstance :: "string + string \<Rightarrow> string + 'c \<Rightarrow> 'c Channel option \<Rightarrow> Options \<Rightarrow> 'c Channel \<times> Options" where
  "GetInstance clusterConfig clientset channel op =
     (case channel of
        Some c \<Rightarrow> (c, op)
      | None \<Rightarrow>
          (case NewK8sClient clusterConfig clientset op of
             (op', Inl err) \<Rightarrow> (\<lparr>ClientSet = None\<rparr>, op')
           | (op', Inr c) \<Rightarrow> (\<lparr>ClientSet = Some c\<rparr>, op')))"

section \<open>Logging\<close>

text \<open>
  \<open>InitLog\<close> of \<open>pkg/log\<close>: \<open>parseLevel\<close> is \<open>logrus.ParseLevel\<close>, \<^const>\<open>None\<close> where it fails. An output that is neither of the
  two leaves the logger writing to the standard error.
\<close>

datatype log_output = Stderr | Stdout | LogFile string int int

record 'l logger =
  lg_level :: 'l
  lg_output :: log_output

definition InitLog ::
  "(string \<Rightarrow> 'l option) \<Rightarrow> 'l \<Rightarrow> string + string \<Rightarrow> LogConfig \<Rightarrow> 'l logger \<Rightarrow> env_paths \<Rightarrow> ('l logger \<times> env_paths) option" where
  "InitLog parseLevel infoLevel absdir cfg lg p =
     (let lg = lg\<lparr>lg_level := (case parseLevel (Level cfg) of None \<Rightarrow> infoLevel | Some level \<Rightarrow> level)\<rparr> in
      if LogOutput cfg = ''file'' then
        do {
          (p, fileName) \<leftarrow> GetAgentLogFilePath absdir p;
          Some (lg\<lparr>lg_output := LogFile fileName (MaxFileSize cfg) (MaxFileCount cfg)\<rparr>, p)
        }
      else if LogOutput cfg = ''stdout'' then Some (lg\<lparr>lg_output := Stdout\<rparr>, p)
      else Some (lg, p))"

section \<open>The start\<close>

text \<open>
  What the start finds: the directory of the program, the levels of the logger, the command line, the
  host, the cluster and the handlers of the API.
\<close>

record ('l, 'c, 's) boot =
  b_absdir :: "string + string"
  b_parseLevel :: "string \<Rightarrow> 'l option"
  b_infoLevel :: 'l
  b_parse :: "Options \<Rightarrow> string + Options"
  b_host :: host
  b_config :: "string + string"
  b_client :: "string + 'c"
  b_handlers :: "'s api_handlers"

record ('l, 'c, 's) running_agent =
  ra_paths :: env_paths
  ra_log :: "'l logger"
  ra_opts :: Options
  ra_http :: HttpClient
  ra_uris :: "string \<rightharpoonup> Uri"
  ra_channel :: "'c Channel"
  ra_metrics :: ReportMetricConfigMap
  ra_conn :: conn_state
  ra_mux :: "'s Handlers"

text \<open>
  The process ends with the files it leaves, panics, waits for a lock, or runs.
\<close>

datatype ('l, 'c, 's) start = Exit fs | StartPanic | StartBlocks | Up "('l, 'c, 's) running_agent" fs

text \<open>The handlers of the connection.\<close>

datatype client_handler = Connect_client | Heartbeat_client | Metric_client

text \<open>\<open>handlerErr\<close> writes \<open>-1\<close> as process id and exits.\<close>

definition handlerErr :: "fs \<Rightarrow> fs" where
  "handlerErr w = fst (writePid w (- 1))"

definition empty_metrics :: ReportMetricConfigMap where
  "empty_metrics = \<lparr>mu = \<lparr>readers = 0, writer = False\<rparr>, ReportMetricConfigs = []\<rparr>"

definition no_paths :: env_paths where
  "no_paths = \<lparr>chaosPath = [], metricPath = [], agentPath = [], chaosLogFilePath = []\<rparr>"

text \<open>
  \<open>main\<close> up to the listener. Before it runs, the package variable \<open>AppFile\<close> asks for the directory of the
  program; a fatal log message there or in \<open>InitLog\<close> ends the process.
\<close>

definition agent_main :: "('l, 'c, 's) boot \<Rightarrow> fs \<Rightarrow> ('l, 'c, 's) start" where
  "agent_main b w =
     (case GetCurrentDirectory (b_absdir b) no_paths of
        None \<Rightarrow> Exit w
      | Some (p, dir) \<Rightarrow>
     (case NewOptions (b_parse b) of
        Inl err \<Rightarrow> Exit w
      | Inr op \<Rightarrow>
     (case InitLog (b_parseLevel b) (b_infoLevel b) (b_absdir b) (LogConf op) \<lparr>lg_level = b_infoLevel b, lg_output = Stderr\<rparr> p of
        None \<Rightarrow> Exit w
      | Some (lg, p) \<Rightarrow>
          (case SetOthersByFlags (b_host b) w op of
             (w, Inl msg) \<Rightarrow> Exit w
           | (w, Inr op) \<Rightarrow>
               (case NewHttpClient op (TransportConf op) of
                  Inl err \<Rightarrow> Exit (handlerErr w)
                | Inr client \<Rightarrow>
                    (let m = InitTransprotUri op;
                         (channel, op) = GetInstance (b_config b) (b_client b) None op
                     in case InitMetricConfig op empty_metrics of
                          Blocks \<Rightarrow> StartBlocks
                        | Returns metrics \<Rightarrow>
                            (let conn = Conn_Start (Conn_Register API_METRIC Metric_client (Conn_Register API_HEARTBEAT Heartbeat_client
                               (Conn_Register API_REGISTRY Connect_client NewConn))) in
                             case Register (b_handlers b) [] of
                               None \<Rightarrow> StartPanic
                             | Some (mux, Some err) \<Rightarrow> Exit (handlerErr w)
                             | Some (mux, None) \<Rightarrow>
                                 Up \<lparr>ra_paths = p, ra_log = lg, ra_opts = op, ra_http = client, ra_uris = m, ra_channel = channel,
                                     ra_metrics = metrics, ra_conn = conn, ra_mux = mux\<rparr> w)))))))"

text \<open>\<open>ClientHeartbeatHandler.Start\<close> up to its goroutine: \<open>time.NewTicker\<close> panics on a period that is not positive.\<close>

definition heartbeat_Start :: "int \<Rightarrow> unit go" where
  "heartbeat_Start period = (if period \<le> 0 then None else Some ())"

text \<open>
  After that the goroutines of the start run side by side: the \<open>Start\<close> of each client handler, the listener, and \<open>main\<close>
  with \<open>handlerSuccess\<close>. The flags say which of them is through. The panic of a client handler or of \<open>main\<close> ends the
  process, as does \<open>handlerErr\<close>. The heartbeat handler has its own copy of the period.
\<close>

datatype ending = Lives | Exited | Crashed

record launch =
  la_agent :: agent
  la_metrics :: ReportMetricConfigMap
  la_period :: int
  la_connected :: bool
  la_beating :: bool
  la_reporting :: bool
  la_listening :: bool
  la_holding :: bool
  la_end :: ending

definition launched :: "('l, 'c, 's) running_agent \<Rightarrow> fs \<Rightarrow> launch" where
  "launched a w =
     \<lparr>la_agent = \<lparr>opts = ra_opts a, keys = \<lparr>localAccessKey = [], localSecureKey = []\<rparr>, files = w, uris = ra_uris a, hbs = HBSnapshotList\<rparr>,
      la_metrics = ra_metrics a, la_period = HeartbeatPeriod (ra_opts a), la_connected = False, la_beating = False,
      la_reporting = False, la_listening = False, la_holding = False, la_end = Lives\<rparr>"

abbreviation set_files :: "fs \<Rightarrow> launch \<Rightarrow> launch" where
  "set_files w s \<equiv> s\<lparr>la_agent := (la_agent s)\<lparr>files := w\<rparr>\<rparr>"

text \<open>
  \<open>e\<close> is what the registration meets, \<open>free\<close> says whether the port can be opened, \<open>pid\<close> is the process id. A handler
  that returns an error waits for ever on the nil channel; the process goes on.
\<close>

inductive launch_step :: "env \<Rightarrow> bool \<Rightarrow> int \<Rightarrow> launch \<Rightarrow> launch \<Rightarrow> bool" for e free pid where
  Connect: "la_end s = Lives \<Longrightarrow> \<not> la_connected s \<Longrightarrow> connect_Start e (la_agent s) = Some (a, err) \<Longrightarrow>
    launch_step e free pid s (s\<lparr>la_agent := a, la_connected := True\<rparr>)"
| Connect_panic: "la_end s = Lives \<Longrightarrow> \<not> la_connected s \<Longrightarrow> connect_Start e (la_agent s) = None \<Longrightarrow>
    launch_step e free pid s (s\<lparr>la_end := Crashed\<rparr>)"
| Heartbeat: "la_end s = Lives \<Longrightarrow> \<not> la_beating s \<Longrightarrow>
    launch_step e free pid s (case heartbeat_Start (la_period s) of None \<Rightarrow> s\<lparr>la_end := Crashed\<rparr> | Some u \<Rightarrow> s\<lparr>la_beating := True\<rparr>)"
| Metric: "la_end s = Lives \<Longrightarrow> \<not> la_reporting s \<Longrightarrow> metric_Start (la_metrics s) = Returns r \<Longrightarrow>
    launch_step e free pid s (case r of None \<Rightarrow> s\<lparr>la_end := Crashed\<rparr> | Some m \<Rightarrow> s\<lparr>la_metrics := m, la_reporting := True\<rparr>)"
| Listen: "la_end s = Lives \<Longrightarrow> \<not> la_listening s \<Longrightarrow>
    launch_step e free pid s
      (if free then s\<lparr>la_listening := True\<rparr> else (set_files (handlerErr (files (la_agent s))) s)\<lparr>la_end := Exited\<rparr>)"
| Success: "la_end s = Lives \<Longrightarrow> \<not> la_holding s \<Longrightarrow> writePid (files (la_agent s)) pid = (w, err) \<Longrightarrow>
    launch_step e free pid s
      (if err = None then (set_files w s)\<lparr>la_holding := True\<rparr> else (set_files w s)\<lparr>la_end := Crashed\<rparr>)"

definition serving :: "launch \<Rightarrow> bool" where
  "serving s \<longleftrightarrow> la_end s = Lives \<and> la_connected s \<and> la_beating s \<and> la_reporting s \<and> la_listening s \<and> la_holding s"

section \<open>Correctness\<close>

lemma SetOthersByFlags_pid: "SetOthersByFlags h w op = (w', Inr op') \<Longrightarrow> Pid op' = Itoa (h_pid h)"
  by (auto simp: SetOthersByFlags_def GetPid_def Let_def split: sum.splits if_splits)

lemma GetInstance_opts:
  "snd (GetInstance cfg cl ch op) = op \<or> (\<exists>i. i \<noteq> [] \<and> ClusterId op = [] \<and> snd (GetInstance cfg cl ch op) = op\<lparr>ClusterId := i\<rparr>)"
proof (cases ch)
  case None
  show ?thesis
  proof (cases cfg)
    case (Inr host)
    have "(if host \<noteq> [] then ''API_SERVER_'' @ host else ''default-cluster'') \<noteq> []" by simp
    then show ?thesis using None Inr
      by (cases cl) (auto simp: GetInstance_def NewK8sClient_def SetClusterIdIfNotPresent_def)
  qed (use None in \<open>simp add: GetInstance_def NewK8sClient_def\<close>)
qed (simp add: GetInstance_def)

lemma Register_fresh:
  "\<exists>mux. Register hs [] = Some (mux, None) \<and> map fst mux =
     [''/chaosblade'', ''/ping'', ''/uninstall'', ''/updateApplication'', ''/litmuschaos'', ''/installLitmus'', ''/uninstallLitmus'']"
  by (simp add: Register_def Http_RegisterHandler_def)

lemma InitLog_returns:
  assumes "GetCurrentDirectory absdir no_paths = Some (p, dir)"
  shows "\<exists>lg' p'. InitLog parseLevel i absdir cfg lg p = Some (lg', p') \<and> (absdir = Inr [] \<or> paths_inv p')
    \<and> (LogOutput cfg = ''file'' \<longrightarrow> lg_output lg' = LogFile (path_Join [dir, AgentLog]) (MaxFileSize cfg) (MaxFileCount cfg))"
proof -
  have p: "p = no_paths\<lparr>chaosPath := dir\<rparr>" "absdir = Inr dir" using assms by (auto simp: GetCurrentDirectory_def no_paths_def split: sum.splits)
  then show ?thesis
    by (cases "dir = []") (auto simp: InitLog_def GetAgentLogFilePath_def GetCurrentDirectory_def no_paths_def paths_inv_def Let_def)
qed

lemma agent_main_ready:
  "(case agent_main b w of
      Exit w' \<Rightarrow> \<not> (\<exists>dir o0 w1 o1 c. b_absdir b = Inr dir \<and> NewOptions (b_parse b) = Inr o0
        \<and> SetOthersByFlags (b_host b) w o0 = (w1, Inr o1) \<and> NewHttpClient o1 (TransportConf o1) = Inr c)
    | StartPanic \<Rightarrow> False
    | StartBlocks \<Rightarrow> False
    | Up a w' \<Rightarrow>
        Endpoint (TransportConf (ra_opts a)) \<noteq> [] \<and> Pid (ra_opts a) = Itoa (h_pid (b_host b))
        \<and> (isValidIP (Ip (ra_opts a)) \<or> GetPrivateIp (h_interfaces (b_host b)) = Inr (Ip (ra_opts a)))
        \<and> (b_absdir b = Inr [] \<or> paths_inv (ra_paths a))
        \<and> map fst (ra_mux a) = [''/chaosblade'', ''/ping'', ''/uninstall'', ''/updateApplication'', ''/litmuschaos'', ''/installLitmus'', ''/uninstallLitmus'']
        \<and> map fst (ReportMetricConfigs (ra_metrics a)) = [''k8sPod''] \<and> ra_uris a API_K8S_POD \<noteq> None
        \<and> gos (ra_conn a) = [Running, Running, Running])"
proof -
  obtain mux where mux: "Register (b_handlers b) [] = Some (mux, None)" "map fst mux =
     [''/chaosblade'', ''/ping'', ''/uninstall'', ''/updateApplication'', ''/litmuschaos'', ''/installLitmus'', ''/uninstallLitmus'']"
    using Register_fresh [of "b_handlers b"] by (elim exE conjE) (rule that)
  have m: "\<exists>rmc. InitMetricConfig o' empty_metrics = Returns rmc \<and> map fst (ReportMetricConfigs rmc) = [''k8sPod'']" for o'
    by (simp add: InitMetricConfig_def MetricRegistry_def empty_metrics_def Lock_def)
  consider (nodir) err where "b_absdir b = Inl err" | (noopts) dir err where "b_absdir b = Inr dir" "NewOptions (b_parse b) = Inl err"
    | (go) dir op where "b_absdir b = Inr dir" "NewOptions (b_parse b) = Inr op"
    by (cases "b_absdir b"; cases "NewOptions (b_parse b)") auto
  then show ?thesis
  proof cases
    case (go dir op)
    have d: "GetCurrentDirectory (b_absdir b) no_paths = Some (no_paths\<lparr>chaosPath := dir\<rparr>, dir)"
      using go by (simp add: GetCurrentDirectory_def no_paths_def)
    obtain lg p where l: "InitLog (b_parseLevel b) (b_infoLevel b) (b_absdir b) (LogConf op) \<lparr>lg_level = b_infoLevel b, lg_output = Stderr\<rparr>
        (no_paths\<lparr>chaosPath := dir\<rparr>) = Some (lg, p)" "b_absdir b = Inr [] \<or> paths_inv p"
      using InitLog_returns [OF d, of "b_parseLevel b" "b_infoLevel b" "LogConf op" "\<lparr>lg_level = b_infoLevel b, lg_output = Stderr\<rparr>"]
      by (elim exE conjE) (rule that)
    obtain w1 r where s: "SetOthersByFlags (b_host b) w op = (w1, r)" by fastforce
    show ?thesis
    proof (cases r)
      case r: (Inr o1)
      obtain ch o2 where g: "GetInstance (b_config b) (b_client b) None o1 = (ch, o2)" by fastforce
      have o2: "o2 = o1 \<or> (\<exists>i. o2 = o1\<lparr>ClusterId := i\<rparr>)"
        using GetInstance_opts [of "b_config b" "b_client b" None o1] g by auto
      obtain rmc where rmc: "InitMetricConfig o2 empty_metrics = Returns rmc" "map fst (ReportMetricConfigs rmc) = [''k8sPod'']"
        using m [of o2] by (elim exE conjE) (rule that)
      have e: "Endpoint (TransportConf o1) \<noteq> []" if "NewHttpClient o1 (TransportConf o1) = Inr c" for c
        using that by (auto simp: NewHttpClient_def)
      have ip: "isValidIP (Ip o1) \<or> GetPrivateIp (h_interfaces (b_host b)) = Inr (Ip o1)"
        using SetOthersByFlags_ip [of "b_host b" w op w1 o1] s r by (auto split: if_splits)
      have "InitTransprotUri o1 API_K8S_POD \<noteq> None" by (simp add: InitTransprotUri_def)
      moreover have "Pid o1 = Itoa (h_pid (b_host b))" using SetOthersByFlags_pid s r by blast
      ultimately show ?thesis using go d l s r g rmc mux e ip o2
        by (cases "NewHttpClient o1 (TransportConf o1)") (auto simp: agent_main_def Conn_Start_def Conn_Register_def NewConn_def API_REGISTRY_def API_HEARTBEAT_def API_METRIC_def)
    qed (use go d l s in \<open>simp add: agent_main_def\<close>)
  qed (simp_all add: agent_main_def GetCurrentDirectory_def no_paths_def)
qed

section \<open>The goroutines of the start\<close>

text \<open>The file of the keys is not the one of the process id.\<close>

lemma clean_elems_snoc: "plain_elem x \<Longrightarrow> clean_elems rooted out (es @ [x]) = clean_elems rooted out es @ [x]"
  by (induction es arbitrary: out) (auto simp: plain_elem_def split: list.splits)

lemma last_Join: "x \<noteq> [] \<Longrightarrow> Join sep (xs @ [x]) \<noteq> [] \<and> last (Join sep (xs @ [x])) = last x"
  by (induction xs) (auto simp: Join_Cons)

lemma path_Clean_last: "plain_elem x \<Longrightarrow> CHR ''/'' \<notin> set x \<Longrightarrow> last (path_Clean (d @ ''/'' @ x)) = last x"
proof -
  assume x: "plain_elem x" "CHR ''/'' \<notin> set x"
  have "Split (CHR ''/'') (d @ CHR ''/'' # x) = Split (CHR ''/'') d @ [x]" by (simp add: Split_at_sep Split_no_sep x(2))
  moreover have "x \<noteq> []" using x(1) by (simp add: plain_elem_def)
  ultimately show ?thesis using last_Join [of x "''/''"] by (simp add: path_Clean_def Let_def clean_elems_snoc [OF x(1)])
qed

lemma cert_not_pid: "path_Join [GetUserHome home, ''.chaos.cert''] \<noteq> pidFile"
proof -
  have e: "path_Clean ''.chaos.cert'' = ''.chaos.cert''" by code_simp
  have p: "plain_elem ''.chaos.cert''" by (simp add: plain_elem_def)
  have "last (path_Join [h, ''.chaos.cert'']) = CHR ''t''" for h
  proof (cases "h = []")
    case True
    then show ?thesis by (simp add: path_Join_def e)
  next
    case False
    then show ?thesis using path_Clean_last [OF p, of h] by (simp add: path_Join_def Let_def)
  qed
  then have "last (path_Join [GetUserHome home, ''.chaos.cert'']) \<noteq> last pidFile" by (simp add: pidFile_def)
  then show ?thesis by auto
qed

text \<open>The registration leaves the process id file and the refusals of the system alone, and panics with whatever files there are.\<close>

definition same_host :: "fs \<Rightarrow> fs \<Rightarrow> bool" where
  "same_host w w' \<longleftrightarrow> open_error w' = open_error w \<and> write_error w' = write_error w \<and> content w' pidFile = content w pidFile"

lemma write_lines_frame:
  "write_lines w f old written kvs = (w', err) \<Longrightarrow> f \<noteq> pidFile \<Longrightarrow> same_host w w'"
proof (induction w f old written kvs arbitrary: w' err rule: write_lines.induct)
  case (2 w f old written k v kvs)
  then show ?case by (fastforce simp: same_host_def Let_def split: option.splits)
qed (simp add: same_host_def)

lemma take_keys_frame:
  assumes "take_keys e v a = Some (a', err)"
  shows "opts a' = opts a \<and> same_host (files a) (files a')"
proof -
  have r: "same_host w w'" if q: "RecordMapToFile w d (path_Join [GetUserHome (e_home e), ''.chaos.cert'']) True = (w', x)" for w d w' x
  proof -
    let ?f = "path_Join [GetUserHome (e_home e), ''.chaos.cert'']"
    consider "w' = w" | old where "write_lines (w\<lparr>content := (content w)(?f \<mapsto> old)\<rparr>) ?f old [] d = (w', x)"
      using q by (cases "d = []"; cases "open_error w ?f") (auto simp: RecordMapToFile_def Let_def)
    then show ?thesis
    proof cases
      case (2 old)
      from write_lines_frame [OF 2 cert_not_pid] show ?thesis by (simp add: same_host_def cert_not_pid cert_not_pid [symmetric])
    qed (simp add: same_host_def)
  qed
  have "same_host (files a) (files a)" by (simp add: same_host_def)
  then show ?thesis using assms
    by (auto simp: take_keys_def bind_eq_Some_conv RecordSecretKeyToFile_def dest: r split: if_splits prod.splits option.splits)
qed

lemma take_uid_opts: "take_uid v a = Some a' \<Longrightarrow> \<exists>u. a' = a\<lparr>opts := (opts a)\<lparr>Uid := u\<rparr>\<rparr>"
proof -
  have same: "\<exists>u. a = a\<lparr>opts := (opts a)\<lparr>Uid := u\<rparr>\<rparr>" by (rule exI [of _ "Uid (opts a)"]) simp
  show "take_uid v a = Some a' \<Longrightarrow> ?thesis" using same by (auto simp: take_uid_def SetUid_def split: option.split_asm json.split_asm)
qed

lemma connect_Start_frame:
  assumes "connect_Start e a = Some (a', err)"
  shows "(\<exists>c u. opts a' = (opts a)\<lparr>Cid := c, Uid := u\<rparr>) \<and> same_host (files a) (files a')"
proof -
  have same: "\<exists>c u. opts a = (opts a)\<lparr>Cid := c, Uid := u\<rparr>" by (rule exI [of _ "Cid (opts a)"], rule exI [of _ "Uid (opts a)"]) simp
  have h: "?thesis" if d: "handleDirectHttpConnectResponse e a resp = Some (a', err)" for resp
  proof -
    consider "a' = a" | cid v a1 where "take_uid v (a\<lparr>opts := SetCid cid (opts a)\<rparr>) = Some a1" "take_keys e v a1 = Some (a', err)"
      using d by (auto simp: handleDirectHttpConnectResponse_def bind_eq_Some_conv split: if_split_asm option.split_asm)
    then show ?thesis
    proof cases
      case (2 cid v a1)
      obtain u where "a1 = a\<lparr>opts := (opts a)\<lparr>Cid := cid, Uid := u\<rparr>\<rparr>" using take_uid_opts [OF 2(1)] by (auto simp: SetCid_def)
      then have "opts a' = (opts a)\<lparr>Cid := cid, Uid := u\<rparr>" "same_host (files a) (files a')" using take_keys_frame [OF 2(2)] by simp_all
      then show ?thesis by blast
    qed (use same in \<open>simp add: same_host_def\<close>)
  qed
  obtain r response err' where "(case err' of Some m \<Rightarrow> Some (a, Some m)
      | None \<Rightarrow> (case response of None \<Rightarrow> None | Some resp \<Rightarrow> handleDirectHttpConnectResponse e a resp)) = Some (a', err)"
    using assms by (auto simp: connect_Start_def bind_eq_Some_conv)
  then have "a' = a \<or> (\<exists>resp. handleDirectHttpConnectResponse e a resp = Some (a', err))" by (cases err'; cases response) auto
  then show ?thesis using h same by (auto simp: same_host_def)
qed

lemma connect_Start_files: "connect_Start e (a\<lparr>files := w\<rparr>) = None \<longleftrightarrow> connect_Start e a = None"
proof -
  have k: "take_keys e v (a\<lparr>files := w\<rparr>) = None \<longleftrightarrow> take_keys e v a = None" for v a
    by (auto simp: take_keys_def bind_eq_None_conv split: prod.splits)
  have u: "take_uid v (a\<lparr>files := w\<rparr>) = map_option (\<lambda>a. a\<lparr>files := w\<rparr>) (take_uid v a)" for v a
    by (auto simp: take_uid_def split: option.splits json.splits)
  have h: "handleDirectHttpConnectResponse e (a\<lparr>files := w\<rparr>) resp = None \<longleftrightarrow> handleDirectHttpConnectResponse e a resp = None" for resp
  proof -
    have "take_uid v (a\<lparr>files := w, opts := x\<rparr>) = map_option (\<lambda>a. a\<lparr>files := w\<rparr>) (take_uid v (a\<lparr>opts := x\<rparr>))" for v x
      using u [of v "a\<lparr>opts := x\<rparr>"] by (cases a) simp
    moreover have "Option.bind (map_option (\<lambda>a. a\<lparr>files := w\<rparr>) x) (take_keys e v) = None \<longleftrightarrow> Option.bind x (take_keys e v) = None" for x v
      by (cases x) (simp_all add: k)
    ultimately show ?thesis
      by (cases "as_object (Some (Result resp))"; cases "as_string (obj_get (the (as_object (Some (Result resp)))) ''cid'')")
        (simp_all add: handleDirectHttpConnectResponse_def)
  qed
  have "connect_params e (a\<lparr>files := w\<rparr>) = connect_params e a" by (simp add: connect_params_def)
  then show ?thesis
    by (auto simp: connect_Start_def agent_Invoke_def uri_of_def bind_eq_None_conv h split: option.splits prod.splits)
qed

lemma agent_main_metrics: "agent_main b w = Up a w' \<Longrightarrow> \<exists>m. metric_Start (ra_metrics a) = Returns (Some m)"
proof -
  have m: "InitMetricConfig o' empty_metrics = Returns rmc \<Longrightarrow> \<exists>m. metric_Start rmc = Returns (Some m)" for o' rmc
    by (auto simp: InitMetricConfig_def MetricRegistry_def empty_metrics_def Lock_def Unlock_def metric_Start_def RLock_def second_def)
  show "agent_main b w = Up a w' \<Longrightarrow> ?thesis"
    by (auto simp: agent_main_def Let_def m split: option.split_asm sum.split_asm prod.split_asm outcome.split_asm)
qed

text \<open>What a start from \<open>s0\<close> keeps, and what each goroutine that is through has met.\<close>

definition pid_written :: "fs \<Rightarrow> int \<Rightarrow> bool" where
  "pid_written w pid \<longleftrightarrow> open_error w pidFile = None \<and> write_error w pidFile (Itoa pid) = None"

definition launch_ok :: "env \<Rightarrow> bool \<Rightarrow> int \<Rightarrow> launch \<Rightarrow> bool" where
  "launch_ok e free pid s \<longleftrightarrow> connect_Start e (la_agent s) \<noteq> None \<and> 0 < la_period s \<and> free \<and> pid_written (files (la_agent s)) pid"

definition launch_kept :: "env \<Rightarrow> bool \<Rightarrow> int \<Rightarrow> launch \<Rightarrow> launch \<Rightarrow> bool" where
  "launch_kept e free pid s0 s \<longleftrightarrow>
     la_period s = la_period s0 \<and> (\<not> la_reporting s \<longrightarrow> la_metrics s = la_metrics s0)
     \<and> (\<not> la_connected s \<longrightarrow> (\<forall>w. (la_agent s)\<lparr>files := w\<rparr> = (la_agent s0)\<lparr>files := w\<rparr>))
     \<and> (\<exists>c u. opts (la_agent s) = (opts (la_agent s0))\<lparr>Cid := c, Uid := u\<rparr>)
     \<and> open_error (files (la_agent s)) = open_error (files (la_agent s0))
     \<and> write_error (files (la_agent s)) = write_error (files (la_agent s0))
     \<and> (la_end s = Lives \<longrightarrow> content (files (la_agent s)) pidFile =
          (if la_holding s then Some (overwritten (content (files (la_agent s0)) pidFile) (Itoa pid)) else content (files (la_agent s0)) pidFile))"

definition launch_met :: "env \<Rightarrow> bool \<Rightarrow> int \<Rightarrow> launch \<Rightarrow> launch \<Rightarrow> bool" where
  "launch_met e free pid s0 s \<longleftrightarrow>
     (la_connected s \<longrightarrow> connect_Start e (la_agent s0) \<noteq> None) \<and> (la_beating s \<longrightarrow> 0 < la_period s0) \<and> (la_listening s \<longrightarrow> free)
     \<and> (la_holding s \<longrightarrow> pid_written (files (la_agent s0)) pid) \<and> (la_end s \<noteq> Lives \<longrightarrow> \<not> launch_ok e free pid s0)"

lemma writePid_result:
  assumes "writePid w pid = (w', err)"
  shows "open_error w' = open_error w \<and> write_error w' = write_error w \<and> (err = None \<longleftrightarrow> pid_written w pid)
    \<and> (err = None \<longrightarrow> content w' pidFile = Some (overwritten (content w pidFile) (Itoa pid)))"
proof (cases "open_error w pidFile")
  case None
  then show ?thesis using assms
    by (cases "write_error w pidFile (Itoa pid)") (auto simp: writePid_def pid_written_def overwritten_def Let_def)
next
  case (Some e)
  then have "w' = w" "err = Some e" using assms by (simp_all add: writePid_def)
  then show ?thesis using Some by (simp add: pid_written_def)
qed

lemma handlerErr_errors: "open_error (handlerErr w) = open_error w \<and> write_error (handlerErr w) = write_error w"
  using writePid_result [of w "- 1"] unfolding handlerErr_def by (metis prod.collapse)

lemma launch_kept_step:
  assumes "launch_step e free pid s s'" "launch_kept e free pid s0 s"
  shows "launch_kept e free pid s0 s'"
  using assms(1)
proof (cases rule: launch_step.cases)
  case (Connect a err)
  from connect_Start_frame [OF Connect(4)] obtain c u where f: "opts a = (opts (la_agent s))\<lparr>Cid := c, Uid := u\<rparr>" "same_host (files (la_agent s)) (files a)" by blast
  moreover obtain c0 u0 where "opts (la_agent s) = (opts (la_agent s0))\<lparr>Cid := c0, Uid := u0\<rparr>" using assms(2) by (auto simp: launch_kept_def)
  ultimately have "opts a = (opts (la_agent s0))\<lparr>Cid := c, Uid := u\<rparr>" by simp
  then have "\<exists>c u. opts a = (opts (la_agent s0))\<lparr>Cid := c, Uid := u\<rparr>" by blast
  then show ?thesis using assms(2) Connect f(2) by (simp add: launch_kept_def same_host_def)
next
  case Connect_panic
  then show ?thesis using assms(2) by (simp add: launch_kept_def)
next
  case Heartbeat
  then show ?thesis using assms(2) by (simp add: launch_kept_def split: option.splits)
next
  case (Metric r)
  then show ?thesis using assms(2) by (simp add: launch_kept_def split: option.splits)
next
  case Listen
  then show ?thesis using assms(2) handlerErr_errors [of "files (la_agent s)"] by (simp add: launch_kept_def)
next
  case (Success w err)
  then show ?thesis using assms(2) writePid_result [OF Success(4)] by (simp add: launch_kept_def)
qed

lemma launch_kept_connect:
  "launch_kept e free pid s0 s \<Longrightarrow> \<not> la_connected s \<Longrightarrow> connect_Start e (la_agent s) = None \<longleftrightarrow> connect_Start e (la_agent s0) = None"
  unfolding launch_kept_def by (metis connect_Start_files)

lemma launch_met_step:
  assumes "launch_step e free pid s s'" "launch_kept e free pid s0 s" "launch_met e free pid s0 s"
    and m: "metric_Start (la_metrics s0) = Returns (Some m)"
  shows "launch_met e free pid s0 s'"
  using assms(1)
proof (cases rule: launch_step.cases)
  case (Connect a err)
  then have "connect_Start e (la_agent s0) \<noteq> None" using launch_kept_connect [OF assms(2) Connect(3)] by simp
  then show ?thesis using assms(3) Connect by (simp add: launch_met_def)
next
  case Connect_panic
  then have "connect_Start e (la_agent s0) = None" using launch_kept_connect [OF assms(2) Connect_panic(3)] by simp
  then show ?thesis using assms(3) Connect_panic by (simp add: launch_met_def launch_ok_def)
next
  case Heartbeat
  then show ?thesis using assms(2,3) by (auto simp: launch_met_def launch_kept_def launch_ok_def heartbeat_Start_def)
next
  case (Metric r)
  then have "r = Some m" using assms(2) m by (simp add: launch_kept_def)
  then show ?thesis using assms(3) Metric by (simp add: launch_met_def)
next
  case Listen
  then show ?thesis using assms(3) by (simp add: launch_met_def launch_ok_def)
next
  case (Success w err)
  have "pid_written (files (la_agent s)) pid = pid_written (files (la_agent s0)) pid"
    using assms(2) by (simp add: launch_kept_def pid_written_def)
  then show ?thesis using assms(3) Success writePid_result [OF Success(4)] by (auto simp: launch_met_def launch_ok_def)
qed

text \<open>A start is over after five steps at most, and then every goroutine is through or the process has ended.\<close>

definition to_do :: "launch \<Rightarrow> nat" where
  "to_do s = (if la_end s = Lives then length (filter Not [la_connected s, la_beating s, la_reporting s, la_listening s, la_holding s]) else 0)"

lemma launch_step_to_do: "launch_step e free pid s s' \<Longrightarrow> to_do s' < to_do s"
  by (erule launch_step.cases) (auto simp: to_do_def heartbeat_Start_def split: option.splits)

lemma launch_run_to_do: "(launch_step e free pid ^^ n) s s' \<Longrightarrow> n + to_do s' \<le> to_do s"
proof (induction n arbitrary: s')
  case (Suc n)
  then obtain t where "(launch_step e free pid ^^ n) s t" "launch_step e free pid t s'" by auto
  then show ?case using Suc.IH launch_step_to_do by fastforce
qed simp

definition over :: "env \<Rightarrow> bool \<Rightarrow> int \<Rightarrow> launch \<Rightarrow> bool" where
  "over e free pid s \<longleftrightarrow> (\<nexists>s'. launch_step e free pid s s')"

lemma launch_gets_over: "\<exists>n s'. (launch_step e free pid ^^ n) s s' \<and> over e free pid s'"
proof (induction "to_do s" arbitrary: s rule: less_induct)
  case less
  show ?case
  proof (cases "over e free pid s")
    case True
    then show ?thesis by (intro exI [of _ 0] exI [of _ s]) simp
  next
    case False
    then obtain t where t: "launch_step e free pid s t" by (auto simp: over_def)
    from less [OF launch_step_to_do [OF t]] obtain n s' where "(launch_step e free pid ^^ n) t s'" "over e free pid s'" by blast
    then show ?thesis using relpowp_Suc_I2 [of "launch_step e free pid", OF t] by blast
  qed
qed

lemma over_done:
  assumes "over e free pid s" "la_end s = Lives" "\<not> la_reporting s \<longrightarrow> metric_Start (la_metrics s) \<noteq> Blocks"
  shows "serving s"
proof -
  have no: "\<not> launch_step e free pid s s'" for s' using assms(1) by (simp add: over_def)
  have "la_connected s"
  proof (rule ccontr)
    assume nc: "\<not> la_connected s"
    show False
    proof (cases "connect_Start e (la_agent s)")
      case None
      from launch_step.Connect_panic [OF assms(2) nc None] no show False by blast
    next
      case (Some r)
      then obtain a err where "connect_Start e (la_agent s) = Some (a, err)" by (cases r) simp
      from launch_step.Connect [OF assms(2) nc this] no show False by blast
    qed
  qed
  moreover have "la_beating s" "la_listening s" using launch_step.Heartbeat [OF assms(2)] launch_step.Listen [OF assms(2)] no by blast+
  moreover have "la_reporting s"
  proof (rule ccontr)
    assume nr: "\<not> la_reporting s"
    then obtain r where "metric_Start (la_metrics s) = Returns r" using assms(3) by (cases "metric_Start (la_metrics s)") auto
    from launch_step.Metric [OF assms(2) nr this] no show False by blast
  qed
  moreover have "la_holding s" using launch_step.Success [OF assms(2)] no by (metis prod.collapse)
  ultimately show ?thesis using assms(2) by (simp add: serving_def)
qed

lemma launch_outcome:
  assumes "(launch_step e free pid ^^ n) s0 s" "over e free pid s" "metric_Start (la_metrics s0) = Returns (Some m)"
    and "s0 = launched a w"
  shows "if launch_ok e free pid s0
    then serving s \<and> content (files (la_agent s)) pidFile = Some (overwritten (content w pidFile) (Itoa pid))
      \<and> (\<exists>c u. opts (la_agent s) = (ra_opts a)\<lparr>Cid := c, Uid := u\<rparr>)
    else la_end s \<noteq> Lives"
proof -
  have o0: "\<exists>c u. ra_opts a = (ra_opts a)\<lparr>Cid := c, Uid := u\<rparr>" by (rule exI [of _ "Cid (ra_opts a)"], rule exI [of _ "Uid (ra_opts a)"]) simp
  have base: "launch_kept e free pid s0 s0 \<and> launch_met e free pid s0 s0"
    unfolding assms(4) using o0 by (simp add: launch_kept_def launch_met_def launched_def)
  have "launch_kept e free pid s0 s \<and> launch_met e free pid s0 s" using assms(1)
  proof (induction n arbitrary: s)
    case 0
    then show ?case using base by simp
  next
    case (Suc n)
    then show ?case using launch_kept_step launch_met_step assms(3) by fastforce
  qed
  then have k: "launch_kept e free pid s0 s" "launch_met e free pid s0 s" by simp_all
  have through: "serving s" if "la_end s = Lives"
    using k(1) assms(3) by (intro over_done [OF assms(2) that]) (auto simp: launch_kept_def)
  show ?thesis
  proof (cases "launch_ok e free pid s0")
    case True
    then have l: "la_end s = Lives" using k(2) by (auto simp: launch_met_def)
    then show ?thesis using True through [OF l] k(1) assms(4) by (auto simp: launch_kept_def serving_def launched_def)
  next
    case False
    have "la_end s \<noteq> Lives"
    proof
      assume "la_end s = Lives"
      from through [OF this] k(2) False show False by (auto simp: serving_def launch_met_def launch_ok_def)
    qed
    with False show ?thesis by simp
  qed
qed

text \<open>
  the race of a start whose port is taken: where \<open>main\<close> has written its process id before the listener fails, the file is
  left with \<open>-1\<close> followed by the rest of that id, which names another process or none; otherwise it holds
  the \<open>-1\<close> that marks a failed start (on a file system that refuses nothing and has no older file).
\<close>

lemma failed_listener_garbles_pid:
  assumes "fs_accepts w" "content w pidFile = None" "0 \<le> pid"
  shows "\<exists>s s'. (launch_step e False pid)\<^sup>*\<^sup>* (launched a w) s \<and> la_end s = Exited \<and> content (files (la_agent s)) pidFile = Some (''-1'' @ drop 2 (Itoa pid))
    \<and> launch_step e False pid (launched a w) s' \<and> la_end s' = Exited \<and> content (files (la_agent s')) pidFile = Some ''-1''"
proof -
  let ?s = "launched a w"
  have i: "Itoa (- 1) = ''-1''" by code_simp
  obtain w1 where w1: "writePid (files (la_agent ?s)) pid = (w1, None)" "content w1 pidFile = Some (Itoa pid)" "fs_accepts w1"
    using assms by (simp add: launched_def writePid_def fs_accepts_def)
  have h: "content (handlerErr w1) pidFile = Some (''-1'' @ drop 2 (Itoa pid))" "content (handlerErr w) pidFile = Some ''-1''"
    using assms w1(2,3) by (simp_all add: handlerErr_def writePid_def i fs_accepts_def numeral_2_eq_2)
  have 1: "launch_step e False pid ?s ((set_files w1 ?s)\<lparr>la_holding := True\<rparr>)" (is "launch_step _ _ _ _ ?s1")
    using launch_step.Success [OF _ _ w1(1), of e False] by (simp add: launched_def)
  have 2: "launch_step e False pid ?s1 ((set_files (handlerErr w1) ?s1)\<lparr>la_end := Exited\<rparr>)" (is "launch_step _ _ _ _ ?s2")
    using launch_step.Listen [of ?s1 e False pid] by (simp add: launched_def)
  have 3: "launch_step e False pid ?s ((set_files (handlerErr w) ?s)\<lparr>la_end := Exited\<rparr>)" (is "launch_step _ _ _ _ ?s3")
    using launch_step.Listen [of ?s e False pid] by (simp add: launched_def)
  have "(launch_step e False pid)\<^sup>*\<^sup>* ?s ?s2" using 1 2 by (meson converse_rtranclp_into_rtranclp r_into_rtranclp)
  then show ?thesis using 3 h by (intro exI [of _ ?s2] exI [of _ ?s3]) simp
qed


text \<open>A start that succeeds, outside a cluster.\<close>

definition sample_boot :: "'s api_handlers \<Rightarrow> (nat, unit, 's) boot" where
  "sample_boot hs = \<lparr>b_absdir = Inr ''/opt'', b_parseLevel = (\<lambda>l. None), b_infoLevel = 4,
     b_parse = (\<lambda>o1. Inr (o1\<lparr>TransportConf := (TransportConf o1)\<lparr>Endpoint := ''server:80''\<rparr>\<rparr>)),
     b_host = sample_host, b_config = Inl ''not in a cluster'', b_client = Inl [], b_handlers = hs\<rparr>"

lemma sample_boot_up: "\<exists>a w. agent_main (sample_boot hs) sample_fs = Up a w"
proof -
  let ?o0 = "(AddFlags zero_Options)\<lparr>TransportConf := (TransportConf (AddFlags zero_Options))\<lparr>Endpoint := ''server:80''\<rparr>\<rparr>"
  have n: "NewOptions (b_parse (sample_boot hs)) = Inr ?o0"
    by (simp add: NewOptions_def sample_boot_def AddFlags_def zero_Options_def)
  obtain o2 where o2: "SetOthersByFlags sample_host sample_fs ?o0 = (sample_fs, Inr o2)" "Endpoint (TransportConf o2) = ''server:80''"
    using sample_SetOthersByFlags [of "(TransportConf (AddFlags zero_Options))\<lparr>Endpoint := ''server:80''\<rparr>"] by auto
  obtain c where "NewHttpClient o2 (TransportConf o2) = Inr c" using o2(2) by (simp add: NewHttpClient_def Let_def)
  then show ?thesis
    using agent_main_ready [of "sample_boot hs" sample_fs] n o2(1)
    by (cases "agent_main (sample_boot hs) sample_fs") (auto simp: sample_boot_def)
qed

lemma agent_main_options:
  assumes "agent_main b w = Up a w'"
  shows "\<exists>op o1. NewOptions (b_parse b) = Inr op \<and> SetOthersByFlags (b_host b) w op = (w', Inr o1) \<and> HeartbeatPeriod (ra_opts a) = HeartbeatPeriod op"
proof -
  have s: "SetOthersByFlags h w op = (w', Inr o1) \<Longrightarrow> HeartbeatPeriod o1 = HeartbeatPeriod op" for h w' op o1
    by (auto simp: SetOthersByFlags_def InitApplicationInfo_def Let_def split: sum.splits if_splits)
  have g: "HeartbeatPeriod (snd (GetInstance cfg cl ch op)) = HeartbeatPeriod op" for cfg and cl :: "string + 'x" and ch op
    using GetInstance_opts [of cfg cl ch op] by auto
  have g': "GetInstance cfg cl ch op = (c, o2) \<Longrightarrow> HeartbeatPeriod o2 = HeartbeatPeriod op" for cfg and cl :: "string + 'x" and ch op c o2
    using g [of cfg cl ch op] by simp
  show ?thesis using assms
    by (auto simp: agent_main_def Let_def split: option.split_asm sum.split_asm prod.split_asm outcome.split_asm) (metis s g')
qed


end
