(* ===== verification/Agent_Setup.thy ===== *)
theory Agent_Setup
  imports Agent_Start
begin

text \<open>
  How the parts behind the API are put together: the chart cache and the registry client with their
  options (\<open>pkg/helm3/registry\<close>), the Helm instance (\<open>pkg/helm3/helm.go\<close>), the constructor of the Litmus
  handler, and the single instance of the monitor (\<open>monitor/monitor.go\<close>) as several goroutines may ask for
  it. The clients of the libraries are arguments.
\<close>

section \<open>Cache and client\<close>

text \<open>A writer is the one that discards, or one the caller gave.\<close>

datatype 'o writer = Discard | Writer 'o

record 'o Cache =
  k_debug :: bool
  k_out :: "'o writer"
  k_rootDir :: string

type_synonym 'o CacheOption = "'o Cache \<Rightarrow> 'o Cache"

definition CacheOptDebug :: "bool \<Rightarrow> 'o CacheOption" where
  "CacheOptDebug debug cache = cache\<lparr>k_debug := debug\<rparr>"

definition CacheOptWriter :: "'o writer \<Rightarrow> 'o CacheOption" where
  "CacheOptWriter out cache = cache\<lparr>k_out := out\<rparr>"

definition CacheOptRoot :: "string \<Rightarrow> 'o CacheOption" where
  "CacheOptRoot rootDir cache = cache\<lparr>k_rootDir := rootDir\<rparr>"

definition NewCache :: "'o CacheOption list \<Rightarrow> string + 'o Cache" where
  "NewCache os =
     (let cache = foldl (\<lambda>c f. f c) \<lparr>k_debug = False, k_out = Discard, k_rootDir = []\<rparr> os in
      if k_rootDir cache = [] then Inl ''must set cache root dir on initialization'' else Inr cache)"

record ('o, 'a, 'r) registry_client =
  g_debug :: bool
  g_credentialsFile :: string
  g_out :: "'o writer"
  g_authorizer :: "'a option"
  g_resolver :: "'r option"
  g_cache :: "'o Cache option"

type_synonym ('o, 'a, 'r) ClientOption = "('o, 'a, 'r) registry_client \<Rightarrow> ('o, 'a, 'r) registry_client"

definition ClientOptDebug :: "bool \<Rightarrow> ('o, 'a, 'r) ClientOption" where
  "ClientOptDebug debug client = client\<lparr>g_debug := debug\<rparr>"

definition ClientOptWriter :: "'o writer \<Rightarrow> ('o, 'a, 'r) ClientOption" where
  "ClientOptWriter out client = client\<lparr>g_out := out\<rparr>"

definition ClientOptResolver :: "'r option \<Rightarrow> ('o, 'a, 'r) ClientOption" where
  "ClientOptResolver resolver client = client\<lparr>g_resolver := resolver\<rparr>"

definition ClientOptAuthorizer :: "'a option \<Rightarrow> ('o, 'a, 'r) ClientOption" where
  "ClientOptAuthorizer authorizer client = client\<lparr>g_authorizer := authorizer\<rparr>"

definition ClientOptCache :: "'o Cache option \<Rightarrow> ('o, 'a, 'r) ClientOption" where
  "ClientOptCache cache client = client\<lparr>g_cache := cache\<rparr>"

definition ClientOptCredentialsFile :: "string \<Rightarrow> ('o, 'a, 'r) ClientOption" where
  "ClientOptCredentialsFile credentialsFile client = client\<lparr>g_credentialsFile := credentialsFile\<rparr>"

definition CredentialsFileBasename :: string where "CredentialsFileBasename = ''config.json''"
definition CacheRootDir :: string where "CacheRootDir = ''cache''"

text \<open>
  \<open>cachePath\<close> is \<open>helmpath.CachePath\<close>, \<open>newAuth\<close> the client of the credentials file, \<open>mkResolver\<close> its method \<open>Resolver\<close>.
\<close>

definition NewClient ::
  "(string list \<Rightarrow> string) \<Rightarrow> (string \<Rightarrow> string + 'a) \<Rightarrow> ('a \<Rightarrow> string + 'r) \<Rightarrow> ('o, 'a, 'r) ClientOption list
    \<Rightarrow> string + ('o, 'a, 'r) registry_client" where
  "NewClient cachePath newAuth mkResolver os =
     (let c = foldl (\<lambda>c f. f c)
                \<lparr>g_debug = False, g_credentialsFile = [], g_out = Discard, g_authorizer = None, g_resolver = None, g_cache = None\<rparr> os;
          c = (if g_credentialsFile c = [] then c\<lparr>g_credentialsFile := cachePath [''registry'', CredentialsFileBasename]\<rparr> else c)
      in
      case (case g_authorizer c of Some a \<Rightarrow> Inr a | None \<Rightarrow> newAuth (g_credentialsFile c)) of
        Inl err \<Rightarrow> Inl err
      | Inr a \<Rightarrow>
          (case (case g_resolver c of Some r \<Rightarrow> Inr r | None \<Rightarrow> mkResolver a) of
             Inl err \<Rightarrow> Inl err
           | Inr r \<Rightarrow>
               (case (case g_cache c of
                        Some k \<Rightarrow> Inr k
                      | None \<Rightarrow> NewCache [CacheOptDebug (g_debug c), CacheOptWriter (g_out c), CacheOptRoot (cachePath [''registry'', CacheRootDir])]) of
                  Inl err \<Rightarrow> Inl err
                | Inr k \<Rightarrow> Inr (c\<lparr>g_authorizer := Some a, g_resolver := Some r, g_cache := Some k\<rparr>))))"

section \<open>Helm and the Litmus handler\<close>

record ('cfg, 'o, 'a, 'r) helm_instance =
  i_helmName :: string
  i_helmNamespace :: string
  i_actionConfig :: 'cfg
  i_RegistryClient :: "('o, 'a, 'r) registry_client"

text \<open>The settings of the Helm environment that are read.\<close>

record cli_settings =
  set_Debug :: bool
  set_RegistryConfig :: string

definition GetHelmInstance ::
  "(string list \<Rightarrow> string) \<Rightarrow> (string \<Rightarrow> string + 'a) \<Rightarrow> ('a \<Rightarrow> string + 'r) \<Rightarrow> cli_settings \<Rightarrow> (string \<Rightarrow> string + 'cfg)
    \<Rightarrow> string \<Rightarrow> string \<Rightarrow> 'o writer \<Rightarrow> ('cfg, 'o, 'a, 'r) helm_instance option" where
  "GetHelmInstance cachePath newAuth mkResolver setting actionInit nm ns out =
     (case actionInit ns of
        Inl err \<Rightarrow> None
      | Inr cfg \<Rightarrow>
          (case NewClient cachePath newAuth mkResolver
                  [ClientOptDebug (set_Debug setting), ClientOptWriter out, ClientOptCredentialsFile (set_RegistryConfig setting)] of
             Inl err \<Rightarrow> None
           | Inr client \<Rightarrow>
               Some \<lparr>i_helmName = nm, i_helmNamespace = ns, i_actionConfig = cfg, i_RegistryClient = client\<rparr>))"

text \<open>
  The constructors of the handlers: a nil pointer where something is missing. \<open>NewLitmusChaosHandler\<close> asks
  for the configuration of the cluster itself.
\<close>

record ('c, 'l) LitmusChaosHandler =
  lh_k8sChannel :: "'c Channel"
  lh_LitmusClientSet :: 'l

definition NewLitmusChaosHandler ::
  "string + string \<Rightarrow> (string \<Rightarrow> string + 'l) \<Rightarrow> 'c Channel option \<Rightarrow> ('c, 'l) LitmusChaosHandler option" where
  "NewLitmusChaosHandler clusterConfig newLitmus k8sInstance =
     (case clusterConfig of
        Inl err \<Rightarrow> None
      | Inr host \<Rightarrow>
          (case newLitmus host of
             Inl err \<Rightarrow> None
           | Inr litmusClientSet \<Rightarrow>
               (case k8sInstance of
                  None \<Rightarrow> None
                | Some ch \<Rightarrow> Some \<lparr>lh_k8sChannel = ch, lh_LitmusClientSet = litmusClientSet\<rparr>)))"

definition NewInstallLitmusHandler :: "'h option \<Rightarrow> 'h option" where
  "NewInstallLitmusHandler helm = (case helm of None \<Rightarrow> None | Some h \<Rightarrow> Some h)"

definition NewUninstallLitmusHandler :: "'h option \<Rightarrow> 'h option" where
  "NewUninstallLitmusHandler helm = (case helm of None \<Rightarrow> None | Some h \<Rightarrow> Some h)"

section \<open>The instance of the monitor\<close>

text \<open>
  \<open>GetMonitorInstance\<close> called by several goroutines, each at its place in the code: before the first look,
  at the lock, behind the lock before the second look, or done with the instance it returns. An instance
  is known by a number (\<open>inst\<close> is the variable \<open>instance\<close>); \<open>made\<close> counts the ones that were created, \<open>lock\<close> is the holder of \<open>cLock\<close>.
\<close>

datatype caller = First_look | At_lock | Second_look | Got nat

record singleton =
  inst :: "nat option"
  made :: nat
  lock :: "nat option"
  callers :: "caller list"

definition at_place :: "nat \<Rightarrow> caller \<Rightarrow> singleton \<Rightarrow> bool" where
  "at_place i c s \<longleftrightarrow> i < length (callers s) \<and> callers s ! i = c"

definition move :: "nat \<Rightarrow> caller \<Rightarrow> singleton \<Rightarrow> singleton" where
  "move i c s = s\<lparr>callers := (callers s)[i := c]\<rparr>"

inductive GetMonitorInstance :: "singleton \<Rightarrow> singleton \<Rightarrow> bool" where
  Look: "at_place i First_look s \<Longrightarrow>
    GetMonitorInstance s (move i (case inst s of Some m \<Rightarrow> Got m | None \<Rightarrow> At_lock) s)"
| Acquire: "at_place i At_lock s \<Longrightarrow> lock s = None \<Longrightarrow> GetMonitorInstance s (move i Second_look (s\<lparr>lock := Some i\<rparr>))"
| Return: "at_place i Second_look s \<Longrightarrow> inst s = Some m \<Longrightarrow> GetMonitorInstance s (move i (Got m) (s\<lparr>lock := None\<rparr>))"
| Make: "at_place i Second_look s \<Longrightarrow> inst s = None \<Longrightarrow>
    GetMonitorInstance s (move i (Got (made s)) (s\<lparr>inst := Some (made s), made := Suc (made s), lock := None\<rparr>))"

definition new_callers :: "nat \<Rightarrow> singleton" where
  "new_callers n = \<lparr>inst = None, made = 0, lock = None, callers = replicate n First_look\<rparr>"

section \<open>Correctness\<close>

text \<open>
  a registry client that is returned is complete: authorizer, resolver and cache are there, each the one
  an option gave or the default, the default cache writes and logs as the client does, and its root lies
  below the registry directory of Helm; it is refused only by the library or for an empty cache path.
\<close>

theorem NewClient_complete:
  "(case NewClient cachePath newAuth mkResolver [ClientOptDebug d, ClientOptWriter out, ClientOptCredentialsFile f] of
      Inl err \<Rightarrow> (\<exists>file. newAuth file = Inl err) \<or> (\<exists>a. mkResolver a = Inl err) \<or> cachePath [''registry'', ''cache''] = []
    | Inr c \<Rightarrow>
        (\<exists>a r. newAuth (g_credentialsFile c) = Inr a \<and> g_authorizer c = Some a \<and> mkResolver a = Inr r \<and> g_resolver c = Some r)
        \<and> g_credentialsFile c = (if f = [] then cachePath [''registry'', ''config.json''] else f)
        \<and> g_debug c = d \<and> g_out c = out
        \<and> g_cache c = Some \<lparr>k_debug = d, k_out = out, k_rootDir = cachePath [''registry'', ''cache'']\<rparr>
        \<and> cachePath [''registry'', ''cache''] \<noteq> [])"
  by (auto simp: NewClient_def NewCache_def ClientOptDebug_def ClientOptWriter_def ClientOptCredentialsFile_def CacheOptDebug_def
      CacheOptWriter_def CacheOptRoot_def CredentialsFileBasename_def CacheRootDir_def Let_def split: sum.splits if_splits)

text \<open>An option counts until a later one of its kind: the last root directory is the one that is checked.\<close>

lemma NewCache_last_root:
  "NewCache (os @ [CacheOptRoot d]) = (if d = [] then Inl ''must set cache root dir on initialization''
     else Inr ((foldl (\<lambda>c f. f c) \<lparr>k_debug = False, k_out = Discard, k_rootDir = []\<rparr> os)\<lparr>k_rootDir := d\<rparr>))"
  by (simp add: NewCache_def CacheOptRoot_def)

definition singleton_inv :: "singleton \<Rightarrow> bool" where
  "singleton_inv s \<longleftrightarrow>
     (case inst s of
        None \<Rightarrow> made s = 0 \<and> (\<forall>c \<in> set (callers s). \<forall>m. c \<noteq> Got m)
      | Some m \<Rightarrow> m = 0 \<and> made s = 1 \<and> (\<forall>c \<in> set (callers s). \<forall>m. c = Got m \<longrightarrow> m = 0))
     \<and> (\<forall>i < length (callers s). callers s ! i = Second_look \<longleftrightarrow> lock s = Some i)
     \<and> (\<forall>i. lock s = Some i \<longrightarrow> i < length (callers s))"

lemma move_simps [simp]:
  "inst (move i c s) = inst s" "made (move i c s) = made s" "lock (move i c s) = lock s"
  "callers (move i c s) = (callers s)[i := c]"
  by (simp_all add: move_def)

lemma set_move: "x \<in> set (xs[i := c]) \<Longrightarrow> x = c \<or> x \<in> set xs"
  using set_update_subset_insert by fastforce

lemma singleton_inv_step: "GetMonitorInstance s s' \<Longrightarrow> singleton_inv s \<Longrightarrow> singleton_inv s'"
proof (induction rule: GetMonitorInstance.induct)
  case (Look i s)
  then show ?case
    by (auto simp: singleton_inv_def at_place_def nth_list_update split: option.splits dest!: set_move)
next
  case (Acquire i s)
  then show ?case
    by (auto simp: singleton_inv_def at_place_def nth_list_update split: option.splits dest!: set_move)
next
  case (Return i s m)
  then show ?case
    by (auto simp: singleton_inv_def at_place_def nth_list_update split: option.splits dest!: set_move)
next
  case (Make i s)
  then show ?case
    by (auto simp: singleton_inv_def at_place_def nth_list_update split: option.splits dest!: set_move)
qed

lemma singleton_inv_reachable: "GetMonitorInstance\<^sup>*\<^sup>* (new_callers n) s \<Longrightarrow> singleton_inv s"
proof (induction rule: rtranclp_induct)
  case base
  show ?case by (auto simp: singleton_inv_def new_callers_def)
qed (rule singleton_inv_step)

lemma Second_look_step: "at_place i Second_look s \<Longrightarrow> \<exists>s'. GetMonitorInstance s s'"
  by (cases "inst s") (blast intro: Return Make)+

text \<open>
  C19: there is one monitor: whatever the order in which goroutines look, lock and create, at most one instance
  is made and all of them get it; and none waits for ever: as long as one has not returned, a step is possible.
\<close>

theorem one_monitor_instance:
  assumes "GetMonitorInstance\<^sup>*\<^sup>* (new_callers n) s"
  shows "made s \<le> 1 \<and> (\<forall>m. Got m \<in> set (callers s) \<longrightarrow> inst s = Some m)
    \<and> (list_all (\<lambda>c. \<exists>m. c = Got m) (callers s) \<or> (\<exists>s'. GetMonitorInstance s s'))"
proof -
  have inv: "singleton_inv s" using assms by (rule singleton_inv_reachable)
  have "\<exists>s'. GetMonitorInstance s s'" if "i < length (callers s)" "\<nexists>m. callers s ! i = Got m" for i
  proof (cases "callers s ! i")
    case First_look
    then show ?thesis using that Look [of i s] by (auto simp: at_place_def)
  next
    case At_lock
    show ?thesis
    proof (cases "lock s")
      case None
      then show ?thesis using that At_lock Acquire [of i s] by (auto simp: at_place_def)
    next
      case (Some j)
      then have "at_place j Second_look s" using inv by (auto simp: singleton_inv_def at_place_def)
      then show ?thesis by (rule Second_look_step)
    qed
  next
    case Second_look
    then have "at_place i Second_look s" using that by (simp add: at_place_def)
    then show ?thesis by (rule Second_look_step)
  qed (use that in auto)
  then have "list_all (\<lambda>c. \<exists>m. c = Got m) (callers s) \<or> (\<exists>s'. GetMonitorInstance s s')"
    by (auto simp: list_all_length)
  with inv show ?thesis by (auto simp: singleton_inv_def split: option.splits)
qed

theorem one_monitor_instance_witness:
  "\<exists>s. GetMonitorInstance\<^sup>*\<^sup>* (new_callers 1) s \<and> made s \<le> 1 \<and> callers s = [Got 0]"
proof -
  let ?s1 = "(new_callers 1)\<lparr>callers := [At_lock]\<rparr>" and ?s2 = "(new_callers 1)\<lparr>lock := Some 0, callers := [Second_look]\<rparr>"
    and ?s3 = "(new_callers 1)\<lparr>inst := Some 0, made := 1, callers := [Got 0]\<rparr>"
  have "GetMonitorInstance (new_callers 1) ?s1"
    using Look [of 0 "new_callers 1"] by (simp add: at_place_def new_callers_def move_def)
  moreover have "GetMonitorInstance ?s1 ?s2" using Acquire [of 0 ?s1] by (simp add: at_place_def new_callers_def move_def)
  moreover have "GetMonitorInstance ?s2 ?s3" using Make [of 0 ?s2] by (simp add: at_place_def new_callers_def move_def)
  ultimately have r: "GetMonitorInstance\<^sup>*\<^sup>* (new_callers 1) ?s3" by (meson converse_rtranclp_into_rtranclp rtranclp.rtrancl_refl)
  then have "made ?s3 \<le> 1" using one_monitor_instance [OF r] by blast
  with r show ?thesis by (intro exI [of _ ?s3]) simp
qed

end
