(* ===== verification/Agent_System.thy ===== *)
theory Agent_System
  imports Agent_Setup
begin

text \<open>
  The running agent as one system (\<open>cmd/chaos_agent.go\<close>, \<open>web/api/api.go\<close>): the process state, the table of experiments, the goroutines, the chart
  cache and the cluster, changed by requests to the HTTP server, heartbeats, registration, status
  goroutines, watches of engines and pod reports in any order. The options and the files are the same
  for all parts. A request is taken as one step (\<open>Agent_Threads\<close> shows for the table of experiments that
  requests that overlap take effect one after the other, as long as no Java agent is installed). A handler that panics closes its connection; what it has
  done to files, charts and cluster by then is not followed and may be anything.
\<close>

section \<open>State and handlers\<close>

record ('st, 'k) system =
  sy_agent :: agent
  sy_running :: running
  sy_jobs :: "job list"
  sy_client :: "'st Client"
  sy_cluster :: 'k
  sy_watched :: "(string \<times> string \<times> string) list"
  sy_pods :: PodCollector

text \<open>What a request finds outside the process.\<close>

record ('st, 'w, 'k, 'v, 'x) surroundings =
  su_goos :: string
  su_shell :: shell
  su_ticks :: "tick list"
  su_dir :: "string option"
  su_order :: map_order
  su_appFile :: string
  su_helm :: "('st, 'w, 'k, 'v) Helm option"
  su_yaml :: "'x yaml"
  su_k8s :: "('k, 'x) k8s option"
  su_hub :: hub_answers
  su_name :: string

definition sys_world :: "('st, 'w, 'k, 'v, 'x) surroundings \<Rightarrow> ('st, 'k) system \<Rightarrow> world" where
  "sys_world su s = \<lparr>goos = su_goos su, sh = su_shell su, wfs = files (sy_agent s)\<rparr>"

definition sys_chaosblade :: "('st, 'w, 'k, 'v, 'x) surroundings \<Rightarrow> ('st, 'k) system ApiHandler" where
  "sys_chaosblade su s req =
     run_bind (chaosblade_Handle (sys_world su s) (su_ticks su) req (sy_running s))
       (\<lambda>(rn, resp, jobs). Ret (s\<lparr>sy_running := rn, sy_jobs := sy_jobs s @ jobs\<rparr>, resp))"

definition sys_ping :: "('st, 'k) system ApiHandler" where
  "sys_ping s req = ping_Handle s req"

definition sys_uninstall :: "('st, 'w, 'k, 'v, 'x) surroundings \<Rightarrow> ('st, 'k) system ApiHandler" where
  "sys_uninstall su s req = uninstall_Handle (sys_world su s) (su_dir su) s req"

definition sys_update :: "('st, 'w, 'k, 'v, 'x) surroundings \<Rightarrow> ('st, 'k) system ApiHandler" where
  "sys_update su s req =
     run_bind (update_Handle (su_order su) (su_appFile su) (sy_agent s) req) (\<lambda>(a, resp). Ret (s\<lparr>sy_agent := a\<rparr>, resp))"

text \<open>The Litmus handlers work on the part of the state they know.\<close>

definition litmus_part :: "('st, 'k) system \<Rightarrow> ('st, 'k) litmus_state" where
  "litmus_part s = \<lparr>lt_opts = opts (sy_agent s), lt_files = files (sy_agent s), lt_client = sy_client s,
     lt_cluster = sy_cluster s, lt_jobs = sy_watched s\<rparr>"

definition with_litmus :: "('st, 'k) litmus_state \<Rightarrow> ('st, 'k) system \<Rightarrow> ('st, 'k) system" where
  "with_litmus l s = s\<lparr>sy_agent := (sy_agent s)\<lparr>opts := lt_opts l, files := lt_files l\<rparr>,
     sy_client := lt_client l, sy_cluster := lt_cluster l, sy_watched := lt_jobs l\<rparr>"

definition on_litmus :: "('st, 'k) litmus_state ApiHandler \<Rightarrow> ('st, 'k) system ApiHandler" where
  "on_litmus h s req = run_bind (h (litmus_part s) req) (\<lambda>(l, resp). Ret (with_litmus l s, resp))"

text \<open>
  The handlers \<open>Register\<close> gets. The constructors of the Litmus handlers may return a nil pointer; as an
  \<open>ApiHandler\<close> it is not nil, so all seven are registered.
\<close>

definition api_of :: "('st, 'w, 'k, 'v, 'x) surroundings \<Rightarrow> ('st, 'k) system api_handlers" where
  "api_of su =
     \<lparr>h_chaosblade = Some (sys_chaosblade su), h_ping = Some sys_ping, h_uninstall = Some (sys_uninstall su),
      h_update = Some (sys_update su),
      h_litmus = Some (on_litmus (litmus_Handle (su_yaml su) (su_k8s su) (su_hub su) (su_order su) (su_name su))),
      h_installLitmus = Some (on_litmus (install_Handle (NewInstallLitmusHandler (su_helm su)))),
      h_uninstallLitmus = Some (on_litmus (uninstall_litmus_Handle (NewUninstallLitmusHandler (su_helm su))))\<rparr>"

section \<open>The steps\<close>

text \<open>The request in the body of a form, where the interceptors let it through.\<close>

definition signed_request :: "keystore \<Rightarrow> (string \<times> string list) list option \<Rightarrow> Request option" where
  "signed_request ks form =
     (case form of
        None \<Rightarrow> None
      | Some vs \<Rightarrow>
          (case map_of vs ''body'' of
             Some (b # bs) \<Rightarrow>
               (case unmarshal_request b of (req, ok) \<Rightarrow> if ok \<and> Handle ks BuildInterceptor req = None then Some req else None)
           | _ \<Rightarrow> None))"

text \<open>
  A request that was let through is recorded with the keys of that moment; it meets any of the \<open>possible\<close>
  surroundings. Where the handler of blade commands panics in its locked section, the table is what that left.
\<close>

datatype label = Served "(keystore \<times> Request) option" | Beat | Registered | JobDone | WatchDone | Reported

inductive sys_step :: "(('st, 'w, 'k, 'v, 'x) surroundings \<Rightarrow> bool) \<Rightarrow> label \<Rightarrow> ('st, 'k) system \<Rightarrow> ('st, 'k) system \<Rightarrow> bool"
  for possible where
  Serve: "possible su \<Longrightarrow> Register (api_of su) [] = Some (mux, None) \<Longrightarrow> map_of mux pattern = Some h \<Longrightarrow>
    Http_serve (keys (sy_agent s)) (tl pattern) h form s = Ret (s', out) \<Longrightarrow>
    sys_step possible (Served (map_option (Pair (keys (sy_agent s))) (signed_request (keys (sy_agent s)) form))) s s'"
| Panicked: "possible su \<Longrightarrow> signed_request (keys (sy_agent s)) form = Some req \<Longrightarrow> cmd = gget (Params req) ''cmd'' \<Longrightarrow>
    rn = sy_running s \<or> (\<exists>command arg response.
      exec_head (sys_world su s) (su_ticks su) cmd = Ret (Inr (command, arg, response))
      \<and> handleCacheAndSafePoint (sys_world su s) cmd command arg response (sy_running s) = None
      \<and> rn = locked_table cmd command arg response (sy_running s)) \<Longrightarrow>
    sys_step possible (Served (Some (keys (sy_agent s), req))) s
      (s\<lparr>sy_running := rn, sy_agent := (sy_agent s)\<lparr>files := w\<rparr>, sy_client := c, sy_cluster := k, sy_watched := watched\<rparr>)"
| Beat: "heartbeat_tick e (sy_agent s) = Some a \<Longrightarrow> sys_step possible Beat s (s\<lparr>sy_agent := a\<rparr>)"
| Registration: "connect_Start e (sy_agent s) = Some (a, err) \<Longrightarrow> sys_step possible Registered s (s\<lparr>sy_agent := a\<rparr>)"
| Job: "j \<in> set (sy_jobs s) \<Longrightarrow> run_job e (sy_agent s) ticks j (sy_running s) = Ret (rn, rep) \<Longrightarrow>
    sys_step possible JobDone s (s\<lparr>sy_running := rn, sy_jobs := remove1 j (sy_jobs s)\<rparr>)"
| Watched: "(name, ns, experiment) \<in> set (sy_watched s) \<Longrightarrow>
    AsyncHandlerResultStatus e (sy_agent s) retry get name ns experiment = Some rep \<Longrightarrow>
    sys_step possible WatchDone s (s\<lparr>sy_watched := remove1 (name, ns, experiment) (sy_watched s)\<rparr>)"
| Report: "pod_Report set_list matches e k (sy_pods s, sy_agent s) = Some (pc, a) \<Longrightarrow>
    sys_step possible Reported s (s\<lparr>sy_pods := pc, sy_agent := a\<rparr>)"

inductive sys_run :: "(('st, 'w, 'k, 'v, 'x) surroundings \<Rightarrow> bool) \<Rightarrow> ('st, 'k) system \<Rightarrow> label list \<Rightarrow> ('st, 'k) system \<Rightarrow> bool"
  for possible where
  Idle: "sys_run possible s [] s"
| Next: "sys_run possible s tr s' \<Longrightarrow> sys_step possible l s' s'' \<Longrightarrow> sys_run possible s (tr @ [l]) s''"

text \<open>The system of an agent that has come up.\<close>

definition system_of :: "('l, 'c, 's) running_agent \<Rightarrow> fs \<Rightarrow> 'st Client \<Rightarrow> 'k \<Rightarrow> PodCollector \<Rightarrow> ('st, 'k) system" where
  "system_of a w client k pc =
     \<lparr>sy_agent = \<lparr>opts = ra_opts a, keys = \<lparr>localAccessKey = [], localSecureKey = []\<rparr>, files = w, uris = ra_uris a, hbs = HBSnapshotList\<rparr>,
      sy_running = [], sy_jobs = [], sy_client = client, sy_cluster = k, sy_watched = [], sy_pods = pc\<rparr>"

section \<open>What a handler may change\<close>

text \<open>The options that are fixed once the agent is up.\<close>

definition same_setup :: "Options \<Rightarrow> Options \<Rightarrow> bool" where
  "same_setup o1 o2 \<longleftrightarrow> TransportConf o2 = TransportConf o1 \<and> Pid o2 = Pid o1 \<and> Port o2 = Port o1 \<and> LocalIp o2 = LocalIp o1
     \<and> License o2 = License o1 \<and> AgentMode o2 = AgentMode o1 \<and> ClusterId o2 = ClusterId o1 \<and> LitmusChartUrl o2 = LitmusChartUrl o1"

lemma same_setup_simps [simp]:
  "same_setup o1 o1" "same_setup o1 (o2\<lparr>LitmusChaosVerison := v\<rparr>) = same_setup o1 o2"
  "same_setup o1 (o2\<lparr>Ip := v\<rparr>) = same_setup o1 o2" "same_setup o1 (o2\<lparr>Cid := v\<rparr>) = same_setup o1 o2"
  "same_setup o1 (o2\<lparr>Uid := v\<rparr>) = same_setup o1 o2" "same_setup o1 (o2\<lparr>ApplicationInstance := v\<rparr>) = same_setup o1 o2"
  "same_setup o1 (o2\<lparr>ApplicationGroup := v\<rparr>) = same_setup o1 o2"
  by (simp_all add: same_setup_def)

lemma same_setup_trans: "same_setup o1 o2 \<Longrightarrow> same_setup o2 o3 \<Longrightarrow> same_setup o1 o3"
  by (simp add: same_setup_def)

lemma Http_serve_acts:
  assumes "Http_serve ks n (NewServerRequestHandler (Some h)) form s = Ret (s', out)"
  shows "s' = s \<or> (\<exists>req resp. signed_request ks form = Some req \<and> h s req = Ret (s', resp))"
proof (cases form)
  case (Some vs)
  with assms obtain b bs r where b: "map_of vs ''body'' = Some (b # bs)"
    "Server_Handle ks (NewServerRequestHandler (Some h)) b s = Ret (s', r)"
    by (auto simp: Http_serve_def split: option.splits list.splits sum.splits) (metis sum.exhaust)
  then show ?thesis using Some
    by (auto simp: Server_Handle_def NewServerRequestHandler_def signed_request_def split: prod.splits bool.splits option.splits)
qed (use assms in \<open>simp add: Http_serve_def\<close>)

text \<open>
  The contract of a handler of the API: it leaves the keys, the addresses and the heartbeats alone, keeps
  the fixed options and the invariant of the table of experiments, and enters no command but the request's.
\<close>

locale system_handler =
  fixes h :: "('st, 'k) system ApiHandler"
  assumes keeps_agent: "h s req = Ret (s', resp) \<Longrightarrow>
      keys (sy_agent s') = keys (sy_agent s) \<and> uris (sy_agent s') = uris (sy_agent s) \<and> hbs (sy_agent s') = hbs (sy_agent s)
      \<and> same_setup (opts (sy_agent s)) (opts (sy_agent s')) \<and> sy_pods s' = sy_pods s"
    and keeps_table: "h s req = Ret (s', resp) \<Longrightarrow> running_inv (sy_running s) \<Longrightarrow> running_inv (sy_running s')"
    and enters_own: "h s req = Ret (s', resp) \<Longrightarrow> map_of (sy_running s') uid = Some cmd \<Longrightarrow>
      map_of (sy_running s) uid = Some cmd \<or> cmd = gget (Params req) ''cmd''"
begin

lemma serve_enters:
  assumes "Http_serve ks n (NewServerRequestHandler (Some h)) form s = Ret (s', out)" "map_of (sy_running s') uid = Some cmd"
  shows "map_of (sy_running s) uid = Some cmd \<or> (\<exists>req. signed_request ks form = Some req \<and> gget (Params req) ''cmd'' = cmd)"
  using Http_serve_acts [OF assms(1)] enters_own assms(2) by blast

lemma serve_keeps:
  assumes "Http_serve ks n (NewServerRequestHandler (Some h)) form s = Ret (s', out)"
  shows "keys (sy_agent s') = keys (sy_agent s) \<and> uris (sy_agent s') = uris (sy_agent s) \<and> hbs (sy_agent s') = hbs (sy_agent s)
      \<and> same_setup (opts (sy_agent s)) (opts (sy_agent s')) \<and> (running_inv (sy_running s) \<longrightarrow> running_inv (sy_running s'))"
proof -
  have "s' = s \<or> (\<exists>req resp. h s req = Ret (s', resp))" using Http_serve_acts [OF assms] by blast
  then show ?thesis using keeps_agent keeps_table by auto
qed

end

text \<open>A handler on the Litmus part keeps the contract where it keeps the fixed options.\<close>

locale litmus_handler =
  fixes h :: "('st, 'k) litmus_state ApiHandler"
  assumes keeps_opts: "h l req = Ret (l', resp) \<Longrightarrow> same_setup (lt_opts l) (lt_opts l')"

sublocale litmus_handler \<subseteq> system_handler "on_litmus h"
proof unfold_locales
  fix s s' :: "('st, 'k) system" and req resp
  assume "on_litmus h s req = Ret (s', resp)"
  then obtain l where l: "h (litmus_part s) req = Ret (l, resp)" "s' = with_litmus l s" by (auto simp: on_litmus_def)
  show "keys (sy_agent s') = keys (sy_agent s) \<and> uris (sy_agent s') = uris (sy_agent s) \<and> hbs (sy_agent s') = hbs (sy_agent s)
      \<and> same_setup (opts (sy_agent s)) (opts (sy_agent s')) \<and> sy_pods s' = sy_pods s"
    using keeps_opts [OF l(1)] l(2) by (simp add: with_litmus_def litmus_part_def)
  show "running_inv (sy_running s) \<Longrightarrow> running_inv (sy_running s')" using l(2) by (simp add: with_litmus_def)
  show "map_of (sy_running s') uid = Some cmd \<Longrightarrow> map_of (sy_running s) uid = Some cmd \<or> cmd = gget (Params req) ''cmd''" for uid cmd
    using l(2) by (simp add: with_litmus_def)
qed

lemma createExec_opts:
  assumes "createExec y lh http ord t n ns name ai co s = Some (s', resp)"
  shows "lt_opts s' = lt_opts s"
proof (cases "LitmusChaosVerison (lt_opts s) = []")
  case False
  with assms obtain s1 e1 where p1: "prepareLitmusExperiment y lh http t n ns s = Some (s1, e1)"
    by (auto simp: createExec_def bind_eq_Some_conv)
  note o1 = conjunct1 [OF prepare_keeps(1) [OF p1]]
  show ?thesis
  proof (cases e1)
    case None
    with assms False p1 obtain s2 e2 where p2: "prepareLitmusRbac y lh http t n ns s1 = Some (s2, e2)"
      by (auto simp: createExec_def bind_eq_Some_conv)
    have "lt_opts s' = lt_opts s2" using assms False p1 None p2
      by (cases e2) (auto simp: createExec_def bind_eq_Some_conv case_prod_unfold split: option.split_asm)
    then show ?thesis using prepare_keeps(2) [OF p2] o1 by simp
  qed (use assms False p1 o1 in \<open>auto simp: createExec_def\<close>)
qed (use assms in \<open>simp add: createExec_def\<close>)

lemma litmus_Handle_opts: "litmus_Handle y lh http ord name s req = Ret (s', resp) \<Longrightarrow> lt_opts s' = lt_opts s"
  by (auto simp: litmus_Handle_def createParamerAndExec_def destroyParamerAndExec_def destroyExec_def Let_def bind_eq_Some_conv
      case_prod_unfold dest: createExec_opts split: if_split_asm option.split_asm)

lemma installLitmus_opts:
  assumes "installLitmus h version vals s = Ret (s', resp)"
  shows "same_setup (lt_opts s) (lt_opts s')"
proof -
  let ?url = "getLitmusUrlByVersionAndEnv (lt_opts s) version"
  obtain c err where p: "helm_PullChart h ?url (lt_client s) = Some (c, err)"
    using assms by (auto simp: installLitmus_def Let_def)
  show ?thesis
  proof (cases err)
    case None
    with assms p obtain c' ch where l: "helm_LoadChart h ?url c = Some (c', ch)" by (auto simp: installLitmus_def Let_def)
    show ?thesis
    proof (cases ch)
      case (Inr charts)
      obtain k e where i: "helm_Install h charts vals (lt_cluster s) = (k, e)" by fastforce
      show ?thesis using assms p None l Inr i by (cases e) (auto simp: installLitmus_def Let_def)
    qed (use assms p None l in \<open>auto simp: installLitmus_def Let_def\<close>)
  qed (use assms p in \<open>auto simp: installLitmus_def Let_def\<close>)
qed

lemma install_Handle_opts: "install_Handle helm s req = Ret (s', resp) \<Longrightarrow> same_setup (lt_opts s) (lt_opts s')"
  by (auto simp: install_Handle_def dest: installLitmus_opts split: option.splits)

interpretation sys_litmus: litmus_handler "litmus_Handle y lh http ord name" for y lh http ord name
  by unfold_locales (simp add: litmus_Handle_opts)

interpretation sys_install: litmus_handler "install_Handle helm" for helm
  by unfold_locales (rule install_Handle_opts)

interpretation sys_uninstall_litmus: litmus_handler "uninstall_litmus_Handle helm" for helm
  by unfold_locales (auto simp: uninstall_litmus_Handle_def uninstallLitmus_def Let_def case_prod_unfold split: option.splits)

lemma locked_table_enters:
  "map_of (locked_table cmdline command arg response rn) uid = Some cmd \<Longrightarrow> map_of rn uid = Some cmd \<or> cmd = cmdline"
  by (auto simp: locked_table_def update_conv' delete_conv' split: if_splits option.splits)

lemma exec_enters:
  assumes "exec w ticks cmdline rn = Ret (rn', resp, jobs)" "map_of rn' uid = Some cmd"
  shows "map_of rn uid = Some cmd \<or> cmd = cmdline"
  using assms(1)
proof (cases rule: exec_cases)
  case (updated result msg command arg args)
  then show ?thesis using handleCache_table [OF updated(5)] locked_table_enters assms(2) by blast
qed (use assms(2) in simp)

interpretation chaosblade_handler: system_handler "sys_chaosblade su" for su
proof unfold_locales
  fix s s' :: "('a, 'c) system" and req resp
  assume "sys_chaosblade su s req = Ret (s', resp)"
  then obtain rn jobs where r: "chaosblade_Handle (sys_world su s) (su_ticks su) req (sy_running s) = Ret (rn, resp, jobs)"
    "s' = s\<lparr>sy_running := rn, sy_jobs := sy_jobs s @ jobs\<rparr>" by (auto simp: sys_chaosblade_def)
  show "keys (sy_agent s') = keys (sy_agent s) \<and> uris (sy_agent s') = uris (sy_agent s) \<and> hbs (sy_agent s') = hbs (sy_agent s)
      \<and> same_setup (opts (sy_agent s)) (opts (sy_agent s')) \<and> sy_pods s' = sy_pods s" using r(2) by simp
  show "running_inv (sy_running s) \<Longrightarrow> running_inv (sy_running s')"
    using r exec_inv by (auto simp: chaosblade_Handle_def Let_def split: if_splits)
  show "map_of (sy_running s') uid = Some cmd \<Longrightarrow> map_of (sy_running s) uid = Some cmd \<or> cmd = gget (Params req) ''cmd''" for uid cmd
    using r exec_enters by (auto simp: chaosblade_Handle_def Let_def split: if_splits)
qed

interpretation ping_handler: system_handler sys_ping
  by unfold_locales (simp_all add: sys_ping_def ping_Handle_def)

interpretation uninstall_handler: system_handler "sys_uninstall su" for su
  by unfold_locales (auto simp: sys_uninstall_def uninstall_Handle_def Let_def split: if_splits prod.splits)

interpretation update_handler: system_handler "sys_update su" for su
  by unfold_locales (auto simp: sys_update_def update_Handle_def Let_def split: option.splits prod.splits)

lemmas api_handlers_keep =
  chaosblade_handler.serve_keeps ping_handler.serve_keeps uninstall_handler.serve_keeps update_handler.serve_keeps
  sys_litmus.serve_keeps sys_install.serve_keeps sys_uninstall_litmus.serve_keeps

lemmas api_handlers_enter =
  chaosblade_handler.serve_enters ping_handler.serve_enters uninstall_handler.serve_enters update_handler.serve_enters
  sys_litmus.serve_enters sys_install.serve_enters sys_uninstall_litmus.serve_enters

lemma registered_handler:
  assumes "Register (api_of su) [] = Some (mux, None)" "map_of mux pattern = Some h"
  obtains "h = NewServerRequestHandler (Some (sys_chaosblade su))" | "h = NewServerRequestHandler (Some sys_ping)"
  | "h = NewServerRequestHandler (Some (sys_uninstall su))" | "h = NewServerRequestHandler (Some (sys_update su))"
  | "h = NewServerRequestHandler (Some (on_litmus (litmus_Handle (su_yaml su) (su_k8s su) (su_hub su) (su_order su) (su_name su))))"
  | "h = NewServerRequestHandler (Some (on_litmus (install_Handle (NewInstallLitmusHandler (su_helm su)))))"
  | "h = NewServerRequestHandler (Some (on_litmus (uninstall_litmus_Handle (NewUninstallLitmusHandler (su_helm su)))))"
  using assms by (auto simp: Register_def Http_RegisterHandler_def api_of_def split: if_splits)

section \<open>Invariants of the running agent\<close>

lemma heartbeat_tick_agent: "heartbeat_tick e a = Some a' \<Longrightarrow> \<exists>b. a' = record_hb b a"
  by (auto simp: heartbeat_tick_def sendHeartbeat_def bind_eq_Some_conv split: option.splits if_splits prod.splits)

definition same_names :: "Options \<Rightarrow> Options \<Rightarrow> bool" where
  "same_names o1 o2 \<longleftrightarrow> ApplicationInstance o2 = ApplicationInstance o1 \<and> ApplicationGroup o2 = ApplicationGroup o1
     \<and> LitmusChaosVerison o2 = LitmusChaosVerison o1"

lemma same_names_simps [simp]:
  "same_names o1 o1" "same_names o1 (o2\<lparr>Ip := v\<rparr>) = same_names o1 o2" "same_names o1 (o2\<lparr>Cid := v\<rparr>) = same_names o1 o2"
  "same_names o1 (o2\<lparr>Uid := v\<rparr>) = same_names o1 o2"
  by (simp_all add: same_names_def)

definition key_pair :: "keystore \<Rightarrow> bool" where
  "key_pair ks \<longleftrightarrow> (GetAccessKey ks = [] \<longleftrightarrow> GetSecureKey ks = [])"

lemma take_keys_agent:
  assumes "take_keys e v a = Some (a', err)"
  shows "uris a' = uris a \<and> hbs a' = hbs a \<and> opts a' = opts a \<and> (key_pair (keys a) \<longrightarrow> key_pair (keys a'))"
  using assms by (auto simp: take_keys_def bind_eq_Some_conv RecordSecretKeyToFile_def key_pair_def GetAccessKey_def GetSecureKey_def
      split: if_split_asm prod.split_asm option.split_asm)

lemma take_uid_agent: "take_uid v a = Some a' \<Longrightarrow> \<exists>u. a' = a \<or> a' = a\<lparr>opts := (opts a)\<lparr>Uid := u\<rparr>\<rparr>"
  by (auto simp: take_uid_def SetUid_def split: option.split_asm json.split_asm)

lemma connect_Start_agent:
  assumes "connect_Start e a = Some (a', err)"
  shows "uris a' = uris a \<and> hbs a' = hbs a \<and> same_setup (opts a) (opts a') \<and> same_names (opts a) (opts a')
    \<and> (key_pair (keys a) \<longrightarrow> key_pair (keys a'))"
proof -
  have r: "uris a' = uris a \<and> hbs a' = hbs a \<and> same_setup (opts a) (opts a') \<and> same_names (opts a) (opts a')
    \<and> (key_pair (keys a) \<longrightarrow> key_pair (keys a'))"
    if h: "handleDirectHttpConnectResponse e a resp = Some (a', err)" for resp
  proof -
    consider "a' = a" | cid v a1 where "take_uid v (a\<lparr>opts := SetCid cid (opts a)\<rparr>) = Some a1" "take_keys e v a1 = Some (a', err)"
      using h by (auto simp: handleDirectHttpConnectResponse_def bind_eq_Some_conv split: if_split_asm option.split_asm)
    then show ?thesis
    proof cases
      case (2 cid v a1)
      then show ?thesis using take_uid_agent [OF 2(1)] take_keys_agent [OF 2(2)] by (auto simp: SetCid_def)
    qed simp
  qed
  obtain r response err' where i: "(case err' of Some m \<Rightarrow> Some (a, Some m)
      | None \<Rightarrow> (case response of None \<Rightarrow> None | Some resp \<Rightarrow> handleDirectHttpConnectResponse e a resp)) = Some (a', err)"
    using assms by (auto simp: connect_Start_def bind_eq_Some_conv)
  then have "a' = a \<or> (\<exists>resp. handleDirectHttpConnectResponse e a resp = Some (a', err))"
    by (cases err'; cases response) auto
  then show ?thesis using r by (elim disjE exE) simp_all
qed

lemma pod_Report_agent:
  assumes "pod_Report set_list matches e k (pc, a) = Some (pc', a')"
  shows "\<exists>ip. a' = a \<or> a' = a\<lparr>opts := (opts a)\<lparr>Ip := ip\<rparr>\<rparr>"
proof (cases "ensure_indexer (clientSet k) (pc_base pc)")
  case (Some b)
  with assms obtain sc o' where "setAgentExternalIp set_list (services_now k) (SetSelector set_list (clientSet k) (services_now k) (serviceCollector pc)) (opts a)
      = Some (sc, o')" "a' = a\<lparr>opts := o'\<rparr>"
    by (auto simp: pod_Report_def Let_def bind_eq_Some_conv case_prod_unfold)
  then show ?thesis by (auto simp: setAgentExternalIp_def Let_def case_prod_unfold split: if_split_asm option.split_asm)
qed (use assms in \<open>simp add: pod_Report_def\<close>)

definition system_inv :: "('st, 'k) system \<Rightarrow> ('st, 'k) system \<Rightarrow> bool" where
  "system_inv s0 s \<longleftrightarrow> running_inv (sy_running s) \<and> list_inv (hbs (sy_agent s)) \<and> cap (hbs (sy_agent s)) = 26
     \<and> key_pair (keys (sy_agent s)) \<and> uris (sy_agent s) = uris (sy_agent s0) \<and> same_setup (opts (sy_agent s0)) (opts (sy_agent s))"

lemma record_hb_simps [simp]:
  "keys (record_hb b a) = keys a" "uris (record_hb b a) = uris a" "opts (record_hb b a) = opts a" "files (record_hb b a) = files a"
  "hbs (record_hb b a) = Put b (hbs a)"
  by (simp_all add: record_hb_def)

lemma system_inv_step:
  assumes "sys_step possible l s s'" "system_inv s0 s"
  shows "system_inv s0 s'"
  using assms(1)
proof (cases rule: sys_step.cases)
  case (Serve su mux pattern h form out)
  have "keys (sy_agent s') = keys (sy_agent s) \<and> uris (sy_agent s') = uris (sy_agent s) \<and> hbs (sy_agent s') = hbs (sy_agent s)
      \<and> same_setup (opts (sy_agent s)) (opts (sy_agent s')) \<and> (running_inv (sy_running s) \<longrightarrow> running_inv (sy_running s'))"
    using Serve(3,4) by (rule registered_handler) (use Serve(5) api_handlers_keep in metis)+
  then show ?thesis using assms(2) by (auto simp: system_inv_def intro: same_setup_trans)
next
  case (Panicked su form req cmd rn w c k watched)
  then have "running_inv (sy_running s) \<Longrightarrow> running_inv rn" using exec_head_fields locked_table_inv by metis
  then show ?thesis using assms(2) Panicked by (simp add: system_inv_def)
next
  case (Beat e a)
  then show ?thesis using assms(2) limited.inv_put heartbeat_tick_agent by (fastforce simp: system_inv_def)
next
  case (Registration e a err)
  then show ?thesis using assms(2) connect_Start_agent [OF Registration(3)] by (auto simp: system_inv_def intro: same_setup_trans)
next
  case (Job j e ticks rn rep)
  then show ?thesis using assms(2) run_job_inv [OF Job(4)] by (simp add: system_inv_def)
next
  case (Watched name ns exn e retry get rep)
  then show ?thesis using assms(2) by (simp add: system_inv_def)
next
  case (Report set_list matches e k pc a)
  then show ?thesis using assms(2) pod_Report_agent [OF Report(3)] by (auto simp: system_inv_def)
qed

lemma system_inv_run: "sys_run possible s0 tr s \<Longrightarrow> system_inv s0 s0 \<Longrightarrow> system_inv s0 s"
  by (induction rule: sys_run.induct) (auto intro: system_inv_step)

lemma system_inv_start: "system_inv (system_of a w client k pc) (system_of a w client k pc)"
  by (simp add: system_inv_def system_of_def running_inv_def list_inv_def HBSnapshotList_def key_pair_def GetAccessKey_def GetSecureKey_def)

text \<open>
  C3: an agent that has come up stays sound, whatever requests, heartbeats, registrations, goroutines and
  reports follow each other: the table of experiments keeps its invariant, the history of heartbeats its
  bound, the two keys are there together or not at all, the addresses of the server are those of the
  start, and the endpoint and the process id stay what they were.
\<close>

theorem running_agent_stays_sound:
  assumes "agent_main b w = Up a w'" "sys_run possible (system_of a w' client k pc) tr s"
  shows "running_inv (sy_running s) \<and> length (items (hbs (sy_agent s))) \<le> 26
    \<and> (GetAccessKey (keys (sy_agent s)) = [] \<longleftrightarrow> GetSecureKey (keys (sy_agent s)) = [])
    \<and> uris (sy_agent s) = ra_uris a \<and> Endpoint (TransportConf (opts (sy_agent s))) \<noteq> []
    \<and> Pid (opts (sy_agent s)) = Itoa (h_pid (b_host b))"
proof -
  have "system_inv (system_of a w' client k pc) s" using assms(2) system_inv_start by (rule system_inv_run)
  moreover have "Endpoint (TransportConf (ra_opts a)) \<noteq> [] \<and> Pid (ra_opts a) = Itoa (h_pid (b_host b))"
    using agent_main_ready [of b w] unfolding assms(1) by simp
  ultimately show ?thesis
    by (auto simp: system_inv_def system_of_def same_setup_def list_inv_def key_pair_def)
qed

section \<open>Requests without a signature\<close>

lemma delete_map_le: "map_of (AList.delete k al) \<subseteq>\<^sub>m map_of al"
  by (auto simp: map_le_def delete_conv')

lemma run_job_running: "run_job e a ticks j rn = Ret (rn', rep) \<Longrightarrow> map_of rn' \<subseteq>\<^sub>m map_of rn"
  by (cases j) (auto simp: checkAndReportJavaAgentStatus_def checkAndReportJavaAgentUninstallStatus_def checkAndReportAsyncStatus_def
      deleteCallback_def Let_def delete_map_le split: option.splits if_split_asm)

text \<open>What nobody outside may change without the keys.\<close>

definition no_gain :: "('st, 'k) system \<Rightarrow> ('st, 'k) system \<Rightarrow> bool" where
  "no_gain s s' \<longleftrightarrow> map_of (sy_running s') \<subseteq>\<^sub>m map_of (sy_running s) \<and> set (sy_jobs s') \<subseteq> set (sy_jobs s)
     \<and> set (sy_watched s') \<subseteq> set (sy_watched s) \<and> sy_cluster s' = sy_cluster s \<and> sy_client s' = sy_client s
     \<and> same_names (opts (sy_agent s)) (opts (sy_agent s'))"

lemma no_gain_refl: "no_gain s s"
  by (simp add: no_gain_def)

lemma no_gain_trans: "no_gain s s' \<Longrightarrow> no_gain s' s'' \<Longrightarrow> no_gain s s''"
  by (auto simp: no_gain_def same_names_def intro: map_le_trans)

lemma no_gain_step:
  assumes "sys_step possible l s s'" "\<And>p. l \<noteq> Served (Some p)"
  shows "no_gain s s'"
  using assms(1)
proof (cases rule: sys_step.cases)
  case (Serve su mux pattern h form out)
  have "s' = s" using Serve(3,4)
    by (rule registered_handler) (use Serve(1,5) assms(2) in \<open>auto dest!: Http_serve_acts\<close>)
  then show ?thesis by (simp add: no_gain_refl)
next
  case (Panicked su form req cmd rn w c k watched)
  then show ?thesis using assms(2) by blast
next
  case (Beat e a)
  then show ?thesis using heartbeat_tick_agent by (fastforce simp: no_gain_def)
next
  case (Registration e a err)
  then show ?thesis using connect_Start_agent [OF Registration(3)] by (simp add: no_gain_def)
next
  case (Job j e ticks rn rep)
  then show ?thesis using run_job_running [OF Job(4)] set_remove1_subset by (fastforce simp: no_gain_def)
next
  case (Watched name ns exn e retry get rep)
  then show ?thesis using set_remove1_subset by (fastforce simp: no_gain_def)
next
  case (Report set_list matches e k pc a)
  then show ?thesis using pod_Report_agent [OF Report(3)] by (auto simp: no_gain_def)
qed

text \<open>
  C4: without the keys nothing can be set off: in a run in which no served request carries a valid
  signature under the keys the agent has at that moment, no experiment, goroutine or watch is added, the
  cluster, the chart cache, the installed version and the names of the application stay as they are.
\<close>

theorem unsigned_traffic_is_harmless:
  assumes "sys_run possible s tr s'" "\<forall>p. Served (Some p) \<notin> set tr"
  shows "no_gain s s'"
  using assms
proof (induction rule: sys_run.induct)
  case (Next s tr s' l s'')
  then show ?case using no_gain_step [of possible l s' s''] no_gain_trans by fastforce
qed (rule no_gain_refl)

section \<open>Where experiments come from\<close>

lemma signed_request_passes: "signed_request ks form = Some req \<Longrightarrow> Handle ks BuildInterceptor req = None"
  by (auto simp: signed_request_def split: option.splits list.splits prod.splits if_splits)

lemma step_enters:
  assumes "sys_step possible l s s'" "map_of (sy_running s') uid = Some cmd"
  shows "map_of (sy_running s) uid = Some cmd
    \<or> (\<exists>ks req. l = Served (Some (ks, req)) \<and> Handle ks BuildInterceptor req = None \<and> gget (Params req) ''cmd'' = cmd)"
  using assms(1)
proof (cases rule: sys_step.cases)
  case (Serve su mux pattern h form out)
  have "map_of (sy_running s) uid = Some cmd \<or> (\<exists>req. signed_request (keys (sy_agent s)) form = Some req \<and> gget (Params req) ''cmd'' = cmd)"
    using Serve(3,4) by (rule registered_handler) (use Serve(5) assms(2) in \<open>auto dest: api_handlers_enter\<close>)
  then show ?thesis using Serve(1) signed_request_passes by auto
next
  case (Panicked su form req cmd' rn w c k watched)
  then have "map_of rn uid = Some cmd" using assms(2) by simp
  then have "map_of (sy_running s) uid = Some cmd \<or> cmd = cmd'" using Panicked(6) locked_table_enters by blast
  then show ?thesis using Panicked(1,4,5) signed_request_passes by blast
next
  case (Job j e ticks rn rep)
  then show ?thesis using assms(2) run_job_running [OF Job(4)] by (auto simp: map_le_def dom_def)
qed (use assms(2) in auto)

text \<open>
  C6: every experiment goes back to a signed request: whatever has happened since a start with an empty
  table, each command in the table is the \<open>cmd\<close> of a request that was let through earlier, under the keys the
  agent had at that moment.
\<close>

theorem experiments_were_requested:
  assumes "sys_run possible s0 tr s" "sy_running s0 = []" "map_of (sy_running s) uid = Some cmd"
  shows "\<exists>ks req. Served (Some (ks, req)) \<in> set tr \<and> Handle ks BuildInterceptor req = None \<and> gget (Params req) ''cmd'' = cmd"
  using assms
proof (induction rule: sys_run.induct)
  case (Next s tr s' l s'')
  then show ?case using step_enters [OF Next.hyps(2) Next.prems(2)] by fastforce
qed simp

section \<open>A signed command\<close>

lemma exec_create:
  assumes "Fields cmd = command # arg # args" "isCreateOrPrepareCmd command" "blade w Background cmd = (result, msg, True)"
    and "Success (parseResult result)" "Result (parseResult result) = JStr uid" "Deadline \<in> set ticks"
  shows "\<exists>jobs. exec w ticks cmd rn = Ret (AList.update uid cmd rn, parseResult result, jobs)"
proof -
  have "IsExist (wfs w) BladeBinPath" using blade_ok_exists [OF assms(3)] .
  moreover have "wait_if_k8s cmd c u ticks = Ret ()" for c u using waitForK8sStatus_ends [OF assms(6)] by (simp add: wait_if_k8s_def)
  moreover obtain as where "isAsyncCreate cmd = Some as"
    using assms(1) by (cases "CreateOperation command") (simp_all add: isAsyncCreate_def)
  ultimately show ?thesis using assms by (auto simp: exec_def Let_def handleCacheAndSafePoint_def)
qed

lemma signed_create:
  assumes "link_ready (keys (sy_agent s)) now uuid r" "prepared (keys (sy_agent s)) now uuid r = Some r'"
    and "gget (Params r) ''cmd'' = cmd" "Fields cmd = command # arg # args" "isCreateOrPrepareCmd command"
    and "blade (sys_world su s) Background cmd = (result, msg, True)" "Success (parseResult result)"
    and "Result (parseResult result) = JStr uid" "Deadline \<in> set (su_ticks su)" "possible su"
  shows "\<exists>s'. sys_step possible (Served (Some (keys (sy_agent s), sort_request r'))) s s' \<and> map_of (sy_running s') = (map_of (sy_running s))(uid \<mapsto> cmd)
    \<and> Http_serve (keys (sy_agent s)) ''chaosblade'' (NewServerRequestHandler (Some (sys_chaosblade su)))
        (Some [(''body'', [json_print (json_of_request r')])]) s = Ret (s', Some (marshal_response (parseResult result)))"
proof -
  let ?ks = "keys (sy_agent s)" and ?h = "NewServerRequestHandler (Some (sys_chaosblade su))"
  let ?form = "Some [(''body'', [json_print (json_of_request r')])]"
  note rec = prepared_received [OF assms(1,2)]
  have "request_ok r'" using prepared_accepted [OF assms(1,2)] by blast
  then have "gget (Params (sort_request r')) ''cmd'' = cmd"
    using prepared_params [OF assms(2), of "''cmd''"] assms(3) by (simp add: sort_request_def request_ok_def header_consts)
  moreover have "cmd \<noteq> []"
  proof
    assume "cmd = []"
    moreover have "Fields [] = []" by code_simp
    ultimately show False using assms(4) by simp
  qed
  moreover obtain jobs where "exec (sys_world su s) (su_ticks su) cmd (sy_running s) = Ret (AList.update uid cmd (sy_running s), parseResult result, jobs)"
    using exec_create [OF assms(4-9)] by blast
  ultimately have "sys_chaosblade su s (sort_request r')
      = Ret (s\<lparr>sy_running := AList.update uid cmd (sy_running s), sy_jobs := sy_jobs s @ jobs\<rparr>, parseResult result)" (is "_ = Ret (?s', _)")
    by (simp add: sys_chaosblade_def chaosblade_Handle_def)
  then have serve: "Http_serve ?ks ''chaosblade'' ?h ?form s = Ret (?s', Some (marshal_response (parseResult result)))"
    using Server_Handle_accepted [OF rec, where h = "sys_chaosblade su" and s = s] by (simp add: Http_serve_def)
  obtain mux where mux: "Register (api_of su) [] = Some (mux, None)" "map_of mux ''/chaosblade'' = Some ?h"
    by (simp add: Register_def Http_RegisterHandler_def api_of_def)
  have "signed_request ?ks ?form = Some (sort_request r')" using rec by (simp add: signed_request_def)
  then have "sys_step possible (Served (Some (?ks, sort_request r'))) s ?s'"
    using Serve [where possible = possible, OF assms(10) mux] serve by fastforce
  then show ?thesis using serve by (intro exI [of _ ?s']) (simp add: update_conv')
qed

text \<open>
  C5: a signed create command does what it says: sent by a party with the agent's keys, in any state and any
  surroundings, it is let through, run, entered under the id the tool returned, and answered with the
  tool's reply.
\<close>

theorem signed_create_starts_experiment:
  assumes "link_ready (keys (sy_agent s)) now uuid r" "prepared (keys (sy_agent s)) now uuid r = Some r'"
    and "gget (Params r) ''cmd'' = cmd" "Fields cmd = command # arg # args" "isCreateOrPrepareCmd command"
    and "blade (sys_world su s) Background cmd = (result, msg, True)" "Success (parseResult result)"
    and "Result (parseResult result) = JStr uid" "Deadline \<in> set (su_ticks su)" "possible su"
  shows "\<exists>s'. sys_step possible (Served (Some (keys (sy_agent s), sort_request r'))) s s' \<and> map_of (sy_running s') = (map_of (sy_running s))(uid \<mapsto> cmd)
    \<and> Http_serve (keys (sy_agent s)) ''chaosblade'' (NewServerRequestHandler (Some (sys_chaosblade su)))
        (Some [(''body'', [json_print (json_of_request r')])]) s = Ret (s', Some (marshal_response (parseResult result)))"
  using assms by (rule signed_create)

section \<open>Samples\<close>

text \<open>A system with keys and the tool, surroundings whose tool starts experiments, and an unsigned request.\<close>

definition sample_system :: "(mem_store, ChaosEngine list) system" where
  "sample_system =
     \<lparr>sy_agent = sample_agent\<lparr>keys := \<lparr>localAccessKey = ''ak'', localSecureKey = ''sk''\<rparr>, files := plain_fs\<lparr>content := [BladeBinPath \<mapsto> []]\<rparr>\<rparr>,
      sy_running = [], sy_jobs = [], sy_client = fresh_client, sy_cluster = [], sy_watched = [],
      sy_pods = \<lparr>pc_base = createK8sBaseCollector PodResource zero_Uri,
                 serviceCollector = \<lparr>sc_base = createK8sBaseCollector ServiceResource zero_Uri, selectors = []\<rparr>\<rparr>\<rparr>"

definition sample_surroundings :: "(mem_store, string, ChaosEngine list, unit, unit) surroundings" where
  "sample_surroundings =
     \<lparr>su_goos = ''linux'', su_shell = (\<lambda>c. (json_print (json_of_response created), None)), su_ticks = [Deadline], su_dir = None,
      su_order = id, su_appFile = ''/app'', su_helm = None, su_yaml = open_yaml, su_k8s = None, su_hub = hub_file [], su_name = ''n''\<rparr>"

lemma unsigned_step: "sys_run (\<lambda>su :: (mem_store, string, ChaosEngine list, unit, unit) surroundings. True) s [Served None] s"
proof -
  obtain mux where mux: "Register (api_of sample_surroundings) [] = Some (mux, None)"
    "map_of mux ''/ping'' = Some (NewServerRequestHandler (Some sys_ping))"
    by (simp add: Register_def Http_RegisterHandler_def api_of_def)
  have serve: "Http_serve (keys (sy_agent s)) ''ping'' (NewServerRequestHandler (Some sys_ping)) None s = Ret (s, None)"
    by (simp add: Http_serve_def)
  have "sys_step (\<lambda>su :: (mem_store, string, ChaosEngine list, unit, unit) surroundings. True) (Served None) s s"
    using Serve [where possible = "\<lambda>su. True", OF TrueI mux, of s None s] serve by (simp add: signed_request_def)
  then show ?thesis using Next [OF Idle] by fastforce
qed

theorem unsigned_traffic_is_harmless_witness:
  "\<exists>s'. sys_run (\<lambda>su :: (mem_store, string, ChaosEngine list, unit, unit) surroundings. True) sample_system [Served None, Beat] s'
    \<and> items (hbs (sy_agent s')) \<noteq> [] \<and> no_gain sample_system s'"
proof -
  obtain b where t: "heartbeat_tick sample_env (sy_agent sample_system) = Some (record_hb b (sy_agent sample_system))"
    using heartbeat_tick_spec by blast
  let ?s = "sample_system\<lparr>sy_agent := record_hb b (sy_agent sample_system)\<rparr>"
  have r: "sys_run (\<lambda>su :: (mem_store, string, ChaosEngine list, unit, unit) surroundings. True) sample_system ([Served None] @ [Beat]) ?s"
    by (rule Next [OF unsigned_step]) (rule sys_step.Beat [OF t])
  have "items (hbs (sy_agent ?s)) \<noteq> []"
    by (simp add: record_hb_def Put_def sample_system_def sample_agent_def HBSnapshotList_def NewLimitedSortList_def)
  then show ?thesis using unsigned_traffic_is_harmless [OF r] r by auto
qed

theorem running_agent_stays_sound_witness:
  "\<exists>a w. agent_main (sample_boot (api_of sample_surroundings)) sample_fs = Up a w
    \<and> Pid (opts (sy_agent (system_of a w fresh_client ([] :: ChaosEngine list) (sy_pods sample_system)))) = Itoa 7"
proof -
  obtain a w where up: "agent_main (sample_boot (api_of sample_surroundings)) sample_fs = Up a w" using sample_boot_up by blast
  from running_agent_stays_sound [OF up unsigned_step [of "system_of a w fresh_client [] (sy_pods sample_system)"]] up
  show ?thesis by (auto simp: sample_boot_def sample_host_def)
qed

lemma sample_request_ready:
  "\<exists>r'. link_ready (keys (sy_agent sample_system)) 0 ''r-1'' \<lparr>Headers = Some [], Params = Some [(''cmd'', ''create cpu load'')]\<rparr>
    \<and> prepared (keys (sy_agent sample_system)) 0 ''r-1'' \<lparr>Headers = Some [], Params = Some [(''cmd'', ''create cpu load'')]\<rparr> = Some r'"
proof -
  have "valid_utf8 ''ak''" "valid_utf8 ''r-1''" "valid_utf8 ''cmd''" "valid_utf8 ''create cpu load''" by (auto intro!: valid_utf8_ascii)
  then have l: "link_ready (keys (sy_agent sample_system)) 0 ''r-1'' \<lparr>Headers = Some [], Params = Some [(''cmd'', ''create cpu load'')]\<rparr>"
    by (simp add: link_ready_def request_ok_def gomap_ok_def gomap_utf8_def GetAccessKey_def GetSecureKey_def sample_system_def)
  then show ?thesis using agent_link.delivered_and_accepted by blast
qed

lemma sample_tool:
  "blade (sys_world sample_surroundings sample_system) Background ''create cpu load'' = (json_print (json_of_response created), [], True)"
  "parseResult (json_print (json_of_response created)) = created" "Success created" "Result created = JStr ''e7''"
  "isCreateOrPrepareCmd ''create''" "Deadline \<in> set (su_ticks sample_surroundings)"
proof -
  show "isCreateOrPrepareCmd ''create''" by code_simp
  show "parseResult (json_print (json_of_response created)) = created" using created_ok by (rule parseResult_plain)
qed (simp_all add: blade_def ExecScript_def IsExist_def IsWindows_def sys_world_def sample_surroundings_def sample_system_def
    created_def ReturnSuccessWithResult_def)

theorem signed_create_starts_experiment_witness:
  "\<exists>p s'. sys_step (\<lambda>su. su = sample_surroundings) (Served (Some p)) sample_system s'
    \<and> map_of (sy_running s') ''e7'' = Some ''create cpu load''"
proof -
  obtain r' where r: "link_ready (keys (sy_agent sample_system)) 0 ''r-1'' \<lparr>Headers = Some [], Params = Some [(''cmd'', ''create cpu load'')]\<rparr>"
    "prepared (keys (sy_agent sample_system)) 0 ''r-1'' \<lparr>Headers = Some [], Params = Some [(''cmd'', ''create cpu load'')]\<rparr> = Some r'"
    using sample_request_ready by blast
  obtain s' where "sys_step (\<lambda>su. su = sample_surroundings) (Served (Some (keys (sy_agent sample_system), sort_request r'))) sample_system s'"
    "map_of (sy_running s') = (map_of (sy_running sample_system))(''e7'' \<mapsto> ''create cpu load'')"
    using signed_create_starts_experiment [OF r _ sample_fields(1) sample_tool(5,1) _ _ sample_tool(6), where possible = "\<lambda>su. su = sample_surroundings"]
    by (auto simp: gget_def sample_tool(2-4))
  then show ?thesis by (intro exI [of _ "(keys (sy_agent sample_system), sort_request r')"] exI [of _ s']) simp
qed

theorem experiments_were_requested_witness:
  "\<exists>tr s. sys_run (\<lambda>su. su = sample_surroundings) sample_system tr s \<and> map_of (sy_running s) ''e7'' = Some ''create cpu load''
    \<and> (\<exists>ks req. Served (Some (ks, req)) \<in> set tr \<and> Handle ks BuildInterceptor req = None \<and> gget (Params req) ''cmd'' = ''create cpu load'')"
proof -
  obtain r' where r: "link_ready (keys (sy_agent sample_system)) 0 ''r-1'' \<lparr>Headers = Some [], Params = Some [(''cmd'', ''create cpu load'')]\<rparr>"
    "prepared (keys (sy_agent sample_system)) 0 ''r-1'' \<lparr>Headers = Some [], Params = Some [(''cmd'', ''create cpu load'')]\<rparr> = Some r'"
    using sample_request_ready by blast
  obtain s' where s': "sys_step (\<lambda>su. su = sample_surroundings) (Served (Some (keys (sy_agent sample_system), sort_request r'))) sample_system s'"
    "map_of (sy_running s') = (map_of (sy_running sample_system))(''e7'' \<mapsto> ''create cpu load'')"
    using signed_create [OF r _ sample_fields(1) sample_tool(5,1) _ _ sample_tool(6), where possible = "\<lambda>su. su = sample_surroundings"]
    by (auto simp: gget_def sample_tool(2-4))
  have run: "sys_run (\<lambda>su. su = sample_surroundings) sample_system ([] @ [Served (Some (keys (sy_agent sample_system), sort_request r'))]) s'"
    using Idle s'(1) by (rule Next)
  have e: "sy_running sample_system = []" by (simp add: sample_system_def)
  have "map_of (sy_running s') ''e7'' = Some ''create cpu load''" using s'(2) by simp
  with experiments_were_requested [OF run e this] run show ?thesis by blast
qed

end
