(* ===== verification/Spec2Isabelle.thy ===== *)
theory Spec2Isabelle
  imports Agent_Monitor Agent_Watch Agent_Threads Agent_System
begin

text \<open>
  \<^bold>\<open>A verification of the ChaosBlade-Box agent.\<close>

  The agent (Go, \<open>src/\<close>) runs on a host or in a Kubernetes cluster. It registers at a server and gets
  its keys (\<open>conn/connect\<close>), sends heartbeats (\<open>conn/heartbeat\<close>) and cluster reports
  (\<open>collector/kubernetes\<close>) over signed HTTP calls (\<open>transport\<close>, \<open>pkg/http\<close>), watches its own heartbeats
  and asks for a stop or a start of fault injection (\<open>monitor\<close>), and serves signed requests (\<open>web\<close>):
  \<open>blade\<close> command lines (\<open>web/handler/chaosblade.go\<close>), LitmusChaos experiments
  (\<open>web/handler/litmuschaos\<close>, with Helm and a chart registry under \<open>pkg/helm3\<close>), ping, uninstall and the
  update of the application's name.

  \<^bold>\<open>Conventions.\<close> A Go struct is a record, a map an association list with distinct keys in the order a
  \<open>range\<close> loop meets them, a string a list of bytes. A panic is \<^const>\<open>None\<close> of the type \<open>'a go\<close>, or
  \<open>Panic\<close> of \<open>'a run\<close> where a call may also wait for a timer (\<open>Waiting\<close>). A value with an error is a sum
  or a pair with an optional text. State is passed explicitly. The clock, random ids, the network, the
  shell, the files, the Kubernetes and Helm libraries, the OCI store and the order of map iteration are
  arguments; what a theorem needs of them is among its hypotheses. Logging is left out.

  \<^bold>\<open>Theories, by layer.\<close>
  \<^item> \<open>Go_Prelude\<close>: \<open>strings\<close>, \<open>strconv\<close>, maps and Go's integer division, byte for byte, with the lemmas on
    splitting, joining, decimal numerals and map lookups that the components share.
  \<^item> \<open>Go_Json\<close>: \<open>encoding/json\<close>, a printer, a tokeniser and a parser with Go's depth limit; printing
    and parsing of well formed values are inverse. \<open>Go_Crypto\<close>: SHA-256, MD5 and base64, computed on words,
    with the lemmas on output lengths.
  \<^item> \<open>Agent_Tools\<close> (\<open>pkg/tools\<close>): the bounded list, sets, key and application files, signatures, digests,
    the signal loop. The bounded list implements the locale of a window over the last values.
  \<^item> \<open>Agent_Bash\<close> (\<open>pkg/bash\<close>, the pid file of \<open>cmd\<close>), \<open>Agent_Options\<close> (\<open>pkg/options\<close>), \<open>Agent_Files\<close>
    (\<open>pkg/tools/file.go\<close>, \<open>download.go\<close>, \<open>env.go\<close>, \<open>uuid.go\<close>: unpacking with the paths as the system resolves
    them, compression, downloads, the remembered paths, generated ids).
  \<^item> \<open>Agent_Transport\<close> (\<open>transport\<close>, \<open>pkg/http\<close>): requests, responses, the interceptor chain on both sides,
    the invocation and the HTTP channel, which posts one flat map; the locale of a signed link is interpreted on these.
  \<^item> \<open>Agent_Conn\<close> (\<open>conn\<close>, \<open>metricreport\<close>): registration, heartbeats, reports, the metric registry with
    its lock, and the goroutines of \<open>Conn.Start\<close> as a step relation.
  \<^item> \<open>Agent_Monitor\<close> (\<open>monitor\<close>): the decision from the heartbeat history and the loop.
  \<^item> \<open>Agent_Chaosblade\<close> (\<open>web/handler/chaosblade.go\<close>): commands, the table of running experiments, the
    status goroutines; requests and goroutines interleave as the step relation \<open>handler_step\<close>.
    \<open>Agent_Threads\<close> takes the requests apart: the run of the tool outside the lock, the wait for \<open>mutex\<close>,
    the change of the table under it and the callback without it are steps of their own (\<open>ch_step\<close>).
  \<^item> \<open>Agent_Web\<close> (\<open>web\<close>, \<open>web/api\<close>, \<open>web/server\<close>, small handlers): decoding, the check before every handler,
    registration.
  \<^item> \<open>Agent_Collector\<close> (\<open>collector/kubernetes/kubernetes.go\<close>, \<open>common.go\<close>): the identifier cache, reports with
    the requests they send and their answers, combined list watchers. Its locale \<open>resource_info\<close> states what an info type of a
    collector must satisfy and proves once that accepted cycles synchronise the server with the
    cluster; \<open>Agent_Pods\<close> (services and pods) and \<open>Agent_Workloads\<close> (namespaces, deployments, replica
    sets, daemon sets, nodes, ingresses, virtual nodes) interpret it for each type. \<open>Agent_Watch\<close>: the
    list watch functions of the collectors, and the combination of several watches, its goroutines,
    stops and a reader that is there or not as the step relation \<open>mw_step\<close>.
  \<^item> \<open>Agent_Helm\<close> (\<open>pkg/helm3/registry/reference.go\<close>, \<open>util.go\<close>): chart references and printed sizes;
    \<open>Agent_Registry\<close> (\<open>cache.go\<close>, \<open>client.go\<close>): the chart cache and the registry client over a store given by
    its operations; \<open>Agent_Litmus\<close> (\<open>pkg/helm3/helm.go\<close>, \<open>web/handler/litmuschaos\<close>): install, uninstall,
    create and destroy.
  \<^item> \<open>Agent_Start\<close> (\<open>cmd/chaos_agent.go\<close>, \<open>pkg/kubernetes\<close>, \<open>pkg/log\<close>): what \<open>main\<close> sets up, and the
    goroutines of the start (client handlers, listener, process id) as the step relation \<open>launch_step\<close>, until \<open>main\<close>
    waits for a signal. \<open>Agent_Setup\<close>: the constructors \<open>NewCache\<close>, \<open>NewClient\<close>, \<open>GetHelmInstance\<close>, those of the Litmus
    handlers, and \<open>GetMonitorInstance\<close> under any number of callers.
  \<^item> \<open>Agent_System\<close>: the whole agent after its start, as one state that requests to any of the registered
    handlers, heartbeats, the registration, status goroutines, watches of engines and pod reports
    change in any order (\<open>sys_step\<close>). The locale \<open>system_handler\<close> states what a handler may change; it is
    interpreted on all seven.
  \<^item> This theory: signed calls over the HTTP channel, and registration, heartbeats, channel and monitor together.

  \<^bold>\<open>What the theorems show.\<close> A call of a registered agent is posted as one flat map that holds its parameters and a
  signature a receiver with the keys accepts, and returns what the server answers. A handler runs exactly for
  requests with a valid signature; a signature binds the parameters unless the request brings its own signed data. The
  keys a registration brings are the ones the next heartbeats succeed with. The bounded list is a window; the checker
  implements the window rule, a lost server is noticed, and an outage stops fault injection and its end starts it
  again. Every heartbeat records one result. The table of running experiments follows the successful commands in every
  reachable state; requests that run at the same time take effect on it one after the other, each once,
  the lock keeps them apart, and requests that do not overlap leave the table of the tool. Accepted report
  cycles send the server what it needs to hold exactly the cluster's resources, vanished ones included; failed removals
  are lost. Saved and pulled charts load, and the chart that was pulled is the one that is installed; references and
  responses survive printing and reading; a create request has the effect it describes, and none after an uninstall. A
  combined watch keeps the events of each watch in order, and closes its result once stopped, read or not. A start is
  over after a bounded number of steps, and then the agent serves, with all its handlers and a checked configuration,
  or has ended, and it is said which; an agent that is up keeps what its parts need in every state it reaches. As long
  as no signed request arrives, nothing the network sends starts an experiment or changes the cluster, a signed create
  request does start one, and every experiment of the table goes back to a signed request that asked for it. Every
  answer of the server is a JSON response. All callers get the same monitor. An archive with plain names is unpacked
  where its names say; the remembered paths lie in one directory. Further theorems state where the code falls short (a
  registration without id, the lock of the metric registry, rights files of three parts, empty cached files, a nil
  error channel, two stops of a watch at once, the process id file of a failed listener, file names of several bytes
  per letter, archive entries that leave the destination, the dropped versions of watches, the callback that changes
  the table without the lock and ends the process, a destroy that overlaps its create and leaves the entry of a
  stopped experiment).

  \<^bold>\<open>Loops and bounds.\<close> Loops over data are structural or have a measure. Loops over a ticker take the
  list of ticks, each with the world of its moment, so a wait whose timer has not come is the value \<open>Waiting\<close>. A run of
  the shell is a function of the command: a script that never ends is not a value of it, but a request that
  takes no further step in the step relations. There is no fuel. Integers are kept at
  their width where they can leave it (restart counts, response codes, time stamps, sizes).

  \<^bold>\<open>Not modelled.\<close> The lines that are logged (only where they go, \<open>InitLog\<close>), version strings and stack
  printing. The gzip and tar formats: unpacking and \<open>CompressByGzip\<close> are over what a reader or writer
  gives. The ids of the uuid library (\<open>GetUUID\<close>), which are arguments where they are used. \<open>authorizer.go\<close>,
  \<open>resolver.go\<close> and the conversions of the cache, which wrap objects of other libraries; the reflector and
  the indexer of the Kubernetes library, whose listing is an argument; the printing of resource
  quantities; \<open>Helm.List\<close>, which has no caller, and the unused structures of \<open>litmusdefault.go\<close>.
\<close>

section \<open>A signed call over HTTP\<close>

text \<open>What \<open>Invoke\<close> makes of the answer to a POST.\<close>

definition call_result :: "string + int \<times> string \<times> string option \<Rightarrow> Response option \<times> string option \<Rightarrow> bool" where
  "call_result reply result \<longleftrightarrow>
     (case reply of
        Inl err \<Rightarrow> result = (None, Some err)
      | Inr (status, text, readErr) \<Rightarrow>
          if status = 200 \<and> snd (unmarshal_response text) then result = (Some (fst (unmarshal_response text)), None)
          else fst result = None \<and> snd result \<noteq> None)"

lemma http_prepared:
  assumes "link_ready ks now uuid r" "prepared ks now uuid r = Some r'" "bad_url net (hc_url hc @ ''/'' @ HandlerName uri) = None"
  shows "\<exists>result. Invoke ks now uuid (DoInvoker net hc) uri r True = Some (r', result)
    \<and> call_result (post net (hc_url hc @ ''/'' @ HandlerName uri) (json_print (json_of_map (GetBody (sort_request r'))))) result"
  using assms(3) Invoke_prepared [OF assms(2), of "DoInvoker net hc" uri] prepared_received(1) [OF assms(1,2)]
  by (auto simp: DoInvoker_def call_result_def Let_def split: sum.split prod.split bool.split)

text \<open>
  C1: a call of a registered agent goes out signed and comes back as the server answers it: over the HTTP channel \<open>Invoke\<close>
  does not panic; it makes one POST, at the address of the handler, whose text reads back as one flat map of the
  signed request (a parameter wins over a header of its name); that request holds the caller's parameters and a time
  stamp, and passes the checks of a receiver with the same keys; and the call returns the response of the body exactly
  for status 200 with a readable response, and an error otherwise.
\<close>

theorem signed_call_is_posted:
  assumes "link_ready ks now uuid r" "bad_url net (hc_url hc @ ''/'' @ HandlerName uri) = None"
  shows "\<exists>r' result text m. Invoke ks now uuid (DoInvoker net hc) uri r True = Some (r', result)
    \<and> call_result (post net (hc_url hc @ ''/'' @ HandlerName uri) text) result
    \<and> (\<exists>j. json_parse text = Some j \<and> decode_string_map None j = (m, True))
    \<and> (\<forall>k. gfind m k = (case gfind (Params r') k of Some v \<Rightarrow> Some v | None \<Rightarrow> gfind (Headers r') k))
    \<and> (\<forall>k. k \<noteq> TimestampKey \<longrightarrow> gget (Params r') k = gget (Params r) k)
    \<and> gget (Params r') TimestampKey = Itoa (getCurrentTimeInMillis now)
    \<and> gget (Headers r') SignKey = Sign ks (sign_data r') \<and> Handle ks BuildInterceptor r' = None"
proof -
  obtain r' where p: "prepared ks now uuid r = Some r'" using agent_link.delivered_and_accepted [OF assms(1)] by blast
  have ok: "request_ok r'" "Handle ks BuildInterceptor r' = None" using prepared_accepted [OF assms(1) p] by simp_all
  obtain m where m: "json_parse (json_print (json_of_map (GetBody (sort_request r')))) = Some (json_of_map (GetBody (sort_request r')))"
    "decode_string_map None (json_of_map (GetBody (sort_request r'))) = (m, True)"
    "\<forall>k. gfind m k = (case gfind (Params r') k of Some v \<Rightarrow> Some v | None \<Rightarrow> gfind (Headers r') k)"
    using posted_body [OF ok(1)] by blast
  from http_prepared [OF assms(1) p assms(2)] m ok(2) prepared_headers [OF assms(1) p] prepared_params [OF p] show ?thesis by blast
qed

lemma success_response_ok: "response_ok ReturnSuccess"
proof -
  have "valid_utf8 ''success''" by (auto intro!: valid_utf8_ascii)
  then show ?thesis by (simp add: response_ok_def ReturnSuccess_def OK_def max_depth_def)
qed

lemma sample_link_ready:
  "link_ready \<lparr>localAccessKey = ''ak'', localSecureKey = ''sk''\<rparr> 0 ''r-1'' \<lparr>Headers = Some [], Params = Some []\<rparr>"
proof -
  have "valid_utf8 ''ak''" "valid_utf8 ''r-1''" by (auto intro!: valid_utf8_ascii)
  then show ?thesis
    by (simp add: link_ready_def request_ok_def gomap_ok_def gomap_utf8_def GetAccessKey_def GetSecureKey_def)
qed

text \<open>A network whose POSTs are all answered with one response.\<close>

definition answers :: "Response \<Rightarrow> network \<Rightarrow> bool" where
  "answers resp net \<longleftrightarrow> (\<forall>u. bad_url net u = None) \<and> (\<forall>u b. post net u b = Inr (200, marshal_response resp, None))"

definition sample_net :: "Response \<Rightarrow> network" where
  "sample_net resp = \<lparr>bad_url = (\<lambda>u. None), post = (\<lambda>u b. Inr (200, marshal_response resp, None))\<rparr>"

lemma sample_net_answers: "answers resp (sample_net resp)"
  by (simp add: answers_def sample_net_def)

lemma unmarshal_marshal: "response_ok resp \<Longrightarrow> unmarshal_response (marshal_response resp) = (resp, True)"
  using unmarshal_json_of_response by (simp add: marshal_response_def unmarshal_response_def)

theorem signed_call_is_posted_witness:
  "\<exists>r'. Invoke \<lparr>localAccessKey = ''ak'', localSecureKey = ''sk''\<rparr> 0 ''r-1'' (DoInvoker (sample_net ReturnSuccess) sample_client) zero_Uri
      \<lparr>Headers = Some [], Params = Some []\<rparr> True = Some (r', Some ReturnSuccess, None)"
  using signed_call_is_posted [OF sample_link_ready, of "sample_net ReturnSuccess" sample_client zero_Uri] unmarshal_marshal [OF success_response_ok]
  by (auto simp: sample_net_def call_result_def)

section \<open>Heartbeats and the monitor\<close>

text \<open>The ticks of a heartbeat ticker, each with the environment of its moment.\<close>

fun heartbeats :: "env list \<Rightarrow> agent \<Rightarrow> agent go" where
  "heartbeats [] a = Some a"
| "heartbeats (e # es) a = do { a \<leftarrow> heartbeat_tick e a; heartbeats es a }"

lemma heartbeats_recorded:
  assumes "\<And>e a'. e \<in> set es \<Longrightarrow> a' = a\<lparr>hbs := hbs a'\<rparr> \<Longrightarrow> heartbeat_tick e a' = Some (record_hb b a')"
  shows "heartbeats es a = Some (a\<lparr>hbs := limited.puts (replicate (length es) b) (hbs a)\<rparr>)"
  using assms
proof (induction es arbitrary: a)
  case (Cons e es)
  have 1: "heartbeat_tick e a = Some (record_hb b a)" by (rule Cons.prems) simp_all
  have 2: "heartbeats es (record_hb b a)
      = Some ((record_hb b a)\<lparr>hbs := limited.puts (replicate (length es) b) (hbs (record_hb b a))\<rparr>)"
  proof (rule Cons.IH)
    fix e' a' assume "e' \<in> set es" "a' = (record_hb b a)\<lparr>hbs := hbs a'\<rparr>"
    then show "heartbeat_tick e' a' = Some (record_hb b a')" by (intro Cons.prems) (simp_all add: record_hb_def)
  qed
  from 1 2 show ?case by (simp add: record_hb_def)
qed simp

text \<open>A channel that only fails makes a tick record a failure.\<close>

lemma dead_channel_tick:
  assumes "\<And>u b. \<exists>m. e_chan e u b = Inl m"
  shows "heartbeat_tick e a = Some (record_hb False a)"
proof -
  have none: "fst (answer (e_chan e) u b) = None" for u b using assms [of u b] by (auto simp: answer_def)
  have "agent_Invoke e a uri r True \<noteq> Some (r', Some resp, None)" if "live r" for uri r r' resp
  proof (cases "GetAccessKey (keys a) = [] \<or> GetSecureKey (keys a) = []")
    case True
    with agent_Invoke_unregistered [OF that True, of e uri] show ?thesis by auto
  next
    case False
    with agent_Invoke_registered [OF that, of a e uri] none show ?thesis by (metis fst_conv option.inject option.distinct(1) snd_conv)
  qed
  then show ?thesis using heartbeat_tick_spec [of e a] by (auto simp: live_def)
qed

text \<open>
  What an agent needs to call a server and what a tick needs to reach one: the HTTP channel over a network whose server
  trusts the keys, a request id and a clock. The server trusts keys where it answers every posted request
  that carries them and a signature made with them with success. Such a tick records a success.
\<close>

definition has_keys :: "agent \<Rightarrow> bool" where
  "has_keys a \<longleftrightarrow> GetAccessKey (keys a) \<noteq> [] \<and> GetSecureKey (keys a) \<noteq> [] \<and> valid_utf8 (GetAccessKey (keys a)) \<and> opts_utf8 (opts a)"

definition trusts :: "keystore \<Rightarrow> network \<Rightarrow> bool" where
  "trusts ks net \<longleftrightarrow> (\<forall>u. bad_url net u = None)
     \<and> (\<forall>u r. request_ok r \<and> gget (Headers r) AccessKey = GetAccessKey ks \<and> gget (Headers r) SignKey = Sign ks (sign_data r)
          \<longrightarrow> post net u (json_print (json_of_map (GetBody r))) = Inr (200, marshal_response ReturnSuccess, None))"

definition reaches :: "keystore \<Rightarrow> env \<Rightarrow> bool" where
  "reaches ks e \<longleftrightarrow> (\<exists>net hc. e_chan e = DoInvoker net hc \<and> trusts ks net) \<and> valid_utf8 (e_uuid e) \<and> - (2 ^ 63) \<le> e_now e \<and> e_now e < 2 ^ 63"

lemma sort_request_ok: "request_ok r \<Longrightarrow> request_ok (sort_request r)"
  by (auto simp: request_ok_def gosort_def gomap_ok_def gomap_utf8_def distinct_sort_key split: option.splits)

lemma heartbeat_succeeds:
  assumes "has_keys a" "reaches (keys a) e"
  shows "heartbeat_tick e a = Some (record_hb True a)"
proof -
  let ?r = "\<lparr>Headers = Some (headers_of (opts a)),
    Params = Some ([(''port'', Port (opts a))] @ (if ExternalIpEnable (opts a) then [(''ip'', Ip (opts a))] else [])
      @ [(AppInstanceKeyName, ApplicationInstance (opts a)), (AppGroupKeyName, ApplicationGroup (opts a))])\<rparr>"
  have "valid_utf8 ''ip''" by (auto intro!: valid_utf8_ascii)
  then have ok: "request_ok ?r"
    using NewRequest_ok [OF _ NewRequest_eq, of "opts a"] assms(1) ascii_keys
    by (auto simp: has_keys_def request_ok_def gomap_ok_def gomap_utf8_def opts_utf8_def AppInstanceKeyName_def AppGroupKeyName_def)
  obtain net hc where net: "e_chan e = DoInvoker net hc" "trusts (keys a) net" using assms(2) by (auto simp: reaches_def)
  have ready: "link_ready (keys a) (e_now e) (e_uuid e) ?r" using ok assms by (simp add: link_ready_def has_keys_def reaches_def)
  obtain r' where p: "prepared (keys a) (e_now e) (e_uuid e) ?r = Some r'"
    using agent_link.delivered_and_accepted [OF ready] by blast
  have r': "request_ok r'" using prepared_accepted [OF ready p] by simp
  then have "request_ok (sort_request r')" by (rule sort_request_ok)
  moreover have "gget (Headers (sort_request r')) AccessKey = GetAccessKey (keys a)"
    "gget (Headers (sort_request r')) SignKey = Sign (keys a) (sign_data (sort_request r'))"
    using prepared_headers [OF ready p] r' by (simp_all add: request_ok_def sign_data_sort [unfolded request_ok_def])
  ultimately have post: "post net u (json_print (json_of_map (GetBody (sort_request r')))) = Inr (200, marshal_response ReturnSuccess, None)" for u
    using net(2) unfolding trusts_def by blast
  have "agent_Invoke e a (uri_of a API_HEARTBEAT) ?r True = Some (r', Some ReturnSuccess, None)"
    using http_prepared [OF ready p, of net hc] net post unmarshal_marshal [OF success_response_ok]
    by (auto simp: agent_Invoke_def call_result_def trusts_def)
  then show ?thesis using heartbeat_tick_spec [of e a] assms(1) by (auto simp: ReturnSuccess_def has_keys_def)
qed

text \<open>A run of equal results at the newest end decides the next check.\<close>

lemma newest_check:
  assumes "list_inv h" "int n \<le> cap h" "threshold b \<le> n"
  shows "check (limited.puts (replicate n b) h) b = (if b then (False, start_action) else (True, stop_action))"
proof -
  obtain ys where "rev (items (limited.puts (replicate n b) h)) = replicate n b @ ys" using newest_after_puts [OF assms(1,2)] by blast
  then show ?thesis using decide_newest [OF assms(3), of ys] by (simp add: check_verdict)
qed

text \<open>
  C15: an agent that loses its server notices: after twelve to twenty-six heartbeats on a channel that
  only fails, none of which panics, the monitor's next check asks for the stop of an agent that is
  not stopped yet, whatever its heartbeat history was.
\<close>

theorem lost_server_is_noticed:
  assumes "list_inv (hbs a)" "26 \<le> cap (hbs a)" "12 \<le> length es" "length es \<le> 26"
    and "\<forall>e \<in> set es. \<forall>u b. \<exists>m. e_chan e u b = Inl m"
  shows "\<exists>a'. heartbeats es a = Some a' \<and> check (hbs a') False = (True, stop_action)"
proof -
  have "heartbeats es a = Some (a\<lparr>hbs := limited.puts (replicate (length es) False) (hbs a)\<rparr>)"
    by (rule heartbeats_recorded) (rule dead_channel_tick, use assms(5) in blast)
  then show ?thesis using newest_check [OF assms(1), of "length es" False] assms(2-4)
    by (simp add: threshold_def hbStopThreshold_def)
qed

theorem lost_server_is_noticed_witness:
  "\<exists>a'. heartbeats (replicate 12 sample_env) sample_agent = Some a' \<and> check (hbs a') False = (True, stop_action)"
  by (rule lost_server_is_noticed)
    (simp_all add: sample_agent_def HBSnapshotList_def list_inv_def sample_env_def)

text \<open>
  C16: an outage stops an agent and its end starts it again: twelve to twenty-six failed heartbeats make the
  next check ask for a stop, and three to twenty-six heartbeats over HTTP to a server that trusts the agent's keys
  after that make the check ask for a start.
\<close>

theorem outage_stops_and_restarts:
  assumes "list_inv (hbs a)" "26 \<le> cap (hbs a)" "has_keys a" "12 \<le> length es1" "length es1 \<le> 26"
    and "\<forall>e \<in> set es1. \<forall>u b. \<exists>m. e_chan e u b = Inl m"
    and "3 \<le> length es2" "length es2 \<le> 26" "list_all (reaches (keys a)) es2"
  shows "\<exists>a1 a2. heartbeats es1 a = Some a1 \<and> check (hbs a1) False = (True, stop_action)
    \<and> heartbeats es2 a1 = Some a2 \<and> check (hbs a2) True = (False, start_action)"
proof -
  define a1 where "a1 = a\<lparr>hbs := limited.puts (replicate (length es1) False) (hbs a)\<rparr>"
  have 1: "heartbeats es1 a = Some a1" unfolding a1_def
    by (rule heartbeats_recorded) (rule dead_channel_tick, use assms(6) in blast)
  have 2: "heartbeats es2 a1 = Some (a1\<lparr>hbs := limited.puts (replicate (length es2) True) (hbs a1)\<rparr>)"
  proof (rule heartbeats_recorded)
    fix e a' assume "e \<in> set es2" "a' = a1\<lparr>hbs := hbs a'\<rparr>"
    then have "has_keys a'" "reaches (keys a') e"
      using assms(3,9) by (auto simp: a1_def has_keys_def list_all_iff) (metis agent.select_convs agent.surjective agent.update_convs)+
    then show "heartbeat_tick e a' = Some (record_hb True a')" by (rule heartbeat_succeeds)
  qed
  have inv: "list_inv (hbs a1)" using limited.puts_inv [OF assms(1)] by (simp add: a1_def)
  have cap: "26 \<le> cap (hbs a1)"
    using limited.puts_bound [of "replicate (length es1) False" "hbs a"] assms(2) by (simp add: a1_def)
  have "check (hbs a1) False = (True, stop_action)"
    using newest_check [OF assms(1), of "length es1" False] assms(2,4,5) by (simp add: a1_def threshold_def hbStopThreshold_def)
  moreover have "check (limited.puts (replicate (length es2) True) (hbs a1)) True = (False, start_action)"
    using newest_check [OF inv, of "length es2" True] cap assms(7,8) by (simp add: threshold_def hbStartThreshold_def)
  ultimately show ?thesis using 1 2 by simp
qed

lemma sample_has_keys: "has_keys registered_agent"
proof -
  have "valid_utf8 ''ak''" "valid_utf8 ''19527''" "valid_utf8 DefaultApplicationInstance" "valid_utf8 DefaultApplicationGroup"
    by (auto intro!: valid_utf8_ascii simp: DefaultApplicationInstance_def DefaultApplicationGroup_def)
  then show ?thesis
    by (simp add: has_keys_def registered_agent_def sample_agent_def GetAccessKey_def GetSecureKey_def opts_utf8_def
        AddFlags_def zero_Options_def)
qed

definition online :: "Response \<Rightarrow> env" where
  "online resp = sample_env\<lparr>e_chan := DoInvoker (sample_net resp) sample_client\<rparr>"

lemma sample_reaches: "reaches ks (online ReturnSuccess)"
proof -
  have "valid_utf8 ''r-1''" by (auto intro!: valid_utf8_ascii)
  moreover have "trusts ks (sample_net ReturnSuccess)" by (simp add: trusts_def sample_net_def)
  ultimately show ?thesis by (auto simp: reaches_def online_def sample_env_def)
qed

theorem outage_stops_and_restarts_witness:
  "\<exists>a1 a2. heartbeats (replicate 12 sample_env) registered_agent = Some a1 \<and> check (hbs a1) False = (True, stop_action)
    \<and> heartbeats (replicate 3 (online ReturnSuccess)) a1 = Some a2
    \<and> check (hbs a2) True = (False, start_action)"
  by (rule outage_stops_and_restarts)
    (simp_all add: sample_has_keys sample_reaches list_all_iff, simp_all add: registered_agent_def sample_agent_def HBSnapshotList_def list_inv_def sample_env_def)

section \<open>Registration and what it is for\<close>

text \<open>The result of a registration with both ids and both keys.\<close>

definition registration_result :: "string \<Rightarrow> string \<Rightarrow> keystore \<Rightarrow> json" where
  "registration_result cid uid ks =
     JObj [(''cid'', JStr cid), (''uid'', JStr uid), (''ak'', JStr (localAccessKey ks)), (''sk'', JStr (localSecureKey ks))]"

lemma write_lines_accepted:
  "fs_accepts w \<Longrightarrow> \<exists>w'. write_lines w f old written kvs = (w', None)"
  by (induction w f old written kvs rule: write_lines.induct) (auto simp: Let_def fs_accepts_def)

lemma RecordSecretKeyToFile_accepted:
  assumes "fs_accepts w" "ak \<noteq> []" "sk \<noteq> []"
  shows "\<exists>w'. RecordSecretKeyToFile rng home w ks ak sk = ((w', \<lparr>localAccessKey = ak, localSecureKey = sk\<rparr>), None)"
proof -
  have "\<exists>w'. RecordMapToFile w dat f tr = (w', None)" for dat f tr
    using assms(1) write_lines_accepted by (auto simp: RecordMapToFile_def Let_def fs_accepts_def)
  then obtain w' where "RecordMapToFile w (rng [(AccessKeyName, ak), (SecretKeyName, sk)]) (path_Join [GetUserHome home, ''.chaos.cert'']) True = (w', None)"
    by blast
  then show ?thesis using assms(2,3) by (simp add: RecordSecretKeyToFile_def)
qed

lemma registration_response_ok:
  assumes "valid_utf8 cid" "valid_utf8 uid" "valid_utf8 (localAccessKey ks)" "valid_utf8 (localSecureKey ks)"
  shows "response_ok (ReturnSuccessWithResult (registration_result cid uid ks))"
proof -
  have "valid_utf8 ''cid''" "valid_utf8 ''uid''" "valid_utf8 ''ak''" "valid_utf8 ''sk''" by (auto intro!: valid_utf8_ascii)
  with assms show ?thesis
    by (simp add: response_ok_def registration_result_def ReturnSuccessWithResult_def OK_def max_depth_def)
qed

text \<open>
  C25: a registration makes the agent able to talk to the server: where the server answers the posted registration with
  ids and keys and the key file can be written, the registration succeeds, the agent holds those keys and ids, and its
  next heartbeat over HTTP to a server that trusts the keys is recorded as a success.
\<close>

theorem registration_enables_heartbeats:
  assumes "e_chan e = DoInvoker net hc" "answers (ReturnSuccessWithResult (registration_result cid uid ks)) net"
    and "valid_utf8 cid" "valid_utf8 uid" "valid_utf8 (localAccessKey ks)" "valid_utf8 (localSecureKey ks)"
    and "localAccessKey ks \<noteq> []" "localSecureKey ks \<noteq> []" "fs_accepts (files a)" "opts_utf8 (opts a)" "reaches ks e'"
  shows "\<exists>a'. connect_Start e a = Some (a', None) \<and> keys a' = ks \<and> Cid (opts a') = cid \<and> Uid (opts a') = uid
    \<and> heartbeat_tick e' a' = Some (record_hb True a')"
proof -
  let ?resp = "ReturnSuccessWithResult (registration_result cid uid ks)"
  obtain r where r: "add_params (connect_params e a) \<lparr>Headers = Some (headers_of (opts a)), Params = Some [(''port'', Port (opts a))]\<rparr> = Some r" "live r"
    using add_params_live [OF NewRequest_live [OF NewRequest_eq]] by blast
  obtain r' where "AddHeader ''rid'' (e_uuid e) r = Some r'" using AddHeader_live [OF r(2)] by blast
  then have i: "agent_Invoke e a uri r False = Some (r', Some ?resp, None)" for uri
    using unmarshal_marshal [OF registration_response_ok [OF assms(3-6)]] assms(1,2)
    by (simp add: agent_Invoke_def Invoke_def DoInvoker_def answers_def Let_def)
  obtain w where w: "RecordSecretKeyToFile (e_order e) (e_home e) (files a) (keys a) (localAccessKey ks) (localSecureKey ks) = ((w, ks), None)"
    using RecordSecretKeyToFile_accepted [OF assms(9,7,8), of "e_order e" "e_home e" "keys a"] by (cases ks) auto
  let ?a = "a\<lparr>opts := SetUid uid (SetCid cid (opts a)), files := w, keys := ks\<rparr>"
  have "connect_Start e a = Some (?a, None)"
    using r i w by (simp add: connect_Start_def NewRequest_eq handleDirectHttpConnectResponse_def ReturnSuccessWithResult_def
        registration_result_def obj_get_def take_uid_def take_keys_def)
  moreover have "has_keys ?a" using assms(3-10) by (simp add: has_keys_def opts_utf8_def SetUid_def SetCid_def GetAccessKey_def GetSecureKey_def)
  then have "heartbeat_tick e' ?a = Some (record_hb True ?a)" using assms(11) by (intro heartbeat_succeeds) simp_all
  ultimately show ?thesis by (simp add: SetUid_def SetCid_def)
qed

theorem registration_enables_heartbeats_witness:
  "\<exists>a'. connect_Start (online (ReturnSuccessWithResult
        (registration_result ''c1'' ''u1'' \<lparr>localAccessKey = ''ak'', localSecureKey = ''sk''\<rparr>))) sample_agent = Some (a', None)
    \<and> GetAccessKey (keys a') = ''ak'' \<and> Cid (opts a') = ''c1'' \<and> heartbeat_tick (online ReturnSuccess) a' = Some (record_hb True a')"
proof -
  let ?ks = "\<lparr>localAccessKey = ''ak'', localSecureKey = ''sk''\<rparr>"
  let ?resp = "ReturnSuccessWithResult (registration_result ''c1'' ''u1'' ?ks)"
  have u: "valid_utf8 ''c1''" "valid_utf8 ''u1''" "valid_utf8 ''ak''" "valid_utf8 ''sk''" by (auto intro!: valid_utf8_ascii)
  have "fs_accepts (files sample_agent)" by (simp add: fs_accepts_def sample_agent_def plain_fs_def)
  moreover have "opts_utf8 (opts sample_agent)" using sample_has_keys by (simp add: has_keys_def registered_agent_def)
  moreover have "e_chan (online ?resp) = DoInvoker (sample_net ?resp) sample_client" by (simp add: online_def)
  ultimately have "\<exists>a'. connect_Start (online ?resp) sample_agent = Some (a', None)
      \<and> keys a' = ?ks \<and> Cid (opts a') = ''c1'' \<and> Uid (opts a') = ''u1''
      \<and> heartbeat_tick (online ReturnSuccess) a' = Some (record_hb True a')"
    using u by (intro registration_enables_heartbeats [OF _ sample_net_answers]) (simp_all add: sample_reaches)
  then show ?thesis by (auto simp: GetAccessKey_def)
qed

end
